(* ===== verification/Prelude.thy ===== *)
theory Prelude
  imports Main "HOL-Library.Word" "HOL-Library.AList"
begin

text \<open>
  Shared vocabulary of the development: machine words and byte strings, the
  big-endian packing of \<^verbatim>\<open>encoding/binary\<close>, Go's slices and maps, channels with a
  buffer, and results of operations that may block.

  Go's \<^verbatim>\<open>string\<close> is a byte sequence; Isabelle's \<^typ>\<open>char\<close> has exactly the 256 byte
  values, so \<^typ>\<open>string\<close> is used for it and \<open>bytes_of_string\<close> / \<open>string_of_bytes\<close> are
  the conversions \<^verbatim>\<open>[]byte(s)\<close> / \<^verbatim>\<open>string(b)\<close>.  A Go map is an association list
  updated by \<^const>\<open>AList.update\<close> and \<^const>\<open>AList.delete\<close>; the model keeps keys distinct,
  so \<^const>\<open>length\<close> is \<^verbatim>\<open>len(m)\<close>.  A Go \<^verbatim>\<open>int\<close> (64 bits on the supported platforms)
  that only counts bytes, streams or ports is an unbounded \<^typ>\<open>int\<close>; \<^verbatim>\<open>uint32\<close>,
  \<^verbatim>\<open>int32\<close> and \<^verbatim>\<open>byte\<close> keep their width.
\<close>

unbundle bit_operations_syntax

type_synonym byte = "8 word"
type_synonym u32 = "32 word"
type_synonym i32 = "32 word"
type_synonym bytes = "byte list"
type_synonym ('k, 'v) gomap = "('k \<times> 'v) list"

text \<open>Equations that evaluate the pieces of the wire format.\<close>
named_theorems wire_simps

text \<open>Facts a component's invariant is preserved by; one per operation.\<close>
named_theorems preserves

section \<open>Slices\<close>

text \<open>\<^verbatim>\<open>xs[lo:hi]\<close>, for bounds inside the goslice.\<close>
definition goslice :: "nat \<Rightarrow> nat \<Rightarrow> 'a list \<Rightarrow> 'a list" where
  "goslice lo hi xs = take (hi - lo) (drop lo xs)"

lemma length_goslice [simp]: "hi \<le> length xs \<Longrightarrow> length (goslice lo hi xs) = hi - lo"
  by (simp add: goslice_def)

lemma append_split_long:
  "h @ p = xs @ ys \<Longrightarrow> length h \<le> length xs \<Longrightarrow> \<exists>q. xs = h @ q \<and> p = q @ ys"
proof (induction h arbitrary: xs)
  case (Cons a h)
  then show ?case by (cases xs) auto
qed simp

section \<open>Strings as bytes\<close>

definition bytes_of_string :: "string \<Rightarrow> bytes" where
  "bytes_of_string s = map of_char s"

definition string_of_bytes :: "bytes \<Rightarrow> string" where
  "string_of_bytes b = map (\<lambda>x. char_of (unat x)) b"

lemma length_bytes_of_string [simp]: "length (bytes_of_string s) = length s"
  by (simp add: bytes_of_string_def)

lemma length_string_of_bytes [simp]: "length (string_of_bytes b) = length b"
  by (simp add: string_of_bytes_def)

lemma unat_byte_less: "unat (x :: byte) < 256"
proof -
  have "unat x < 2 ^ LENGTH(8)" by (rule unsigned_less)
  then show ?thesis by simp
qed

lemma unat_of_char: "unat (of_char c :: byte) = of_char c"
proof -
  have "unat (word_of_nat (of_char c) :: byte) = of_char c"
    by (simp add: unat_of_nat)
  then show ?thesis by (simp add: of_nat_of_char)
qed

lemma string_of_bytes_of_string [simp]: "string_of_bytes (bytes_of_string s) = s"
  by (induction s) (simp_all add: string_of_bytes_def bytes_of_string_def unat_of_char)

lemma bytes_of_string_of_bytes [simp]: "bytes_of_string (string_of_bytes b) = b"
proof -
  have "(of_char (char_of (unat x)) :: byte) = x" for x :: byte
  proof -
    have "(of_char (char_of (unat x)) :: byte) = of_nat (of_char (char_of (unat x)))"
      by (simp only: of_nat_of_char)
    also have "\<dots> = of_nat (unat x)" using unat_byte_less [of x] by (simp only: of_char_of mod_less)
    finally show ?thesis by simp
  qed
  then show ?thesis by (simp add: bytes_of_string_def string_of_bytes_def map_idI)
qed

lemma bytes_of_string_inj [simp]: "bytes_of_string s = bytes_of_string t \<longleftrightarrow> s = t"
  by (metis string_of_bytes_of_string)

lemma bytes_of_string_simps [simp]:
  "bytes_of_string [] = []"
  "bytes_of_string (s @ t) = bytes_of_string s @ bytes_of_string t"
  "(bytes_of_string s = []) = (s = [])"
  by (simp_all add: bytes_of_string_def)

section \<open>Big-endian integers\<close>

text \<open>\<^verbatim>\<open>binary.BigEndian.PutUint32\<close> and \<^verbatim>\<open>binary.BigEndian.Uint32\<close>.  The latter panics
  on fewer than four bytes; every caller passes a goslice of exactly four.\<close>

definition PutUint32 :: "u32 \<Rightarrow> bytes" where
  "PutUint32 v =
     [ucast (drop_bit 24 v), ucast (drop_bit 16 v), ucast (drop_bit 8 v), ucast v]"

definition join4 :: "byte \<Rightarrow> byte \<Rightarrow> byte \<Rightarrow> byte \<Rightarrow> u32" where
  "join4 a b c d =
     ucast d OR push_bit 8 (ucast c) OR push_bit 16 (ucast b) OR push_bit 24 (ucast a)"

fun Uint32 :: "bytes \<Rightarrow> u32" where
  "Uint32 (a # b # c # d # _) = join4 a b c d"
| "Uint32 _ = 0"

lemma length_PutUint32 [simp]: "length (PutUint32 v) = 4"
  by (simp add: PutUint32_def)

lemma join4_split:
  "join4 (ucast (drop_bit 24 v)) (ucast (drop_bit 16 v)) (ucast (drop_bit 8 v)) (ucast v) = v"
proof (rule bit_word_eqI)
  fix n assume "n < LENGTH(32)"
  then show "bit (join4 (ucast (drop_bit 24 v)) (ucast (drop_bit 16 v)) (ucast (drop_bit 8 v))
               (ucast v)) n \<longleftrightarrow> bit v n"
    by (cases "n < 16"; cases "n < 24") (auto simp: join4_def bit_simps)
qed

lemma Uint32_PutUint32 [simp]: "Uint32 (PutUint32 v) = v"
  by (simp add: PutUint32_def join4_split)

lemma Uint32_PutUint32_append [simp]: "Uint32 (PutUint32 v @ xs) = v"
  by (simp add: PutUint32_def join4_split)

lemma split_join4:
  "ucast (drop_bit 24 (join4 a b c d)) = a"
  "ucast (drop_bit 16 (join4 a b c d)) = b"
  "ucast (drop_bit 8 (join4 a b c d)) = c"
  "ucast (join4 a b c d) = d"
  unfolding join4_def
  by (rule bit_word_eqI; auto simp: bit_simps dest: bit_imp_le_length)+

section \<open>Signed 32-bit integers\<close>

lemma sint_i32_bounds: "- (2 ^ 31) \<le> sint (x :: i32)" "sint (x :: i32) < 2 ^ 31"
  using sint_ge [of x] sint_lt [of x] by simp_all

lemma sint_i32_add:
  "- (2 ^ 31) \<le> sint a + sint b \<Longrightarrow> sint a + sint b < 2 ^ 31 \<Longrightarrow>
   sint (a + b :: i32) = sint a + sint b"
  by (simp add: sint_word_ariths signed_take_bit_int_eq_self)

lemma sint_i32_diff:
  "- (2 ^ 31) \<le> sint a - sint b \<Longrightarrow> sint a - sint b < 2 ^ 31 \<Longrightarrow>
   sint (a - b :: i32) = sint a - sint b"
  by (simp add: sint_word_ariths signed_take_bit_int_eq_self)

section \<open>Contexts, blocking, channels\<close>

text \<open>\<^verbatim>\<open>ctx.Err()\<close>: nothing while the context is live.\<close>
datatype ctx_error = Canceled | DeadlineExceeded

text \<open>An attempt at a blocking operation, from taking its lock until it returns or goes
  to wait on the condition variable (or on the channels of a \<^verbatim>\<open>select\<close>).\<close>
datatype 'a attempt = Blocked | Returned 'a

section \<open>Splitting and joining strings\<close>

text \<open>\<^verbatim>\<open>strings.Split\<close> and \<^verbatim>\<open>strings.Join\<close> with a one-character separator.\<close>
fun goSplit :: "'c \<Rightarrow> 'c list \<Rightarrow> 'c list list" where
  "goSplit c [] = [[]]"
| "goSplit c (x # xs) =
     (if x = c then [] # goSplit c xs
      else (case goSplit c xs of [] \<Rightarrow> [[x]] | w # ws \<Rightarrow> (x # w) # ws))"

fun goJoin :: "'c \<Rightarrow> 'c list list \<Rightarrow> 'c list" where
  "goJoin c [] = []"
| "goJoin c [w] = w"
| "goJoin c (w # v # ws) = w @ c # goJoin c (v # ws)"

lemma goSplit_not_Nil [simp]: "goSplit c xs \<noteq> []"
  by (induction xs) (auto split: list.splits)

lemma goSplit_word: "c \<notin> set w \<Longrightarrow> goSplit c w = [w]"
  by (induction w) auto

lemma goSplit_append: "c \<notin> set w \<Longrightarrow> goSplit c (w @ c # xs) = w # goSplit c xs"
  by (induction w) auto

lemma goSplit_goJoin:
  "ws \<noteq> [] \<Longrightarrow> (\<And>w. w \<in> set ws \<Longrightarrow> c \<notin> set w) \<Longrightarrow> goSplit c (goJoin c ws) = ws"
  by (induction c ws rule: goJoin.induct) (auto simp: goSplit_word goSplit_append)

lemma goJoin_goSplit [simp]: "goJoin c (goSplit c xs) = xs"
proof (induction xs)
  case (Cons x xs)
  obtain w ws where ws: "goSplit c xs = w # ws" by (cases "goSplit c xs") auto
  with Cons show ?case by (cases ws) auto
qed simp

lemma goJoin_eq_Nil: "goJoin c ws = [] \<longleftrightarrow> ws = [] \<or> ws = [[]]"
  by (induction c ws rule: goJoin.induct) auto

end
