(* ===== verification/Frame.thy ===== *)
theory Frame
  imports Prelude
begin

text \<open>
  The wire format: \<^verbatim>\<open>src/pkg/protocol/frame.go\<close>, \<^verbatim>\<open>frame_codec.go\<close>.

  A command is an arbitrary byte (\<^verbatim>\<open>type Command byte\<close>), as is the flag field, so
  both stay \<^typ>\<open>byte\<close>; the named values are abbreviations.  An \<^verbatim>\<open>io.Reader\<close> is the
  bytes it will still deliver followed by the error it then reports; an
  \<^verbatim>\<open>io.Writer\<close> is the bytes accepted so far and how many more it accepts before it
  fails.  A nil payload and an empty one have length 0 in Go and are not told apart
  by any caller, so both are the empty list.
\<close>

unbundle bit_operations_syntax

section \<open>Constants and commands\<close>

abbreviation (input) ProtocolVersion :: byte where "ProtocolVersion \<equiv> 0x01"
abbreviation (input) HeaderSize :: nat where "HeaderSize \<equiv> 12"
definition MaxPayloadSize :: nat where "MaxPayloadSize = 16 * 1024 * 1024"

abbreviation (input) CmdStreamOpen :: byte where "CmdStreamOpen \<equiv> 0x01"
abbreviation (input) CmdStreamData :: byte where "CmdStreamData \<equiv> 0x02"
abbreviation (input) CmdStreamClose :: byte where "CmdStreamClose \<equiv> 0x03"
abbreviation (input) CmdStreamReset :: byte where "CmdStreamReset \<equiv> 0x04"
abbreviation (input) CmdPing :: byte where "CmdPing \<equiv> 0x05"
abbreviation (input) CmdPong :: byte where "CmdPong \<equiv> 0x06"
abbreviation (input) CmdWindowUpdate :: byte where "CmdWindowUpdate \<equiv> 0x07"
abbreviation (input) CmdGoAway :: byte where "CmdGoAway \<equiv> 0x08"
abbreviation (input) CmdUDPBind :: byte where "CmdUDPBind \<equiv> 0x09"
abbreviation (input) CmdUDPData :: byte where "CmdUDPData \<equiv> 0x0A"
abbreviation (input) CmdUDPUnbind :: byte where "CmdUDPUnbind \<equiv> 0x0B"
abbreviation (input) CmdUpdateManifest :: byte where "CmdUpdateManifest \<equiv> 0x0C"
abbreviation (input) CmdUpdateBinary :: byte where "CmdUpdateBinary \<equiv> 0x0D"
abbreviation (input) CmdServiceList :: byte where "CmdServiceList \<equiv> 0x0E"

definition commandNames :: "(byte, string) gomap" where
  "commandNames =
     [(CmdStreamOpen, ''STREAM_OPEN''), (CmdStreamData, ''STREAM_DATA''),
      (CmdStreamClose, ''STREAM_CLOSE''), (CmdStreamReset, ''STREAM_RESET''),
      (CmdPing, ''PING''), (CmdPong, ''PONG''), (CmdWindowUpdate, ''WINDOW_UPDATE''),
      (CmdGoAway, ''GOAWAY''), (CmdUDPBind, ''UDP_BIND''), (CmdUDPData, ''UDP_DATA''),
      (CmdUDPUnbind, ''UDP_UNBIND''), (CmdUpdateManifest, ''UPDATE_MANIFEST''),
      (CmdUpdateBinary, ''UPDATE_BINARY''), (CmdServiceList, ''SERVICE_LIST'')]"

text \<open>\<^verbatim>\<open>fmt.Sprintf("%02x", b)\<close>.\<close>
definition hexByte :: "byte \<Rightarrow> string" where
  "hexByte b = [''0123456789abcdef'' ! (unat b div 16), ''0123456789abcdef'' ! (unat b mod 16)]"

definition Command_String :: "byte \<Rightarrow> string" where
  "Command_String c =
     (case map_of commandNames c of
        Some name \<Rightarrow> name
      | None \<Rightarrow> ''UNKNOWN(0x'' @ hexByte c @ '')'')"

definition Command_IsValid :: "byte \<Rightarrow> bool" where
  "Command_IsValid c = (case map_of commandNames c of Some _ \<Rightarrow> True | None \<Rightarrow> False)"

abbreviation (input) FlagFIN :: byte where "FlagFIN \<equiv> 1"
abbreviation (input) FlagACK :: byte where "FlagACK \<equiv> 2"

definition Flag_String :: "byte \<Rightarrow> string" where
  "Flag_String f =
     (if f = 0 then ''0x00''
      else if f = FlagFIN then ''FIN''
      else if f = FlagACK then ''ACK''
      else if f = FlagFIN OR FlagACK then ''FIN|ACK''
      else ''0x'' @ hexByte f)"

text \<open>\<^verbatim>\<open>f.Flags & flag != 0\<close>.\<close>
definition hasFlag :: "byte \<Rightarrow> byte \<Rightarrow> bool" where
  "hasFlag flags flag = (flags AND flag \<noteq> 0)"

record Frame =
  Version :: byte
  Command :: byte
  Flags :: byte
  StreamID :: u32
  Payload :: bytes

abbreviation (input) ResetCodeProtocolError :: u32 where "ResetCodeProtocolError \<equiv> 2"

section \<open>Readers and writers\<close>

datatype io_error = EOF | ErrUnexpectedEOF | ErrTransport

record Reader =
  rdata :: bytes
  rend :: io_error

text \<open>\<^verbatim>\<open>io.ReadFull\<close>: exactly \<open>n\<close> bytes or an error; \<^verbatim>\<open>io.EOF\<close> only if nothing was read.\<close>
definition ReadFull :: "nat \<Rightarrow> Reader \<Rightarrow> (io_error + bytes) \<times> Reader" where
  "ReadFull n r =
     (if n \<le> length (rdata r) then (Inr (take n (rdata r)), r\<lparr>rdata := drop n (rdata r)\<rparr>)
      else (Inl (if rdata r \<noteq> [] \<and> rend r = EOF then ErrUnexpectedEOF else rend r),
            r\<lparr>rdata := []\<rparr>))"

record Writer =
  written :: bytes
  room :: "nat option"

text \<open>\<^verbatim>\<open>w.Write(p)\<close> on a transport that fails after \<open>room\<close> more bytes.\<close>
definition Write_bytes :: "Writer \<Rightarrow> bytes \<Rightarrow> io_error option \<times> Writer" where
  "Write_bytes w p =
     (case room w of
        None \<Rightarrow> (None, w\<lparr>written := written w @ p\<rparr>)
      | Some n \<Rightarrow>
          if length p \<le> n then (None, w\<lparr>written := written w @ p, room := Some (n - length p)\<rparr>)
          else (Some ErrTransport, w\<lparr>written := written w @ take n p, room := Some 0\<rparr>))"

section \<open>The codec\<close>

datatype codec_error =
    ErrReadHeader io_error
  | ErrReadPayload io_error
  | ErrVersion byte
  | ErrPayloadLength u32
  | ErrNilFrame
  | ErrPayloadSize nat
  | ErrWriteHeader io_error
  | ErrWritePayload io_error

text \<open>\<^verbatim>\<open>errors.Is(err, ErrInvalidFrame)\<close>.\<close>
fun isErrInvalidFrame :: "codec_error \<Rightarrow> bool" where
  "isErrInvalidFrame (ErrVersion _) = True"
| "isErrInvalidFrame (ErrPayloadLength _) = True"
| "isErrInvalidFrame ErrNilFrame = True"
| "isErrInvalidFrame (ErrPayloadSize _) = True"
| "isErrInvalidFrame _ = False"

definition validateHeader :: "bytes \<Rightarrow> codec_error option" where
  "validateHeader hdr =
     (if hdr ! 0 \<noteq> ProtocolVersion then Some (ErrVersion (hdr ! 0))
      else
        let payloadLen = Uint32 (goslice 8 12 hdr) in
        if unat payloadLen > MaxPayloadSize then Some (ErrPayloadLength payloadLen)
        else None)"

definition ReadFrame :: "Reader \<Rightarrow> (codec_error + Frame) \<times> Reader" where
  "ReadFrame r =
     (case ReadFull HeaderSize r of
        (Inl e, r1) \<Rightarrow> (Inl (ErrReadHeader e), r1)
      | (Inr hdr, r1) \<Rightarrow>
          (case validateHeader hdr of
             Some e \<Rightarrow> (Inl e, r1)
           | None \<Rightarrow>
               let payloadLen = Uint32 (goslice 8 12 hdr);
                   frame = \<lparr>Version = hdr ! 0, Command = hdr ! 1, Flags = hdr ! 2,
                            StreamID = Uint32 (goslice 4 8 hdr), Payload = []\<rparr>
               in if unat payloadLen > 0 then
                    (case ReadFull (unat payloadLen) r1 of
                       (Inl e, r2) \<Rightarrow> (Inl (ErrReadPayload e), r2)
                     | (Inr p, r2) \<Rightarrow> (Inr (frame\<lparr>Payload := p\<rparr>), r2))
                  else (Inr frame, r1)))"

text \<open>The header bytes \<^verbatim>\<open>WriteFrame\<close> fills in.\<close>
definition frameHeader :: "Frame \<Rightarrow> u32 \<Rightarrow> bytes" where
  "frameHeader f payloadLen =
     [Version f, Command f, Flags f, 0] @ PutUint32 (StreamID f) @ PutUint32 payloadLen"

definition WriteFrame :: "Writer \<Rightarrow> Frame option \<Rightarrow> codec_error option \<times> Writer" where
  "WriteFrame w fo =
     (case fo of
        None \<Rightarrow> (Some ErrNilFrame, w)
      | Some f \<Rightarrow>
          let n = length (Payload f) in
          if n > MaxPayloadSize then (Some (ErrPayloadSize n), w)
          else
            let payloadLen = (of_nat n :: u32) in
            (case Write_bytes w (frameHeader f payloadLen) of
               (Some e, w1) \<Rightarrow> (Some (ErrWriteHeader e), w1)
             | (None, w1) \<Rightarrow>
                 if unat payloadLen > 0 then
                   (case Write_bytes w1 (Payload f) of
                      (Some e, w2) \<Rightarrow> (Some (ErrWritePayload e), w2)
                    | (None, w2) \<Rightarrow> (None, w2))
                 else (None, w1)))"

text \<open>The write loop's frames, in dequeue order, up to its first error.\<close>
fun writeFrames :: "Writer \<Rightarrow> Frame list \<Rightarrow> codec_error option \<times> Writer" where
  "writeFrames w [] = (None, w)"
| "writeFrames w (f # fs) =
     (case WriteFrame w (Some f) of
        (Some e, w') \<Rightarrow> (Some e, w')
      | (None, w') \<Rightarrow> writeFrames w' fs)"

text \<open>The frames a read loop sees on a transport: \<^verbatim>\<open>ReadFrame\<close> until its first error.\<close>
function readFrames :: "Reader \<Rightarrow> Frame list \<times> codec_error" where
  "readFrames r =
     (case ReadFrame r of
        (Inl e, _) \<Rightarrow> ([], e)
      | (Inr f, r') \<Rightarrow> (let (fs, e) = readFrames r' in (f # fs, e)))"
  by pat_completeness auto

lemma ReadFull_shorter:
  "ReadFull n r = (Inr p, r') \<Longrightarrow> length (rdata r') = length (rdata r) - n \<and> n \<le> length (rdata r)"
  by (auto simp: ReadFull_def split: if_splits)

lemma ReadFrame_consumes:
  "ReadFrame r = (Inr f, r') \<Longrightarrow> length (rdata r') < length (rdata r)"
  by (auto simp: ReadFrame_def Let_def split: prod.splits sum.splits option.splits if_splits
           dest!: ReadFull_shorter)

termination readFrames
  by (relation "measure (\<lambda>r. length (rdata r))")
     (auto dest: ReadFrame_consumes [OF sym])

declare readFrames.simps [simp del]

section \<open>Evaluation lemmas\<close>

definition frameBytes :: "Frame \<Rightarrow> bytes" where
  "frameBytes f = frameHeader f (of_nat (length (Payload f))) @ Payload f"

definition wireFrame :: "Frame \<Rightarrow> bool" where
  "wireFrame f \<longleftrightarrow> Version f = ProtocolVersion \<and> length (Payload f) \<le> MaxPayloadSize"

lemma length_frameHeader [simp]: "length (frameHeader f n) = HeaderSize"
  by (simp add: frameHeader_def)

lemma frameHeader_fields [wire_simps]:
  "frameHeader f n ! 0 = Version f"
  "frameHeader f n ! Suc 0 = Command f"
  "frameHeader f n ! 2 = Flags f"
  "Uint32 (goslice 4 8 (frameHeader f n)) = StreamID f"
  "Uint32 (goslice 8 12 (frameHeader f n)) = n"
  by (simp_all add: frameHeader_def goslice_def numeral_eq_Suc)

lemma unat_of_nat_payload [wire_simps]:
  "n \<le> MaxPayloadSize \<Longrightarrow> unat (of_nat n :: u32) = n"
  by (simp add: MaxPayloadSize_def unat_of_nat)

lemma of_nat_payload_pos [wire_simps]:
  "n \<le> MaxPayloadSize \<Longrightarrow> (0 < (of_nat n :: u32)) = (0 < n)"
  by (simp add: word_less_nat_alt wire_simps)

lemma ReadFull_append [wire_simps]:
  "length p = n \<Longrightarrow> rdata r = p @ rest \<Longrightarrow> ReadFull n r = (Inr p, r\<lparr>rdata := rest\<rparr>)"
  by (simp add: ReadFull_def)

lemma ReadFull_short [wire_simps]:
  "length (rdata r) < n \<Longrightarrow>
   ReadFull n r = (Inl (if rdata r \<noteq> [] \<and> rend r = EOF then ErrUnexpectedEOF else rend r),
                   r\<lparr>rdata := []\<rparr>)"
  by (simp add: ReadFull_def)

lemma validateHeader_frameHeader [wire_simps]:
  "Version f = ProtocolVersion \<Longrightarrow> unat n \<le> MaxPayloadSize \<Longrightarrow>
   validateHeader (frameHeader f n) = None"
  by (simp add: validateHeader_def wire_simps Let_def)

lemma ReadFrame_frameBytes:
  assumes "wireFrame f" "rdata r = frameBytes f @ rest"
  shows "ReadFrame r = (Inr f, r\<lparr>rdata := rest\<rparr>)"
proof -
  let ?n = "of_nat (length (Payload f)) :: u32"
  let ?r1 = "r\<lparr>rdata := Payload f @ rest\<rparr>"
  from assms have n: "unat ?n = length (Payload f)" and v: "Version f = ProtocolVersion"
    and le: "length (Payload f) \<le> MaxPayloadSize"
    by (auto simp: wireFrame_def unat_of_nat_payload)
  have hdr: "ReadFull HeaderSize r = (Inr (frameHeader f ?n), ?r1)"
    using assms by (simp add: frameBytes_def ReadFull_append)
  have pl: "ReadFull (unat ?n) ?r1 = (Inr (Payload f), r\<lparr>rdata := rest\<rparr>)"
    by (simp add: n ReadFull_append)
  show ?thesis
    using hdr pl v le n
    by (cases f; cases "Payload f = []") (auto simp: ReadFrame_def Let_def wire_simps)
qed

lemma WriteFrame_unlimited:
  assumes "length (Payload f) \<le> MaxPayloadSize" "room w = None"
  shows "WriteFrame w (Some f) = (None, w\<lparr>written := written w @ frameBytes f\<rparr>)"
  using assms
  by (cases "Payload f = []")
     (simp_all add: WriteFrame_def Write_bytes_def Let_def frameBytes_def unat_of_nat_payload)

section \<open>Self-delimiting encodings\<close>

text \<open>
  What the multiplexer relies on when it reads frames back to back from one
  transport: decoding inverts encoding whatever follows, and an encoding cut short
  is an I/O error, never some other value.
\<close>

locale framing =
  fixes enc :: "'f \<Rightarrow> 'b list"
    and ok :: "'f \<Rightarrow> bool"
    and dec :: "'b list \<Rightarrow> 'e + 'f \<times> 'b list"
    and io :: "'e \<Rightarrow> bool"
    and run :: "'b list \<Rightarrow> 'f list \<times> 'e"
  assumes dec_enc: "ok f \<Longrightarrow> dec (enc f @ rest) = Inr (f, rest)"
    and dec_cut: "ok f \<Longrightarrow> enc f = xs @ ys \<Longrightarrow> ys \<noteq> [] \<Longrightarrow> \<exists>e. dec xs = Inl e \<and> io e"
    and dec_nil: "\<exists>e. dec [] = Inl e \<and> io e"
    and run_stop: "dec xs = Inl e \<Longrightarrow> run xs = ([], e)"
    and run_step: "dec xs = Inr (f, r) \<Longrightarrow> run xs = (f # fst (run r), snd (run r))"
begin

lemma prefix_free:
  assumes "ok f" "ok g" "enc f @ r = enc g @ s"
  shows "f = g \<and> r = s"
proof -
  have "Inr (f, r) = dec (enc f @ r)" by (rule dec_enc [OF assms(1), symmetric])
  also have "\<dots> = Inr (g, s)" unfolding assms(3) by (rule dec_enc [OF assms(2)])
  finally show ?thesis by simp
qed

lemma run_enc: "ok f \<Longrightarrow> run (enc f @ rest) = (f # fst (run rest), snd (run rest))"
  by (rule run_step) (rule dec_enc)

lemma run_concat:
  "list_all ok fs \<Longrightarrow>
   run (concat (map enc fs) @ rest) = (fs @ fst (run rest), snd (run rest))"
proof (induction fs)
  case (Cons f fs)
  then show ?case using run_enc [of f "concat (map enc fs) @ rest"] by simp
qed simp

lemma run_cut:
  "list_all ok fs \<Longrightarrow> \<exists>k e. run (take n (concat (map enc fs))) = (take k fs, e) \<and> io e"
proof (induction fs arbitrary: n)
  case Nil
  then show ?case using dec_nil by (auto dest: run_stop)
next
  case (Cons f fs)
  let ?rest = "concat (map enc fs)"
  show ?case
  proof (cases "n < length (enc f)")
    case True
    then have "enc f = take n (enc f) @ drop n (enc f)" "drop n (enc f) \<noteq> []" by simp_all
    with Cons.prems obtain e where "dec (take n (enc f)) = Inl e" "io e"
      using dec_cut [of f "take n (enc f)" "drop n (enc f)"] by auto
    with True show ?thesis
      by (intro exI [of _ 0] exI [of _ e]) (simp add: run_stop)
  next
    case False
    obtain k e where ke: "run (take (n - length (enc f)) ?rest) = (take k fs, e)" "io e"
      using Cons.IH [of "n - length (enc f)"] Cons.prems by auto
    have "run (enc f @ take (n - length (enc f)) ?rest) = (take (Suc k) (f # fs), e)"
      using Cons.prems ke(1) by (simp add: run_enc)
    with False ke(2) show ?thesis
      by (intro exI [of _ "Suc k"] exI [of _ e]) simp
  qed
qed

end

definition decodeFrame :: "bytes \<Rightarrow> codec_error + Frame \<times> bytes" where
  "decodeFrame xs =
     (case ReadFrame \<lparr>rdata = xs, rend = EOF\<rparr> of
        (Inl e, _) \<Rightarrow> Inl e
      | (Inr f, r) \<Rightarrow> Inr (f, rdata r))"

lemma ReadFull_rend: "ReadFull n r = (x, r') \<Longrightarrow> rend r' = rend r"
  by (auto simp: ReadFull_def split: if_splits)

lemma ReadFrame_rend: "ReadFrame r = (x, r') \<Longrightarrow> rend r' = rend r"
  by (auto simp: ReadFrame_def Let_def dest!: ReadFull_rend
           split: prod.splits sum.splits option.splits if_splits)

lemma ReadFrame_header_cut:
  "length (rdata r) < HeaderSize \<Longrightarrow> \<exists>e. fst (ReadFrame r) = Inl (ErrReadHeader e)"
  by (simp add: ReadFrame_def ReadFull_short)

lemma ReadFrame_payload_cut:
  assumes "wireFrame f" "rdata r = frameHeader f (of_nat (length (Payload f))) @ p"
    and "length p < length (Payload f)"
  shows "\<exists>e. fst (ReadFrame r) = Inl (ErrReadPayload e)"
proof -
  let ?n = "of_nat (length (Payload f)) :: u32"
  from assms have n: "unat ?n = length (Payload f)" and v: "Version f = ProtocolVersion"
    and le: "length (Payload f) \<le> MaxPayloadSize"
    by (auto simp: wireFrame_def unat_of_nat_payload)
  have "ReadFull HeaderSize r = (Inr (frameHeader f ?n), r\<lparr>rdata := p\<rparr>)"
    using assms by (simp add: ReadFull_append)
  then show ?thesis
    using assms(3) v le n by (auto simp: ReadFrame_def Let_def wire_simps)
qed

lemma frameBytes_cut:
  assumes "wireFrame f" "frameBytes f = xs @ ys" "ys \<noteq> []"
  shows "\<exists>e. decodeFrame xs = Inl e \<and> \<not> isErrInvalidFrame e"
proof (cases "length xs < HeaderSize")
  case True
  then show ?thesis
    using ReadFrame_header_cut [of "\<lparr>rdata = xs, rend = EOF\<rparr>"]
    by (force simp: decodeFrame_def split: prod.splits)
next
  case False
  let ?h = "frameHeader f (of_nat (length (Payload f)))"
  from assms(2) False obtain p where p: "xs = ?h @ p" "Payload f = p @ ys"
    using append_split_long [of ?h "Payload f" xs ys] by (auto simp: frameBytes_def)
  then have "length p < length (Payload f)" using assms(3) by simp
  then obtain e where "fst (ReadFrame \<lparr>rdata = xs, rend = EOF\<rparr>) = Inl (ErrReadPayload e)"
    using ReadFrame_payload_cut [OF assms(1), of "\<lparr>rdata = xs, rend = EOF\<rparr>" p] p(1) by auto
  then show ?thesis by (force simp: decodeFrame_def split: prod.splits)
qed

interpretation wire: framing frameBytes wireFrame decodeFrame "\<lambda>e. \<not> isErrInvalidFrame e"
  "\<lambda>xs. readFrames \<lparr>rdata = xs, rend = EOF\<rparr>"
proof unfold_locales
  fix f rest
  assume "wireFrame f"
  then show "decodeFrame (frameBytes f @ rest) = Inr (f, rest)"
    by (simp add: decodeFrame_def ReadFrame_frameBytes)
next
  fix f xs ys
  assume "wireFrame f" "frameBytes f = xs @ ys" "ys \<noteq> []"
  then show "\<exists>e. decodeFrame xs = Inl e \<and> \<not> isErrInvalidFrame e" by (rule frameBytes_cut)
next
  show "\<exists>e. decodeFrame [] = Inl e \<and> \<not> isErrInvalidFrame e"
    by (simp add: decodeFrame_def ReadFrame_def ReadFull_def)
next
  fix xs e
  assume "decodeFrame xs = Inl e"
  then show "readFrames \<lparr>rdata = xs, rend = EOF\<rparr> = ([], e)"
    by (subst readFrames.simps) (auto simp: decodeFrame_def split: prod.splits sum.splits)
next
  fix xs f r
  assume "decodeFrame xs = Inr (f, r)"
  then obtain r' where r': "ReadFrame \<lparr>rdata = xs, rend = EOF\<rparr> = (Inr f, r')" "r = rdata r'"
    by (auto simp: decodeFrame_def split: prod.splits sum.splits)
  then have "ReadFrame \<lparr>rdata = xs, rend = EOF\<rparr> = (Inr f, \<lparr>rdata = r, rend = EOF\<rparr>)"
    by (cases r') (auto dest: ReadFrame_rend)
  then show "readFrames \<lparr>rdata = xs, rend = EOF\<rparr> =
    (f # fst (readFrames \<lparr>rdata = r, rend = EOF\<rparr>), snd (readFrames \<lparr>rdata = r, rend = EOF\<rparr>))"
    by (subst readFrames.simps) (simp add: case_prod_beta)
qed

section \<open>Properties of the codec\<close>

lemma writeFrames_unlimited:
  "list_all wireFrame fs \<Longrightarrow> room w = None \<Longrightarrow>
   writeFrames w fs = (None, w\<lparr>written := written w @ concat (map frameBytes fs)\<rparr>)"
  by (induction fs arbitrary: w) (simp_all add: WriteFrame_unlimited wireFrame_def)

lemma WriteFrame_limited:
  assumes "wireFrame f" "room w = Some n" "WriteFrame w (Some f) = (e, w')"
  shows "written w' = written w @ take n (frameBytes f)"
    and "length (frameBytes f) \<le> n \<Longrightarrow> e = None \<and> room w' = Some (n - length (frameBytes f))"
    and "n < length (frameBytes f) \<Longrightarrow> e \<noteq> None"
  using assms
  by (auto simp: WriteFrame_def Write_bytes_def Let_def frameBytes_def wireFrame_def wire_simps
           split: if_splits option.splits)

lemma writeFrames_limited:
  "list_all wireFrame fs \<Longrightarrow> room w = Some n \<Longrightarrow>
   written (snd (writeFrames w fs)) = written w @ take n (concat (map frameBytes fs))"
proof (induction fs arbitrary: w n)
  case (Cons f fs)
  obtain e w' where w': "WriteFrame w (Some f) = (e, w')" by fastforce
  have f: "wireFrame f" using Cons.prems by simp
  note lim = WriteFrame_limited [OF f Cons.prems(2) w']
  show ?case
  proof (cases "length (frameBytes f) \<le> n")
    case True
    with lim have "e = None" "room w' = Some (n - length (frameBytes f))"
      "written w' = written w @ frameBytes f" by simp_all
    with w' True Cons show ?thesis by simp
  next
    case False
    with lim(1,3) w' show ?thesis by (auto split: option.splits)
  qed
qed simp

text \<open>C5. Frames written one after another to a transport that accepts them all are read
  back exactly, in order, and the reader then reports a clean end of stream: the codec
  loses, merges and reorders nothing.\<close>
theorem frame_stream_roundtrip:
  assumes "list_all wireFrame fs"
  shows "\<exists>w. writeFrames \<lparr>written = [], room = None\<rparr> fs = (None, w) \<and>
             readFrames \<lparr>rdata = written w, rend = EOF\<rparr> = (fs, ErrReadHeader EOF)"
proof -
  have "readFrames \<lparr>rdata = [], rend = EOF\<rparr> = ([], ErrReadHeader EOF)"
    by (subst readFrames.simps) (simp add: ReadFrame_def ReadFull_def)
  then show ?thesis
    using wire.run_concat [OF assms, of "[]"] writeFrames_unlimited [OF assms] by simp
qed

theorem frame_stream_roundtrip_witness:
  "\<exists>w. writeFrames \<lparr>written = [], room = None\<rparr>
         [\<lparr>Version = 1, Command = 5, Flags = 0, StreamID = 0, Payload = [222, 173]\<rparr>,
          \<lparr>Version = 1, Command = 2, Flags = 1, StreamID = 3, Payload = [72]\<rparr>] = (None, w) \<and>
       readFrames \<lparr>rdata = written w, rend = EOF\<rparr> =
         ([\<lparr>Version = 1, Command = 5, Flags = 0, StreamID = 0, Payload = [222, 173]\<rparr>,
           \<lparr>Version = 1, Command = 2, Flags = 1, StreamID = 3, Payload = [72]\<rparr>],
          ErrReadHeader EOF)"
  by (rule frame_stream_roundtrip) (simp add: wireFrame_def MaxPayloadSize_def)

text \<open>When the transport breaks after any number of bytes, the peer decodes a prefix
  of the frames that were sent and then gets an I/O error: a cut never yields a frame
  that was not sent, and never a protocol error.\<close>
theorem frame_stream_cut:
  assumes "list_all wireFrame fs"
  shows "\<exists>k e. readFrames \<lparr>rdata = written (snd (writeFrames \<lparr>written = [], room = Some n\<rparr> fs)),
                            rend = EOF\<rparr> = (take k fs, e) \<and> \<not> isErrInvalidFrame e"
  using wire.run_cut [OF assms, of n] writeFrames_limited [OF assms] by simp

theorem frame_stream_cut_witness:
  "\<exists>k e. readFrames \<lparr>rdata = written (snd (writeFrames \<lparr>written = [], room = Some 13\<rparr>
            [\<lparr>Version = 1, Command = 2, Flags = 0, StreamID = 1, Payload = [1, 2, 3]\<rparr>])),
            rend = EOF\<rparr> =
          (take k [\<lparr>Version = 1, Command = 2, Flags = 0, StreamID = 1, Payload = [1, 2, 3]\<rparr>], e)
        \<and> \<not> isErrInvalidFrame e"
  by (rule frame_stream_cut) (simp add: wireFrame_def MaxPayloadSize_def)

lemma ReadFull_Inr:
  "ReadFull n r = (Inr p, r') \<Longrightarrow>
   rdata r = p @ rdata r' \<and> length p = n \<and> rend r' = rend r"
  by (auto simp: ReadFull_def split: if_splits)

lemma PutUint32_Uint32:
  assumes "length p = 4"
  shows "PutUint32 (Uint32 p) = p"
proof -
  from assms obtain a b c d where "p = [a, b, c, d]"
    by (auto simp: numeral_eq_Suc length_Suc_conv)
  then show ?thesis by (simp add: PutUint32_def split_join4)
qed

lemma header_layout:
  assumes "length hdr = HeaderSize"
  shows "hdr = [hdr ! 0, hdr ! 1, hdr ! 2, hdr ! 3] @ PutUint32 (Uint32 (goslice 4 8 hdr)) @
               PutUint32 (Uint32 (goslice 8 12 hdr))"
proof -
  have "hdr = take 4 hdr @ goslice 4 8 hdr @ goslice 8 12 hdr"
    using assms append_take_drop_id [of 4 hdr] append_take_drop_id [of 4 "drop 4 hdr"]
    by (simp add: goslice_def)
  moreover have "take 4 hdr = [hdr ! 0, hdr ! 1, hdr ! 2, hdr ! 3]"
    using assms by (simp add: list_eq_iff_nth_eq less_Suc_eq numeral_eq_Suc)
  ultimately show ?thesis using assms by (simp add: PutUint32_Uint32)
qed

text \<open>C29. Whatever bytes a peer sends, a frame that \<open>ReadFrame\<close> accepts has the supported
  version and at most 16 MiB of payload, and the bytes consumed are exactly that frame's
  encoding up to the reserved byte, which is ignored.\<close>
theorem ReadFrame_sound:
  assumes "ReadFrame r = (Inr f, r')"
  shows "wireFrame f \<and>
         (\<exists>reserved. rdata r =
            [Version f, Command f, Flags f, reserved] @ PutUint32 (StreamID f) @
            PutUint32 (of_nat (length (Payload f))) @ Payload f @ rdata r')"
proof -
  from assms obtain hdr r1 where h: "ReadFull HeaderSize r = (Inr hdr, r1)"
    and v: "validateHeader hdr = None"
    by (auto simp: ReadFrame_def split: prod.splits sum.splits option.splits)
  let ?n = "Uint32 (goslice 8 12 hdr)"
  from v have ver: "hdr ! 0 = ProtocolVersion" and le: "unat ?n \<le> MaxPayloadSize"
    by (auto simp: validateHeader_def Let_def split: if_splits)
  have p: "rdata r1 = Payload f @ rdata r'" "length (Payload f) = unat ?n"
    and fs: "Version f = hdr ! 0" "Command f = hdr ! 1" "Flags f = hdr ! 2"
      "StreamID f = Uint32 (goslice 4 8 hdr)"
    using assms h v
    by (auto simp: ReadFrame_def Let_def split: if_splits prod.splits sum.splits
             dest!: ReadFull_Inr)
  have "(of_nat (length (Payload f)) :: u32) = ?n" using p(2) by simp
  then have "rdata r = [Version f, Command f, Flags f, hdr ! 3] @ PutUint32 (StreamID f) @
      PutUint32 (of_nat (length (Payload f))) @ Payload f @ rdata r'"
    using ReadFull_Inr [OF h] header_layout [of hdr] p(1) fs by simp
  then show ?thesis using ver le p(2) fs(1) by (auto simp: wireFrame_def)
qed

text \<open>A PING frame as in the wire-format document, with the reserved byte set to 7.\<close>
theorem ReadFrame_sound_witness:
  "wireFrame \<lparr>Version = 1, Command = 5, Flags = 0, StreamID = 0, Payload = [222]\<rparr> \<and>
   (\<exists>reserved. [1, 5, 0, 7, 0, 0, 0, 0, 0, 0, 0, 1, 222, 9] =
      [1, 5, 0, reserved] @ PutUint32 0 @ PutUint32 1 @ [222] @ [9 :: byte])"
proof -
  have "ReadFrame \<lparr>rdata = [1, 5, 0, 7, 0, 0, 0, 0, 0, 0, 0, 1, 222, 9], rend = EOF\<rparr> =
    (Inr \<lparr>Version = 1, Command = 5, Flags = 0, StreamID = 0, Payload = [222]\<rparr>,
     \<lparr>rdata = [9], rend = EOF\<rparr>)"
    by (simp add: ReadFrame_def ReadFull_def validateHeader_def goslice_def join4_def
          MaxPayloadSize_def)
  from ReadFrame_sound [OF this] show ?thesis by simp
qed

end
