(* ===== verification/Udp.thy ===== *)
theory Udp
  imports Frame
begin

text \<open>
  UDP datagrams inside frames: \<^verbatim>\<open>src/pkg/protocol/udp.go\<close>.  A \<^verbatim>\<open>UDP_DATA\<close> payload is a
  one-byte address length, the source address and the datagram.
\<close>

datatype udp_error = ErrInvalidUDPPayload nat nat | ErrUDPAddrTooLong nat

record UDPDatagram =
  SourceAddr :: string
  Datagram :: bytes

definition ParseUDPDataPayload :: "bytes \<Rightarrow> udp_error + UDPDatagram" where
  "ParseUDPDataPayload payload =
     (if length payload < 1 then Inl (ErrInvalidUDPPayload 0 0)
      else
        let addrLen = unat (payload ! 0) in
        if length payload < 1 + addrLen
        then Inl (ErrInvalidUDPPayload addrLen (length payload - 1))
        else Inr \<lparr>SourceAddr = string_of_bytes (goslice 1 (1 + addrLen) payload),
                  Datagram = drop (1 + addrLen) payload\<rparr>)"

definition BuildUDPDataPayload :: "string \<Rightarrow> bytes \<Rightarrow> udp_error + bytes" where
  "BuildUDPDataPayload sourceAddr data =
     (if length sourceAddr > 255 then Inl (ErrUDPAddrTooLong (length sourceAddr))
      else Inr ([of_nat (length sourceAddr)] @ bytes_of_string sourceAddr @ data))"

definition NewUDPBindFrame :: "string \<Rightarrow> Frame" where
  "NewUDPBindFrame bindAddr =
     \<lparr>Version = ProtocolVersion, Command = CmdUDPBind, Flags = 0, StreamID = 0,
      Payload = bytes_of_string bindAddr\<rparr>"

definition NewUDPUnbindFrame :: "string \<Rightarrow> Frame" where
  "NewUDPUnbindFrame bindAddr =
     \<lparr>Version = ProtocolVersion, Command = CmdUDPUnbind, Flags = 0, StreamID = 0,
      Payload = bytes_of_string bindAddr\<rparr>"

definition NewUDPDataFrame :: "u32 \<Rightarrow> string \<Rightarrow> bytes \<Rightarrow> udp_error + Frame" where
  "NewUDPDataFrame streamID sourceAddr data =
     (case BuildUDPDataPayload sourceAddr data of
        Inl err \<Rightarrow> Inl err
      | Inr payload \<Rightarrow>
          Inr \<lparr>Version = ProtocolVersion, Command = CmdUDPData, Flags = 0,
               StreamID = streamID, Payload = payload\<rparr>)"

lemma unat_addrLen: "n \<le> 255 \<Longrightarrow> unat (of_nat n :: byte) = n"
  by (simp add: unat_of_nat)

text \<open>C40. A datagram put into a UDP_DATA frame, sent over the wire and parsed by the peer
  comes back with the same source address and payload; an address over 255 bytes is the
  only thing refused (the datagram must leave room for it in a 16 MiB frame).\<close>
theorem udp_roundtrip:
  assumes "length addr \<le> 255" "length data + 256 \<le> MaxPayloadSize"
  shows "\<exists>f. NewUDPDataFrame sid addr data = Inr f \<and> wireFrame f \<and>
             decodeFrame (frameBytes f @ rest) = Inr (f, rest) \<and>
             ParseUDPDataPayload (Payload f) = Inr \<lparr>SourceAddr = addr, Datagram = data\<rparr>"
proof -
  have "wireFrame (f\<lparr>Version := ProtocolVersion,
          Payload := of_nat (length addr) # bytes_of_string addr @ data\<rparr>)" for f :: Frame
    using assms by (simp add: wireFrame_def)
  note wf = this [of "\<lparr>Version = 1, Command = CmdUDPData, Flags = 0, StreamID = sid, Payload = []\<rparr>"]
  show ?thesis
    using assms wire.dec_enc [OF wf, of rest] wf
    by (simp add: NewUDPDataFrame_def BuildUDPDataPayload_def ParseUDPDataPayload_def
          unat_addrLen goslice_def)
qed

theorem udp_roundtrip_witness:
  "\<exists>f. NewUDPDataFrame 4 ''10.0.0.1:53'' [1, 2, 3] = Inr f \<and> wireFrame f \<and>
       decodeFrame (frameBytes f @ []) = Inr (f, []) \<and>
       ParseUDPDataPayload (Payload f) =
         Inr \<lparr>SourceAddr = ''10.0.0.1:53'', Datagram = [1, 2, 3]\<rparr>"
  by (rule udp_roundtrip) (simp_all add: MaxPayloadSize_def)

lemma BuildUDPDataPayload_ParseUDPDataPayload:
  assumes "ParseUDPDataPayload p = Inr d"
  shows "BuildUDPDataPayload (SourceAddr d) (Datagram d) = Inr p"
proof -
  from assms obtain a q where p: "p = a # q" by (cases p) (auto simp: ParseUDPDataPayload_def)
  with assms have le: "unat a \<le> length q"
    and d: "d = \<lparr>SourceAddr = string_of_bytes (take (unat a) q), Datagram = drop (unat a) q\<rparr>"
    by (auto simp: ParseUDPDataPayload_def goslice_def Let_def split: if_splits)
  have "unat a \<le> 255" using unat_byte_less [of a] by simp
  with p le d show ?thesis by (simp add: BuildUDPDataPayload_def)
qed

end
