(* ===== verification/Stream_Session.thy ===== *)
theory Stream_Session
  imports Prelude
begin

text \<open>
  One multiplexed stream: \<^verbatim>\<open>src/pkg/protocol/stream.go\<close>, \<^verbatim>\<open>stream_impl.go\<close>.

  Channels are their contents: \<open>writeOut\<close> is the buffered chunks (capacity 64),
  \<open>finCh\<close> whether its one slot holds the close token, \<open>closedCh\<close> whether it has been
  closed.  A \<^verbatim>\<open>sync.Once\<close> is a flag.  \<^verbatim>\<open>Close\<close> and \<^verbatim>\<open>Reset\<close> release the mutex
  before they run their callback, so each is a locked part and a notify part, and the
  whole method is their composition; the notify parts return whether the callback
  registered by the multiplexer is invoked.
\<close>

datatype StreamState =
    StateIdle | StateOpen | StateHalfClosedLocal | StateHalfClosedRemote | StateClosed | StateReset

record StreamConfig =
  InitialWindowSize :: int
  MaxFrameSize :: int

record StreamSession =
  ss_id :: u32
  ss_config :: StreamConfig
  state :: StreamState
  readBuf :: bytes
  recvWindow :: int
  writeOut :: "bytes list"
  finCh :: bool
  closedCh :: bool
  openPayload :: bytes
  onLocalClose :: bool
  localCloseOnce :: bool
  onReset :: bool
  resetOnce :: bool

datatype stream_error = StreamEOF | ErrStreamClosed u32

abbreviation (input) writeOutCap :: nat where "writeOutCap \<equiv> 64"

definition NewStreamSession :: "u32 \<Rightarrow> StreamConfig \<Rightarrow> StreamSession" where
  "NewStreamSession i cfg =
     \<lparr>ss_id = i, ss_config = cfg, state = StateIdle, readBuf = [],
      recvWindow = InitialWindowSize cfg, writeOut = [], finCh = False, closedCh = False,
      openPayload = [], onLocalClose = False, localCloseOnce = False, onReset = False,
      resetOnce = False\<rparr>"

definition SetOpenPayload :: "StreamSession \<Rightarrow> bytes \<Rightarrow> StreamSession" where
  "SetOpenPayload s p = s\<lparr>openPayload := p\<rparr>"

definition SetOnLocalClose :: "StreamSession \<Rightarrow> StreamSession" where
  "SetOnLocalClose s = s\<lparr>onLocalClose := True\<rparr>"

definition SetOnReset :: "StreamSession \<Rightarrow> StreamSession" where
  "SetOnReset s = s\<lparr>onReset := True\<rparr>"

definition signalClosed :: "StreamSession \<Rightarrow> StreamSession" where
  "signalClosed s = s\<lparr>closedCh := True\<rparr>"

definition isReadClosed :: "StreamSession \<Rightarrow> bool" where
  "isReadClosed s =
     (state s = StateHalfClosedRemote \<or> state s = StateClosed \<or> state s = StateReset)"

definition isWriteClosed :: "StreamSession \<Rightarrow> bool" where
  "isWriteClosed s =
     (state s = StateHalfClosedLocal \<or> state s = StateClosed \<or> state s = StateReset)"

definition Stream_Read ::
  "StreamSession \<Rightarrow> nat \<Rightarrow> (stream_error + bytes) attempt \<times> StreamSession" where
  "Stream_Read s n =
     (if readBuf s = [] then
        (if isReadClosed s then (Returned (Inl StreamEOF), s) else (Blocked, s))
      else (Returned (Inr (take n (readBuf s))), s\<lparr>readBuf := drop n (readBuf s)\<rparr>))"

text \<open>The \<^verbatim>\<open>select\<close> at the end of \<^verbatim>\<open>Write\<close>; when both cases are ready Go picks either,
  here by \<open>pick\<close>.\<close>
definition Write_select ::
  "StreamSession \<Rightarrow> bytes \<Rightarrow> bool \<Rightarrow> (stream_error + nat) attempt \<times> StreamSession" where
  "Write_select s p pick =
     (let canSend = length (writeOut s) < writeOutCap in
      if canSend \<and> (closedCh s \<longrightarrow> pick)
      then (Returned (Inr (length p)), s\<lparr>writeOut := writeOut s @ [p]\<rparr>)
      else if closedCh s then (Returned (Inl (ErrStreamClosed (ss_id s))), s)
      else (Blocked, s))"

definition Stream_Write ::
  "StreamSession \<Rightarrow> bytes \<Rightarrow> bool \<Rightarrow> (stream_error + nat) attempt \<times> StreamSession" where
  "Stream_Write s p pick =
     (if isWriteClosed s then (Returned (Inl (ErrStreamClosed (ss_id s))), s)
      else Write_select s p pick)"

definition Close_locked :: "StreamSession \<Rightarrow> StreamSession \<times> bool" where
  "Close_locked s =
     (case state s of
        StateOpen \<Rightarrow> (s\<lparr>state := StateHalfClosedLocal\<rparr>, True)
      | StateHalfClosedRemote \<Rightarrow> (signalClosed (s\<lparr>state := StateClosed\<rparr>), True)
      | StateHalfClosedLocal \<Rightarrow> (s, False)
      | StateClosed \<Rightarrow> (s, False)
      | _ \<Rightarrow> (s, False))"

definition Close_notify :: "StreamSession \<Rightarrow> StreamSession \<times> bool" where
  "Close_notify s =
     (if localCloseOnce s then (s, False)
      else (s\<lparr>localCloseOnce := True, finCh := True\<rparr>, onLocalClose s))"

definition Stream_Close :: "StreamSession \<Rightarrow> StreamSession \<times> bool" where
  "Stream_Close s =
     (let (s1, shouldNotify) = Close_locked s
      in if shouldNotify then Close_notify s1 else (s1, False))"

definition Stream_Open :: "StreamSession \<Rightarrow> StreamSession" where
  "Stream_Open s = s\<lparr>state := StateOpen\<rparr>"

definition Deliver :: "StreamSession \<Rightarrow> bytes \<Rightarrow> StreamSession" where
  "Deliver s p = s\<lparr>readBuf := readBuf s @ p, recvWindow := recvWindow s - int (length p)\<rparr>"

definition RemoteClose :: "StreamSession \<Rightarrow> StreamSession" where
  "RemoteClose s =
     (case state s of
        StateOpen \<Rightarrow> s\<lparr>state := StateHalfClosedRemote\<rparr>
      | StateHalfClosedLocal \<Rightarrow> signalClosed (s\<lparr>state := StateClosed\<rparr>)
      | _ \<Rightarrow> s)"

definition Reset_locked :: "StreamSession \<Rightarrow> StreamSession \<times> bool" where
  "Reset_locked s =
     (if state s = StateReset \<or> state s = StateClosed then (s, False)
      else (signalClosed (s\<lparr>state := StateReset, readBuf := []\<rparr>), True))"

definition Reset_notify :: "StreamSession \<Rightarrow> StreamSession \<times> bool" where
  "Reset_notify s =
     (if resetOnce s then (s, False) else (s\<lparr>resetOnce := True\<rparr>, onReset s))"

definition Stream_Reset :: "StreamSession \<Rightarrow> StreamSession \<times> bool" where
  "Stream_Reset s =
     (let (s1, go) = Reset_locked s in if go then Reset_notify s1 else (s1, False))"

text \<open>The receives of the drain goroutine from \<^verbatim>\<open>writeOut\<close> and \<^verbatim>\<open>finCh\<close>.\<close>
definition recv_writeOut :: "StreamSession \<Rightarrow> (bytes \<times> StreamSession) option" where
  "recv_writeOut s =
     (case writeOut s of [] \<Rightarrow> None | p # ps \<Rightarrow> Some (p, s\<lparr>writeOut := ps\<rparr>))"

definition recv_finCh :: "StreamSession \<Rightarrow> StreamSession option" where
  "recv_finCh s = (if finCh s then Some (s\<lparr>finCh := False\<rparr>) else None)"

section \<open>Runs of one stream\<close>

datatype stream_op =
    OpDeliver bytes | OpRead nat | OpWrite bytes bool | OpClose | OpRemoteClose | OpReset
  | OpDrain | OpFin

datatype stream_event =
    EvRead bytes | EvEOF | EvAccepted bytes | EvRefused | EvDrained bytes | EvFin | EvNone

definition stream_exec :: "StreamSession \<Rightarrow> stream_op \<Rightarrow> StreamSession \<times> stream_event" where
  "stream_exec s op =
     (case op of
        OpDeliver p \<Rightarrow> (Deliver s p, EvNone)
      | OpRead n \<Rightarrow>
          (case Stream_Read s n of
             (Returned (Inr p), s') \<Rightarrow> (s', EvRead p)
           | (Returned (Inl _), s') \<Rightarrow> (s', EvEOF)
           | (Blocked, s') \<Rightarrow> (s', EvNone))
      | OpWrite p pick \<Rightarrow>
          (case Stream_Write s p pick of
             (Returned (Inr _), s') \<Rightarrow> (s', EvAccepted p)
           | (Returned (Inl _), s') \<Rightarrow> (s', EvRefused)
           | (Blocked, s') \<Rightarrow> (s', EvNone))
      | OpClose \<Rightarrow> (fst (Stream_Close s), EvNone)
      | OpRemoteClose \<Rightarrow> (RemoteClose s, EvNone)
      | OpReset \<Rightarrow> (fst (Stream_Reset s), EvNone)
      | OpDrain \<Rightarrow>
          (case recv_writeOut s of Some (p, s') \<Rightarrow> (s', EvDrained p) | None \<Rightarrow> (s, EvNone))
      | OpFin \<Rightarrow> (case recv_finCh s of Some s' \<Rightarrow> (s', EvFin) | None \<Rightarrow> (s, EvNone)))"

fun stream_run :: "StreamSession \<Rightarrow> stream_op list \<Rightarrow> StreamSession \<times> stream_event list" where
  "stream_run s [] = (s, [])"
| "stream_run s (op # ops) =
     (let (s1, e) = stream_exec s op; (s2, es) = stream_run s1 ops in (s2, e # es))"

text \<open>A stream as the multiplexer hands it out: created, callbacks set, opened.\<close>
definition openedStream :: "u32 \<Rightarrow> StreamConfig \<Rightarrow> StreamSession" where
  "openedStream i cfg = Stream_Open (SetOnReset (SetOnLocalClose (NewStreamSession i cfg)))"

section \<open>Automation\<close>

lemmas stream_defs = Deliver_def Stream_Read_def Stream_Write_def Write_select_def
  Stream_Close_def Close_locked_def Close_notify_def RemoteClose_def Stream_Reset_def
  Reset_locked_def Reset_notify_def signalClosed_def recv_writeOut_def recv_finCh_def
  isReadClosed_def isWriteClosed_def Let_def

lemma openedStream_fields [simp]:
  "ss_id (openedStream i cfg) = i"
  "state (openedStream i cfg) = StateOpen"
  "readBuf (openedStream i cfg) = []"
  "writeOut (openedStream i cfg) = []"
  "finCh (openedStream i cfg) = False"
  "closedCh (openedStream i cfg) = False"
  "localCloseOnce (openedStream i cfg) = False"
  "resetOnce (openedStream i cfg) = False"
  "onLocalClose (openedStream i cfg) = True"
  "onReset (openedStream i cfg) = True"
  "openPayload (openedStream i cfg) = []"
  by (simp_all add: openedStream_def Stream_Open_def SetOnReset_def SetOnLocalClose_def
        NewStreamSession_def)

lemma stream_run_append:
  "stream_run s (ops @ ops') =
     (let (s1, es) = stream_run s ops; (s2, es') = stream_run s1 ops' in (s2, es @ es'))"
  by (induction ops arbitrary: s) (simp_all add: Let_def case_prod_beta)

text \<open>The state each step leaves, by the operation it runs.\<close>
lemma stream_exec_state:
  "fst (stream_exec s (OpDeliver p)) = Deliver s p"
  "fst (stream_exec s (OpRead n)) = snd (Stream_Read s n)"
  "fst (stream_exec s (OpWrite p pick)) = snd (Stream_Write s p pick)"
  "fst (stream_exec s OpClose) = fst (Stream_Close s)"
  "fst (stream_exec s OpRemoteClose) = RemoteClose s"
  "fst (stream_exec s OpReset) = fst (Stream_Reset s)"
  "fst (stream_exec s OpDrain) = s\<lparr>writeOut := tl (writeOut s)\<rparr>"
  "fst (stream_exec s OpFin) = s\<lparr>finCh := False\<rparr>"
  by (simp_all add: stream_exec_def recv_writeOut_def recv_finCh_def
        split: prod.splits attempt.splits sum.splits list.splits)

lemma recv_Some:
  "recv_writeOut s = Some (p, s') \<Longrightarrow> s' = s\<lparr>writeOut := tl (writeOut s)\<rparr>"
  "recv_finCh s = Some s' \<Longrightarrow> s' = s\<lparr>finCh := False\<rparr>"
  by (auto simp: recv_writeOut_def recv_finCh_def split: list.splits if_splits)

text \<open>What each method keeps of the record, and the states it can leave.\<close>
lemma method_keeps:
  "ss_id (Deliver s p) = ss_id s" "ss_id (snd (Stream_Read s n)) = ss_id s"
  "ss_id (snd (Stream_Write s p pick)) = ss_id s" "ss_id (fst (Stream_Close s)) = ss_id s"
  "ss_id (RemoteClose s) = ss_id s" "ss_id (fst (Stream_Reset s)) = ss_id s"
  "onReset (Deliver s p) = onReset s" "onReset (snd (Stream_Read s n)) = onReset s"
  "onReset (snd (Stream_Write s p pick)) = onReset s" "onReset (fst (Stream_Close s)) = onReset s"
  "onReset (RemoteClose s) = onReset s" "onReset (fst (Stream_Reset s)) = onReset s"
  "onLocalClose (Deliver s p) = onLocalClose s" "onLocalClose (snd (Stream_Read s n)) = onLocalClose s"
  "onLocalClose (snd (Stream_Write s p pick)) = onLocalClose s"
  "onLocalClose (fst (Stream_Close s)) = onLocalClose s"
  "onLocalClose (RemoteClose s) = onLocalClose s" "onLocalClose (fst (Stream_Reset s)) = onLocalClose s"
  "resetOnce (Deliver s p) = resetOnce s" "resetOnce (snd (Stream_Read s n)) = resetOnce s"
  "resetOnce (snd (Stream_Write s p pick)) = resetOnce s" "resetOnce (fst (Stream_Close s)) = resetOnce s"
  "resetOnce (RemoteClose s) = resetOnce s"
  "state (Deliver s p) = state s" "state (snd (Stream_Read s n)) = state s"
  "state (snd (Stream_Write s p pick)) = state s"
  by (simp_all add: stream_defs split: StreamState.splits)

lemma method_states:
  "state (fst (Stream_Close s)) = (case state s of StateOpen \<Rightarrow> StateHalfClosedLocal
     | StateHalfClosedRemote \<Rightarrow> StateClosed | st \<Rightarrow> st)"
  "state (RemoteClose s) = (case state s of StateOpen \<Rightarrow> StateHalfClosedRemote
     | StateHalfClosedLocal \<Rightarrow> StateClosed | st \<Rightarrow> st)"
  "state (fst (Stream_Reset s)) = (if state s = StateClosed then StateClosed else StateReset)"
  by (auto simp: stream_defs split: StreamState.splits)

section \<open>The lifecycle\<close>

text \<open>The transitions of the lifecycle diagram, with reset from every live state.\<close>
inductive lifecycle :: "StreamState \<Rightarrow> StreamState \<Rightarrow> bool" where
  local_fin: "lifecycle StateOpen StateHalfClosedLocal"
| remote_fin: "lifecycle StateOpen StateHalfClosedRemote"
| local_fin_last: "lifecycle StateHalfClosedRemote StateClosed"
| remote_fin_last: "lifecycle StateHalfClosedLocal StateClosed"
| abort: "st \<noteq> StateClosed \<Longrightarrow> st \<noteq> StateReset \<Longrightarrow> lifecycle st StateReset"

inductive_simps lifecycle_from [simp]:
  "lifecycle StateIdle st" "lifecycle StateOpen st" "lifecycle StateHalfClosedLocal st"
  "lifecycle StateHalfClosedRemote st" "lifecycle StateClosed st" "lifecycle StateReset st"

code_pred lifecycle .

lemma lifecycle_exec:
  "lifecycle\<^sup>=\<^sup>= (state s) (state (fst (stream_exec s op)))"
  by (cases "state s"; cases op)
     (auto simp: stream_exec_def stream_defs split: attempt.splits sum.splits list.splits)

lemma lifecycle_run: "lifecycle\<^sup>*\<^sup>* (state s) (state (fst (stream_run s ops)))"
proof (induction ops arbitrary: s)
  case (Cons op ops)
  have "lifecycle\<^sup>*\<^sup>* (state s) (state (fst (stream_exec s op)))"
    using lifecycle_exec [of s op] by auto
  then show ?case
    using Cons.IH [of "fst (stream_exec s op)"] by (simp add: Let_def case_prod_beta)
qed simp

lemma lifecycle_terminal:
  "lifecycle\<^sup>*\<^sup>* st st' \<Longrightarrow> st = StateClosed \<or> st = StateReset \<Longrightarrow> st' = st"
  by (induction rule: rtranclp_induct) auto

text \<open>C32. A stream only ever moves along the documented lifecycle, under any interleaving of
  reads, writes, deliveries, closes, resets and the drain goroutine; once Closed or Reset
  it stays so, and writes to it are refused.\<close>
theorem stream_lifecycle:
  assumes "stream_run (openedStream i cfg) ops = (s, es)"
  shows "lifecycle\<^sup>*\<^sup>* StateOpen (state s) \<and>
         (state s = StateClosed \<or> state s = StateReset \<longrightarrow>
            state (fst (stream_run s later)) = state s \<and>
            snd (stream_exec (fst (stream_run s later)) (OpWrite p pick)) = EvRefused)"
proof -
  have "state (fst (stream_run s later)) = state s"
    if "state s = StateClosed \<or> state s = StateReset"
    using lifecycle_terminal [OF lifecycle_run that] .
  then show ?thesis
    using lifecycle_run [of "openedStream i cfg" ops] assms
    by (auto simp: stream_exec_def stream_defs)
qed

theorem stream_lifecycle_witness:
  "\<exists>s es. stream_run (openedStream 1 \<lparr>InitialWindowSize = 4, MaxFrameSize = 0\<rparr>)
            [OpClose, OpRemoteClose] = (s, es) \<and> state s = StateClosed \<and>
          state (fst (stream_run s [OpReset])) = StateClosed \<and>
          snd (stream_exec (fst (stream_run s [OpReset])) (OpWrite [1] True)) = EvRefused"
proof -
  obtain s es where run: "stream_run (openedStream 1 \<lparr>InitialWindowSize = 4, MaxFrameSize = 0\<rparr>)
            [OpClose, OpRemoteClose] = (s, es)" by fastforce
  then have "state s = StateClosed" by (auto simp: stream_exec_def stream_defs)
  with run stream_lifecycle [OF run, of "[OpReset]" "[1]" True] show ?thesis by auto
qed

section \<open>The invariant of a stream\<close>

definition stream_inv :: "StreamSession \<Rightarrow> bool" where
  "stream_inv s \<longleftrightarrow>
     (closedCh s \<longleftrightarrow> state s = StateClosed \<or> state s = StateReset) \<and>
     (localCloseOnce s \<longrightarrow> state s \<in> {StateHalfClosedLocal, StateClosed, StateReset}) \<and>
     (state s \<in> {StateHalfClosedLocal, StateClosed} \<longrightarrow> localCloseOnce s) \<and>
     (finCh s \<longrightarrow> localCloseOnce s) \<and>
     length (writeOut s) \<le> writeOutCap"

lemma stream_inv_opened [preserves]: "stream_inv (openedStream i cfg)"
  by (simp add: stream_inv_def)

lemma stream_inv_exec [preserves]: "stream_inv s \<Longrightarrow> stream_inv (fst (stream_exec s op))"
  by (cases "state s"; cases op)
     (auto simp: stream_inv_def stream_exec_def stream_defs
           split: attempt.splits sum.splits list.splits)

lemma stream_inv_run: "stream_inv s \<Longrightarrow> stream_inv (fst (stream_run s ops))"
  by (induction ops arbitrary: s) (simp_all add: Let_def case_prod_beta stream_inv_exec)

definition finsOf :: "stream_event list \<Rightarrow> nat" where
  "finsOf es = length (filter (\<lambda>e. e = EvFin) es)"

lemma finsOf_exec:
  "(if snd (stream_exec s op) = EvFin then 1 else 0) + of_bool (finCh (fst (stream_exec s op))) +
     of_bool (\<not> localCloseOnce (fst (stream_exec s op))) \<le>
   of_bool (finCh s) + (of_bool (\<not> localCloseOnce s) :: nat)"
  by (cases op)
     (auto simp: stream_exec_def stream_defs
           split: attempt.splits sum.splits list.splits StreamState.splits)

lemma finsOf_run:
  "finsOf (snd (stream_run s ops)) \<le> of_bool (finCh s) + of_bool (\<not> localCloseOnce s)"
proof (induction ops arbitrary: s)
  case (Cons op ops)
  show ?case
    using Cons.IH [of "fst (stream_exec s op)"] finsOf_exec [of s op]
    by (auto simp: finsOf_def Let_def case_prod_beta split: if_splits)
qed (simp add: finsOf_def)

text \<open>Whatever the schedule, the close token that makes the drain goroutine send
  STREAM_CLOSE+FIN is produced at most once per stream, and only after the local side
  has closed; the channel that wakes blocked writers is closed exactly in the states
  Closed and Reset, and at most 64 chunks are ever buffered.\<close>
theorem stream_fin_once:
  "finsOf (snd (stream_run (openedStream i cfg) ops)) \<le> 1 \<and>
   stream_inv (fst (stream_run (openedStream i cfg) ops))"
  using finsOf_run [of "openedStream i cfg" ops] stream_inv_run [OF stream_inv_opened, of i cfg ops]
  by simp

section \<open>Bytes in order\<close>

definition deliveredIn :: "stream_op list \<Rightarrow> bytes" where
  "deliveredIn ops = concat (map (\<lambda>op. case op of OpDeliver p \<Rightarrow> p | _ \<Rightarrow> []) ops)"

definition readOut :: "stream_event list \<Rightarrow> bytes" where
  "readOut es = concat (map (\<lambda>e. case e of EvRead p \<Rightarrow> p | _ \<Rightarrow> []) es)"

definition acceptedIn :: "stream_event list \<Rightarrow> bytes list" where
  "acceptedIn es = concat (map (\<lambda>e. case e of EvAccepted p \<Rightarrow> [p] | _ \<Rightarrow> []) es)"

definition drainedOut :: "stream_event list \<Rightarrow> bytes list" where
  "drainedOut es = concat (map (\<lambda>e. case e of EvDrained p \<Rightarrow> [p] | _ \<Rightarrow> []) es)"

lemmas byte_flow_defs = deliveredIn_def readOut_def acceptedIn_def drainedOut_def

lemma read_flow_exec:
  "op \<noteq> OpReset \<Longrightarrow>
   readBuf s @ deliveredIn [op] =
   readOut [snd (stream_exec s op)] @ readBuf (fst (stream_exec s op))"
  by (cases op)
     (auto simp: stream_exec_def stream_defs byte_flow_defs
           split: attempt.splits sum.splits list.splits StreamState.splits)

lemma write_flow_exec:
  "writeOut s @ acceptedIn [snd (stream_exec s op)] =
   drainedOut [snd (stream_exec s op)] @ writeOut (fst (stream_exec s op))"
  by (cases op)
     (auto simp: stream_exec_def stream_defs byte_flow_defs
           split: attempt.splits sum.splits list.splits StreamState.splits)

lemma flow_Cons:
  "deliveredIn (op # ops) = deliveredIn [op] @ deliveredIn ops"
  "readOut (e # es) = readOut [e] @ readOut es"
  "acceptedIn (e # es) = acceptedIn [e] @ acceptedIn es"
  "drainedOut (e # es) = drainedOut [e] @ drainedOut es"
  by (simp_all add: byte_flow_defs)

lemma read_flow_run:
  "OpReset \<notin> set ops \<Longrightarrow> stream_run s ops = (s', es) \<Longrightarrow>
   readBuf s @ deliveredIn ops = readOut es @ readBuf s'"
proof (induction ops arbitrary: s es)
  case (Cons op ops)
  obtain s1 e where e: "stream_exec s op = (s1, e)" by fastforce
  obtain es1 where es: "stream_run s1 ops = (s', es1)" "es = e # es1"
    using Cons.prems(2) e by (auto split: prod.splits)
  have "readBuf s @ deliveredIn (op # ops) = (readOut [e] @ readBuf s1) @ deliveredIn ops"
    using read_flow_exec [of op s] Cons.prems(1) e by (subst flow_Cons) auto
  also have "\<dots> = readOut [e] @ readOut es1 @ readBuf s'"
    using Cons.IH [OF _ es(1)] Cons.prems(1) by simp
  finally show ?case using es(2) flow_Cons(2) [of e es1] by simp
qed (simp add: byte_flow_defs)

lemma write_flow_run:
  "stream_run s ops = (s', es) \<Longrightarrow> writeOut s @ acceptedIn es = drainedOut es @ writeOut s'"
proof (induction ops arbitrary: s es)
  case (Cons op ops)
  obtain s1 e where e: "stream_exec s op = (s1, e)" by fastforce
  obtain es1 where es: "stream_run s1 ops = (s', es1)" "es = e # es1"
    using Cons.prems e by (auto split: prod.splits)
  have "writeOut s @ acceptedIn (e # es1) = (drainedOut [e] @ writeOut s1) @ acceptedIn es1"
    using write_flow_exec [of s op] e by (subst flow_Cons) simp
  also have "\<dots> = drainedOut [e] @ drainedOut es1 @ writeOut s'"
    using Cons.IH [OF es(1)] by simp
  finally show ?case using es(2) flow_Cons(4) [of e es1] by simp
qed (simp add: byte_flow_defs)

text \<open>C33. Until a stream is reset, the bytes its reader has got followed by the bytes still
  buffered are exactly the bytes delivered, in order, and the chunks handed to the drain
  goroutine followed by those still queued are exactly the chunks accepted by Write:
  nothing is lost, duplicated or reordered in either direction.\<close>
theorem stream_bytes_in_order:
  assumes "OpReset \<notin> set ops" "stream_run (openedStream i cfg) ops = (s, es)"
  shows "deliveredIn ops = readOut es @ readBuf s \<and> acceptedIn es = drainedOut es @ writeOut s"
  using read_flow_run [OF assms] write_flow_run [OF assms(2)] by simp

theorem stream_bytes_in_order_witness:
  "deliveredIn [OpDeliver [1, 2], OpRead 1, OpWrite [9] True, OpDrain, OpRead 5] =
     readOut [EvNone, EvRead [1], EvAccepted [9], EvDrained [9], EvRead [2]] @ [] \<and>
   acceptedIn [EvNone, EvRead [1], EvAccepted [9], EvDrained [9], EvRead [2]] =
     drainedOut [EvNone, EvRead [1], EvAccepted [9], EvDrained [9], EvRead [2]] @ []"
proof -
  let ?cfg = "\<lparr>InitialWindowSize = 4, MaxFrameSize = 0\<rparr>"
  let ?ops = "[OpDeliver [1, 2], OpRead 1, OpWrite [9] True, OpDrain, OpRead 5]"
  have "stream_run (openedStream 1 ?cfg) ?ops =
    ((openedStream 1 ?cfg)\<lparr>recvWindow := 2\<rparr>,
     [EvNone, EvRead [1], EvAccepted [9], EvDrained [9], EvRead [2]])"
    by (simp add: stream_exec_def stream_defs openedStream_def Stream_Open_def SetOnReset_def
          SetOnLocalClose_def NewStreamSession_def)
  from stream_bytes_in_order [OF _ this] show ?thesis by simp
qed

end
