(* ===== verification/Write_Queue.thy ===== *)
theory Write_Queue
  imports Frame
begin

text \<open>
  The outgoing frame queue: \<^verbatim>\<open>src/pkg/protocol/write_queue.go\<close>.  Two FIFO slices, one
  for control frames and one for everything else, and a closed flag; \<^verbatim>\<open>Dequeue\<close> waits on
  a condition variable, so an attempt returns or blocks.  The locale states the
  contract the multiplexer uses; the interpretation shows the code meets it.
\<close>

abbreviation (input) PriorityControl :: nat where "PriorityControl \<equiv> 0"
abbreviation (input) PriorityData :: nat where "PriorityData \<equiv> 1"

record WriteQueue =
  wq_control :: "Frame list"
  wq_data :: "Frame list"
  wq_closed :: bool

datatype dequeue_error = ErrDequeueCtx ctx_error | ErrDequeueGoAway

definition NewWriteQueue :: WriteQueue where
  "NewWriteQueue = \<lparr>wq_control = [], wq_data = [], wq_closed = False\<rparr>"

definition Enqueue :: "WriteQueue \<Rightarrow> Frame \<Rightarrow> nat \<Rightarrow> WriteQueue" where
  "Enqueue q f priority =
     (if wq_closed q then q
      else if priority = PriorityControl then q\<lparr>wq_control := wq_control q @ [f]\<rparr>
      else q\<lparr>wq_data := wq_data q @ [f]\<rparr>)"

definition Dequeue ::
  "WriteQueue \<Rightarrow> ctx_error option \<Rightarrow> (dequeue_error + Frame) attempt \<times> WriteQueue" where
  "Dequeue q ctxErr =
     (if wq_control q = [] \<and> wq_data q = [] \<and> \<not> wq_closed q then
        (case ctxErr of
           Some e \<Rightarrow> (Returned (Inl (ErrDequeueCtx e)), q)
         | None \<Rightarrow> (Blocked, q))
      else
        (case wq_control q of
           f # rest \<Rightarrow> (Returned (Inr f), q\<lparr>wq_control := rest\<rparr>)
         | [] \<Rightarrow>
             (case wq_data q of
                f # rest \<Rightarrow> (Returned (Inr f), q\<lparr>wq_data := rest\<rparr>)
              | [] \<Rightarrow>
                  (case ctxErr of
                     Some e \<Rightarrow> (Returned (Inl (ErrDequeueCtx e)), q)
                   | None \<Rightarrow> (Returned (Inl ErrDequeueGoAway), q)))))"

definition WriteQueue_Close :: "WriteQueue \<Rightarrow> WriteQueue" where
  "WriteQueue_Close q = q\<lparr>wq_closed := True\<rparr>"

section \<open>The contract of a two-class queue\<close>

datatype 'f queue_op = Put 'f bool | Take

text \<open>A schedule of producers and one consumer: the resulting queue and what was taken,
  each with whether an urgent element was waiting at that moment.\<close>
fun queue_run ::
  "('q \<Rightarrow> 'f \<Rightarrow> bool \<Rightarrow> 'q) \<Rightarrow> ('q \<Rightarrow> ('f \<times> 'q) option) \<Rightarrow> ('q \<Rightarrow> 'f list) \<Rightarrow>
   'q \<Rightarrow> 'f queue_op list \<Rightarrow> 'q \<times> (bool \<times> 'f) list" where
  "queue_run put get waiting q [] = (q, [])"
| "queue_run put get waiting q (Put f u # ops) = queue_run put get waiting (put q f u) ops"
| "queue_run put get waiting q (Take # ops) =
     (case get q of
        None \<Rightarrow> queue_run put get waiting q ops
      | Some (f, q') \<Rightarrow>
          (let (q'', out) = queue_run put get waiting q' ops
           in (q'', (waiting q \<noteq> [], f) # out)))"

definition puts :: "bool \<Rightarrow> 'f queue_op list \<Rightarrow> 'f list" where
  "puts u ops = concat (map (\<lambda>op. case op of Put f v \<Rightarrow> if v = u then [f] else [] | Take \<Rightarrow> []) ops)"

definition taken :: "bool \<Rightarrow> (bool \<times> 'f) list \<Rightarrow> 'f list" where
  "taken u out = map snd (filter (\<lambda>(v, _). v = u) out)"

lemma puts_simps [simp]:
  "puts u [] = []"
  "puts u (Put f v # ops) = (if v = u then [f] else []) @ puts u ops"
  "puts u (Take # ops) = puts u ops"
  by (simp_all add: puts_def)

lemma taken_simps [simp]:
  "taken u [] = []"
  "taken u ((v, f) # out) = (if v = u then [f] else []) @ taken u out"
  by (simp_all add: taken_def)

locale two_class_queue =
  fixes put :: "'q \<Rightarrow> 'f \<Rightarrow> bool \<Rightarrow> 'q"
    and get :: "'q \<Rightarrow> ('f \<times> 'q) option"
    and urgent :: "'q \<Rightarrow> 'f list"
    and bulk :: "'q \<Rightarrow> 'f list"
    and shut :: "'q \<Rightarrow> bool"
  assumes put_urgent: "\<not> shut q \<Longrightarrow> urgent (put q f u) = urgent q @ (if u then [f] else [])"
    and put_bulk: "\<not> shut q \<Longrightarrow> bulk (put q f u) = bulk q @ (if u then [] else [f])"
    and put_shut: "shut q \<Longrightarrow> put q f u = q"
    and shut_put: "shut (put q f u) = shut q"
    and get_none: "get q = None \<longleftrightarrow> urgent q = [] \<and> bulk q = []"
    and get_some: "get q = Some (f, q') \<Longrightarrow>
      urgent q @ bulk q = f # urgent q' @ bulk q' \<and>
      (if urgent q \<noteq> [] then bulk q' = bulk q else urgent q' = []) \<and> shut q' = shut q"
begin

lemma get_cases:
  assumes "get q = Some (f, q')"
  shows "if urgent q \<noteq> [] then urgent q = f # urgent q' \<and> bulk q' = bulk q
         else bulk q = f # bulk q' \<and> urgent q' = []"
  using get_some [OF assms] by (cases "urgent q") (auto split: if_splits)

text \<open>Each class is a FIFO: what was waiting and put is what was taken and still waits.\<close>
lemma run_fifo:
  "\<not> shut q \<Longrightarrow> queue_run put get urgent q ops = (q', out) \<Longrightarrow>
   urgent q @ puts True ops = taken True out @ urgent q' \<and>
   bulk q @ puts False ops = taken False out @ bulk q'"
proof (induction ops arbitrary: q q' out)
  case (Cons op ops)
  show ?case
  proof (cases op)
    case (Put f u)
    then show ?thesis
      using Cons.IH [of "put q f u" q' out] Cons.prems
      by (simp add: put_urgent put_bulk shut_put split: if_splits)
  next
    case Take
    show ?thesis
    proof (cases "get q")
      case None
      then show ?thesis using Take Cons.IH Cons.prems by simp
    next
      case (Some p)
      obtain f q1 where p: "p = (f, q1)" by fastforce
      obtain q2 out2 where r: "queue_run put get urgent q1 ops = (q2, out2)" by fastforce
      have out: "q' = q2" "out = (urgent q \<noteq> [], f) # out2"
        using Cons.prems(2) Take Some p r by auto
      have "\<not> shut q1" using get_some [of q f q1] Some p Cons.prems(1) by simp
      from Cons.IH [OF this r] get_cases [of q f q1] Some p out show ?thesis
        using Take by (auto split: if_splits)
    qed
  qed
qed simp

end

section \<open>The write queue meets the contract\<close>

text \<open>\<^verbatim>\<open>Enqueue\<close> at control or data priority, and a \<^verbatim>\<open>Dequeue\<close> that hands out a frame.\<close>
definition wq_put :: "WriteQueue \<Rightarrow> Frame \<Rightarrow> bool \<Rightarrow> WriteQueue" where
  "wq_put q f u = Enqueue q f (if u then PriorityControl else PriorityData)"

definition wq_get :: "WriteQueue \<Rightarrow> (Frame \<times> WriteQueue) option" where
  "wq_get q = (case Dequeue q None of (Returned (Inr f), q') \<Rightarrow> Some (f, q') | _ \<Rightarrow> None)"

interpretation wq: two_class_queue wq_put wq_get wq_control wq_data wq_closed
  by unfold_locales
     (auto simp: wq_put_def wq_get_def Enqueue_def Dequeue_def split: list.splits if_splits)

lemma Enqueue_simps [simp]:
  "\<not> wq_closed q \<Longrightarrow> wq_control (Enqueue q f 0) = wq_control q @ [f]"
  "\<not> wq_closed q \<Longrightarrow> wq_data (Enqueue q f (Suc 0)) = wq_data q @ [f]"
  "wq_control (Enqueue q f (Suc 0)) = wq_control q"
  "wq_data (Enqueue q f 0) = wq_data q"
  "wq_closed (Enqueue q f p) = wq_closed q"
  "wq_closed q \<Longrightarrow> Enqueue q f p = q"
  by (simp_all add: Enqueue_def)

text \<open>C34. Over any schedule of producers and the write loop, control frames leave in the order
  they were enqueued and so do data frames, none lost or duplicated; a data frame leaves
  only when no control frame waits.\<close>
theorem write_queue_fifo:
  assumes "queue_run wq_put wq_get wq_control NewWriteQueue ops = (q, out)"
  shows "puts True ops = taken True out @ wq_control q \<and>
         puts False ops = taken False out @ wq_data q"
  using wq.run_fifo [OF _ assms] by (simp add: NewWriteQueue_def)

theorem write_queue_fifo_witness:
  "\<exists>data ping :: Frame. puts True [Put data False, Put ping True, Take] = taken True [(True, ping)] @ [] \<and>
     puts False [Put data False, Put ping True, Take] = taken False [(True, ping)] @ [data]"
proof -
  let ?data = "\<lparr>Version = 1, Command = CmdStreamData, Flags = 0, StreamID = 1, Payload = [7]\<rparr>"
  let ?ping = "\<lparr>Version = 1, Command = CmdPing, Flags = 0, StreamID = 0, Payload = []\<rparr>"
  have "queue_run wq_put wq_get wq_control NewWriteQueue [Put ?data False, Put ?ping True, Take] =
    (\<lparr>wq_control = [], wq_data = [?data], wq_closed = False\<rparr>, [(True, ?ping)])"
    by (simp add: NewWriteQueue_def wq_put_def wq_get_def Enqueue_def Dequeue_def)
  from write_queue_fifo [OF this] show ?thesis
    by (intro exI [of _ ?data] exI [of _ ?ping]) simp
qed

text \<open>A closed queue accepts nothing more, still hands out every frame it holds, and only
  then reports the shutdown; a dequeue blocks exactly on an open, empty queue.\<close>
theorem closed_queue_drains:
  "Enqueue (WriteQueue_Close q) f p = WriteQueue_Close q \<and>
   (\<exists>q'. Dequeue (WriteQueue_Close q) None =
      (case wq_control q @ wq_data q of
         [] \<Rightarrow> (Returned (Inl ErrDequeueGoAway), q')
       | f # _ \<Rightarrow> (Returned (Inr f), q')) \<and>
      wq_control q' @ wq_data q' = tl (wq_control q @ wq_data q)) \<and>
   (fst (Dequeue q c) = Blocked) = (wq_control q = [] \<and> wq_data q = [] \<and> \<not> wq_closed q \<and> c = None)"
  by (auto simp: WriteQueue_Close_def Enqueue_def Dequeue_def split: list.splits option.splits)

end
