(* ===== verification/Flow_Window.thy ===== *)
theory Flow_Window
  imports Prelude
begin

text \<open>
  Flow-control windows: \<^verbatim>\<open>src/pkg/protocol/window.go\<close>.  The window is an \<^verbatim>\<open>int32\<close>, a
  32-bit word compared as a signed number.  \<^verbatim>\<open>Consume\<close> waits in a loop; an attempt is
  one passage through its guard, which either returns or goes back to waiting, and
  the broadcasts of \<^verbatim>\<open>Update\<close>, \<^verbatim>\<open>Reset\<close> and the context make another attempt.
\<close>

abbreviation (input) maxWindowSize :: int where "maxWindowSize \<equiv> 2 ^ 31 - 1"

record FlowWindow =
  available :: i32
  initialSize :: i32

datatype window_error = ErrWindowCtx ctx_error | ErrZeroWindowIncrement | ErrWindowOverflow

definition NewFlowWindow :: "i32 \<Rightarrow> FlowWindow" where
  "NewFlowWindow initial = \<lparr>available = initial, initialSize = initial\<rparr>"

definition Consume ::
  "FlowWindow \<Rightarrow> ctx_error option \<Rightarrow> i32 \<Rightarrow> window_error option attempt \<times> FlowWindow" where
  "Consume w ctxErr n =
     (if sint (available w) < sint n then
        (case ctxErr of
           Some e \<Rightarrow> (Returned (Some (ErrWindowCtx e)), w)
         | None \<Rightarrow> (Blocked, w))
      else (Returned None, w\<lparr>available := available w - n\<rparr>))"

definition Update :: "FlowWindow \<Rightarrow> i32 \<Rightarrow> window_error option \<times> FlowWindow" where
  "Update w increment =
     (if sint increment \<le> 0 then (Some ErrZeroWindowIncrement, w)
      else
        let newSize = sint (available w) + sint increment in
        if newSize > maxWindowSize then (Some ErrWindowOverflow, w)
        else (None, w\<lparr>available := word_of_int newSize\<rparr>))"

definition Available :: "FlowWindow \<Rightarrow> i32" where
  "Available w = available w"

definition Window_Reset :: "FlowWindow \<Rightarrow> FlowWindow" where
  "Window_Reset w = w\<lparr>available := initialSize w\<rparr>"

section \<open>Behaviour of one operation\<close>

definition window_ok :: "FlowWindow \<Rightarrow> bool" where
  "window_ok w \<longleftrightarrow> 0 \<le> sint (available w) \<and> 0 \<le> sint (initialSize w)"

lemma Consume_granted:
  assumes "Consume w c n = (Returned None, w')"
  shows "sint n \<le> sint (available w)" "w' = w\<lparr>available := available w - n\<rparr>"
  using assms by (auto simp: Consume_def split: if_splits option.splits)

lemma Consume_not_granted:
  "Consume w c n = (r, w') \<Longrightarrow> r \<noteq> Returned None \<Longrightarrow> w' = w"
  by (auto simp: Consume_def split: if_splits option.splits)

lemma sint_after_Consume:
  assumes "window_ok w" "0 \<le> sint n" "Consume w c n = (Returned None, w')"
  shows "sint (available w') = sint (available w) - sint n"
  using assms Consume_granted [OF assms(3)] sint_i32_bounds [of "available w"]
  by (simp add: window_ok_def sint_i32_diff)

lemma sint_after_Update:
  assumes "window_ok w" "Update w inc = (None, w')"
  shows "sint (available w') = sint (available w) + sint inc" "0 < sint inc"
  using assms
  by (auto simp: Update_def window_ok_def Let_def sint_i32_add split: if_splits)

lemma Update_refused: "Update w inc = (Some e, w') \<Longrightarrow> w' = w"
  by (auto simp: Update_def Let_def split: if_splits)

lemma window_ok_New [preserves]: "0 \<le> sint n \<Longrightarrow> window_ok (NewFlowWindow n)"
  by (simp add: window_ok_def NewFlowWindow_def)

lemma window_ok_Consume [preserves]:
  assumes "window_ok w" "0 \<le> sint n" "Consume w c n = (r, w')"
  shows "window_ok w'"
proof (cases "r = Returned None")
  case True
  with assms have "Consume w c n = (Returned None, w')" by simp
  from sint_after_Consume [OF assms(1,2) this] Consume_granted [OF this] assms(1)
  show ?thesis by (simp add: window_ok_def)
next
  case False
  with assms Consume_not_granted [OF assms(3)] show ?thesis by simp
qed

lemma window_ok_Update [preserves]: "window_ok w \<Longrightarrow> Update w inc = (r, w') \<Longrightarrow> window_ok w'"
  by (auto simp: Update_def window_ok_def Let_def sint_i32_add split: if_splits)

section \<open>Conservation over any schedule\<close>

datatype window_op = TryConsume "ctx_error option" i32 | DoUpdate i32

text \<open>A schedule of attempts and updates by any number of goroutines; the window with the
  bytes granted and the increments accepted so far.\<close>
fun window_run :: "FlowWindow \<Rightarrow> window_op list \<Rightarrow> FlowWindow \<times> int \<times> int" where
  "window_run w [] = (w, 0, 0)"
| "window_run w (TryConsume c n # ops) =
     (case Consume w c n of
        (Returned None, w') \<Rightarrow> (let (w'', g, u) = window_run w' ops in (w'', g + sint n, u))
      | (_, w') \<Rightarrow> window_run w' ops)"
| "window_run w (DoUpdate inc # ops) =
     (case Update w inc of
        (None, w') \<Rightarrow> (let (w'', g, u) = window_run w' ops in (w'', g, u + sint inc))
      | (Some _, w') \<Rightarrow> window_run w' ops)"

fun natural_op :: "window_op \<Rightarrow> bool" where
  "natural_op (TryConsume c n) = (0 \<le> sint n)"
| "natural_op (DoUpdate inc) = True"

lemma window_run_balance:
  "window_ok w \<Longrightarrow> list_all natural_op ops \<Longrightarrow> window_run w ops = (w', g, u) \<Longrightarrow>
   window_ok w' \<and> sint (available w') = sint (available w) + u - g"
proof (induction ops arbitrary: w w' g u)
  case (Cons op ops)
  show ?case
  proof (cases op)
    case (TryConsume c n)
    obtain r w1 where c: "Consume w c n = (r, w1)" by fastforce
    obtain w2 g2 u2 where run: "window_run w1 ops = (w2, g2, u2)" by (metis prod_cases3)
    have n: "0 \<le> sint n" using Cons.prems(2) TryConsume by simp
    have IH: "window_ok w2 \<and> sint (available w2) = sint (available w1) + u2 - g2"
      using Cons.IH [OF window_ok_Consume [OF Cons.prems(1) n c] _ run] Cons.prems(2) by simp
    show ?thesis
    proof (cases "r = Returned None")
      case True
      then have "sint (available w1) = sint (available w) - sint n"
        using sint_after_Consume [OF Cons.prems(1) n] c by simp
      then show ?thesis using IH True Cons.prems(3) TryConsume c run by auto
    next
      case False
      then have "window_run w (op # ops) = window_run w1 ops"
        using TryConsume c by (cases r; cases "\<exists>x. r = Returned (Some x)") auto
      then show ?thesis using IH Cons.prems(3) run Consume_not_granted [OF c False] by simp
    qed
  next
    case (DoUpdate inc)
    obtain r w1 where c: "Update w inc = (r, w1)" by fastforce
    obtain w2 g2 u2 where run: "window_run w1 ops = (w2, g2, u2)" by (metis prod_cases3)
    have IH: "window_ok w2 \<and> sint (available w2) = sint (available w1) + u2 - g2"
      using Cons.IH [OF window_ok_Update [OF Cons.prems(1) c] _ run] Cons.prems(2) by simp
    show ?thesis
    proof (cases r)
      case None
      then have "sint (available w1) = sint (available w) + sint inc"
        using sint_after_Update [OF Cons.prems(1)] c by simp
      then show ?thesis using IH None Cons.prems(3) DoUpdate c run by auto
    next
      case (Some e)
      then show ?thesis using IH Cons.prems(3) DoUpdate c run Update_refused [of w inc e w1] by simp
    qed
  qed
qed simp

text \<open>C35. Over any interleaving of consumers and updates the window is the initial size plus
  the accepted increments minus the granted bytes, and never negative: the grants never
  exceed the credit and the 32-bit arithmetic never wraps.\<close>
theorem window_conservation:
  assumes "0 \<le> sint initial" "list_all natural_op ops"
    and "window_run (NewFlowWindow initial) ops = (w, granted, credited)"
  shows "sint (Available w) = sint initial + credited - granted \<and> granted \<le> sint initial + credited
         \<and> 0 \<le> sint (Available w) \<and> sint (Available w) \<le> maxWindowSize"
  using window_run_balance [OF window_ok_New [OF assms(1)] assms(2,3)]
    sint_i32_bounds(2) [of "available w"]
  by (simp add: NewFlowWindow_def window_ok_def Available_def)

theorem window_conservation_witness:
  "sint (Available \<lparr>available = 1, initialSize = 5\<rparr>) = sint (5 :: i32) + 2 - 6 \<and>
   (6 :: int) \<le> sint (5 :: i32) + 2 \<and> 0 \<le> sint (Available \<lparr>available = 1, initialSize = 5\<rparr>) \<and>
   sint (Available \<lparr>available = 1, initialSize = 5\<rparr>) \<le> maxWindowSize"
proof (rule window_conservation)
  show "list_all natural_op [TryConsume None 4, TryConsume None 2, DoUpdate 2, TryConsume None 2]"
    by simp
  show "window_run (NewFlowWindow 5) [TryConsume None 4, TryConsume None 2, DoUpdate 2, TryConsume None 2]
        = (\<lparr>available = 1, initialSize = 5\<rparr>, 6, 2)"
    by (simp add: NewFlowWindow_def Consume_def Update_def)
qed simp

text \<open>A waiting consumer is served: once the window has enough capacity the next attempt
  returns with the bytes, and a cancelled context ends the wait otherwise; an attempt
  blocks exactly when capacity is missing and the context is live.\<close>
theorem Consume_outcome:
  "(fst (Consume w c n) = Blocked) = (sint (available w) < sint n \<and> c = None) \<and>
   (fst (Consume w c n) = Returned None) = (sint n \<le> sint (available w)) \<and>
   (\<forall>e. (fst (Consume w c n) = Returned (Some e)) =
        (\<exists>x. c = Some x \<and> e = ErrWindowCtx x \<and> sint (available w) < sint n))"
  by (auto simp: Consume_def split: option.splits)

end
