(* ===== verification/Mux_Session.thy ===== *)
theory Mux_Session
  imports Stream_Session Write_Queue Flow_Window
begin

text \<open>
  The multiplexer: \<^verbatim>\<open>src/pkg/protocol/mux.go\<close>, \<^verbatim>\<open>mux_session.go\<close>.

  Streams are shared objects: the session map, the accept channel, the drain
  goroutine and the application all hold pointers to them.  The model keeps an explicit
  store \<open>heap\<close> from references to stream records, and the session map \<open>streams\<close> goes
  from identifiers to references.  The channel on which an opener waits for its
  acknowledgement belongs to one call of \<^verbatim>\<open>OpenStreamWithPayload\<close> and is named by the
  reference of the stream that call created.  Blocking calls are split where they wait:
  \<open>OpenStream_begin\<close> up to the \<^verbatim>\<open>select\<close>, \<open>OpenStream_wait\<close> for its outcome.  Each
  iteration of the drain, read and write loops is one step.  Logging is left out.
\<close>

unbundle bit_operations_syntax

section \<open>State\<close>

abbreviation (input) MaxServiceListCount :: nat where "MaxServiceListCount \<equiv> 1024"

datatype MuxRole = RoleRelay | RoleAgent

record MuxConfig =
  MaxConcurrentStreams :: int
  InitialStreamWindow :: int
  ConnectionWindow :: int
  PingInterval :: int
  PingTimeout :: int
  IdleTimeout :: int

type_synonym ref = nat

text \<open>Where the drain goroutine of a stream is: in the loop of \<^verbatim>\<open>drainStream\<close>, in
  \<^verbatim>\<open>awaitFIN\<close>, or in the loop of \<^verbatim>\<open>flushAndFIN\<close>.\<close>
datatype drain_pc = DrainLoop | DrainAwait | DrainFlush

record MuxSession =
  transport :: Writer
  transportClosed :: bool
  mux_config :: MuxConfig
  role :: MuxRole
  heap :: "(ref, StreamSession) gomap"
  nextRef :: ref
  streams :: "(u32, ref) gomap"
  nextStreamID :: u32
  freeIDs :: "u32 list"
  acceptCh :: "ref list"
  acceptBlocked :: "ref option"
  closeCh :: bool
  goingAway :: bool
  writeQueue :: WriteQueue
  pendingOpen :: "(u32, ref) gomap"
  ackCh :: "ref list"
  pingCh :: "bool option"
  connSendWindow :: FlowWindow
  serviceListCh :: "string list option"
  draining :: "(ref, drain_pc) gomap"

datatype mux_error =
    ErrGoAway | ErrMaxStreamsExceeded | ErrMuxCtx ctx_error | ErrPingTimeout
  | ErrServiceName string | ErrServiceListSize nat

definition NewMuxSession :: "Writer \<Rightarrow> MuxRole \<Rightarrow> MuxConfig \<Rightarrow> MuxSession" where
  "NewMuxSession w r cfg =
     \<lparr>transport = w, transportClosed = False, mux_config = cfg, role = r, heap = [], nextRef = 0,
      streams = [], nextStreamID = (if r = RoleAgent then 2 else 1), freeIDs = [],
      acceptCh = [], acceptBlocked = None, closeCh = False, goingAway = False,
      writeQueue = NewWriteQueue, pendingOpen = [], ackCh = [], pingCh = None,
      connSendWindow = NewFlowWindow (word_of_int (ConnectionWindow cfg)),
      serviceListCh = None, draining = []\<rparr>"

section \<open>Helpers\<close>

definition enqueue :: "MuxSession \<Rightarrow> Frame \<Rightarrow> nat \<Rightarrow> MuxSession" where
  "enqueue m f p = m\<lparr>writeQueue := Enqueue (writeQueue m) f p\<rparr>"

abbreviation (input) mkFrame :: "byte \<Rightarrow> byte \<Rightarrow> u32 \<Rightarrow> bytes \<Rightarrow> Frame" where
  "mkFrame cmd flags sid p \<equiv>
     \<lparr>Version = ProtocolVersion, Command = cmd, Flags = flags, StreamID = sid, Payload = p\<rparr>"

definition setStream :: "MuxSession \<Rightarrow> ref \<Rightarrow> StreamSession \<Rightarrow> MuxSession" where
  "setStream m r s = m\<lparr>heap := AList.update r s (heap m)\<rparr>"

definition NumStreams :: "MuxSession \<Rightarrow> int" where
  "NumStreams m = int (length (streams m))"

definition freeID :: "MuxSession \<Rightarrow> u32 \<Rightarrow> MuxSession" where
  "freeID m i =
     (if i mod 2 = nextStreamID m mod 2 then m\<lparr>freeIDs := freeIDs m @ [i]\<rparr> else m)"

definition ownsID :: "MuxSession \<Rightarrow> u32 \<Rightarrow> bool" where
  "ownsID m i = (i mod 2 = nextStreamID m mod 2)"

text \<open>\<^verbatim>\<open>delete(m.streams, id); m.freeID(id)\<close>.\<close>
definition dropID :: "MuxSession \<Rightarrow> u32 \<Rightarrow> MuxSession" where
  "dropID m i = freeID (m\<lparr>streams := AList.delete i (streams m)\<rparr>) i"

definition maybeRemoveStream :: "MuxSession \<Rightarrow> u32 \<Rightarrow> ref \<Rightarrow> MuxSession" where
  "maybeRemoveStream m i r =
     (case map_of (heap m) r of
        None \<Rightarrow> m
      | Some s \<Rightarrow>
          if state s = StateClosed \<or> state s = StateReset then dropID m i else m)"

text \<open>The callback registered by \<^verbatim>\<open>setupStreamReset\<close>.\<close>
definition onResetCallback :: "MuxSession \<Rightarrow> u32 \<Rightarrow> u32 \<Rightarrow> MuxSession" where
  "onResetCallback m i code =
     (if closeCh m then m
      else
        (case map_of (streams m) i of
           None \<Rightarrow> m
         | Some _ \<Rightarrow>
             enqueue (dropID m i) (mkFrame CmdStreamReset 0 i (PutUint32 code)) PriorityControl))"

text \<open>\<^verbatim>\<open>s.Reset(code)\<close> and \<^verbatim>\<open>s.Close()\<close> on a stream of this session, callbacks included.
  \<^verbatim>\<open>Close\<close> is also given by its two halves, between which other goroutines may run.\<close>
definition streamReset :: "MuxSession \<Rightarrow> ref \<Rightarrow> u32 \<Rightarrow> MuxSession" where
  "streamReset m r code =
     (case map_of (heap m) r of
        None \<Rightarrow> m
      | Some s \<Rightarrow>
          let (s', call) = Stream_Reset s; m1 = setStream m r s'
          in if call then onResetCallback m1 (ss_id s) code else m1)"

definition streamClose_locked :: "MuxSession \<Rightarrow> ref \<Rightarrow> MuxSession \<times> bool" where
  "streamClose_locked m r =
     (case map_of (heap m) r of
        None \<Rightarrow> (m, False)
      | Some s \<Rightarrow> let (s', n) = Close_locked s in (setStream m r s', n))"

definition streamClose_notify :: "MuxSession \<Rightarrow> ref \<Rightarrow> MuxSession" where
  "streamClose_notify m r =
     (case map_of (heap m) r of
        None \<Rightarrow> m
      | Some s \<Rightarrow>
          let (s', call) = Close_notify s; m1 = setStream m r s'
          in if call then maybeRemoveStream m1 (ss_id s) r else m1)"

definition streamClose :: "MuxSession \<Rightarrow> ref \<Rightarrow> MuxSession" where
  "streamClose m r =
     (let (m1, shouldNotify) = streamClose_locked m r
      in if shouldNotify then streamClose_notify m1 r else m1)"

definition removeStream :: "MuxSession \<Rightarrow> u32 \<Rightarrow> MuxSession" where
  "removeStream m i =
     (case map_of (streams m) i of
        None \<Rightarrow> m
      | Some r \<Rightarrow> streamReset (dropID m i) r 0)"

definition cleanupPendingOpen :: "MuxSession \<Rightarrow> u32 \<Rightarrow> MuxSession" where
  "cleanupPendingOpen m i = m\<lparr>pendingOpen := AList.delete i (pendingOpen m)\<rparr>"

text \<open>A new stream object: \<^verbatim>\<open>NewStreamSession\<close>, \<^verbatim>\<open>setupStreamClose\<close>,
  \<^verbatim>\<open>setupStreamReset\<close> and \<^verbatim>\<open>Open\<close>.\<close>
definition newStream :: "MuxSession \<Rightarrow> u32 \<Rightarrow> StreamSession" where
  "newStream m i =
     openedStream i \<lparr>InitialWindowSize = InitialStreamWindow (mux_config m), MaxFrameSize = 0\<rparr>"

text \<open>\<^verbatim>\<open>m.streams[id] = s\<close> for a new object.\<close>
definition register :: "MuxSession \<Rightarrow> u32 \<Rightarrow> StreamSession \<Rightarrow> MuxSession" where
  "register m i s =
     (setStream m (nextRef m) s)\<lparr>nextRef := nextRef m + 1, streams := AList.update i (nextRef m) (streams m)\<rparr>"

section \<open>Opening and accepting streams\<close>

definition allocID :: "MuxSession \<Rightarrow> u32 \<times> MuxSession" where
  "allocID m =
     (if freeIDs m \<noteq> [] then (last (freeIDs m), m\<lparr>freeIDs := butlast (freeIDs m)\<rparr>)
      else (nextStreamID m, m\<lparr>nextStreamID := nextStreamID m + 2\<rparr>))"

definition OpenStream_begin ::
  "MuxSession \<Rightarrow> bytes \<Rightarrow> (mux_error + u32 \<times> ref) \<times> MuxSession" where
  "OpenStream_begin m payload =
     (if goingAway m then (Inl ErrGoAway, m)
      else if int (length (streams m)) \<ge> MaxConcurrentStreams (mux_config m)
      then (Inl ErrMaxStreamsExceeded, m)
      else
        let (i, m1) = allocID m;
            r = nextRef m1;
            m2 = register m1 i (newStream m1 i);
            m3 = m2\<lparr>pendingOpen := AList.update i r (pendingOpen m2)\<rparr>;
            m4 = enqueue m3 (mkFrame CmdStreamOpen 0 i payload) PriorityData
        in (Inr (i, r), m4\<lparr>draining := AList.update r DrainLoop (draining m4)\<rparr>))"

text \<open>The three cases of the \<^verbatim>\<open>select\<close> on which the opener waits.\<close>
datatype open_wait = WaitAck | WaitCtx ctx_error | WaitClosed

definition open_wait_ready :: "MuxSession \<Rightarrow> ref \<Rightarrow> open_wait \<Rightarrow> bool" where
  "open_wait_ready m r w =
     (case w of WaitAck \<Rightarrow> r \<in> set (ackCh m) | WaitCtx _ \<Rightarrow> True | WaitClosed \<Rightarrow> closeCh m)"

definition OpenStream_wait ::
  "MuxSession \<Rightarrow> u32 \<Rightarrow> ref \<Rightarrow> open_wait \<Rightarrow> (mux_error + ref) \<times> MuxSession" where
  "OpenStream_wait m i r w =
     (case w of
        WaitAck \<Rightarrow> (Inr r, m\<lparr>ackCh := remove1 r (ackCh m)\<rparr>)
      | WaitCtx e \<Rightarrow> (Inl (ErrMuxCtx e), removeStream (cleanupPendingOpen m i) i)
      | WaitClosed \<Rightarrow> (Inl ErrGoAway, cleanupPendingOpen m i))"

datatype accept_wait = AcceptStreamReady | AcceptCtx ctx_error | AcceptClosed

definition AcceptStream ::
  "MuxSession \<Rightarrow> accept_wait \<Rightarrow> (mux_error + ref) attempt \<times> MuxSession" where
  "AcceptStream m w =
     (case w of
        AcceptStreamReady \<Rightarrow>
          (case (acceptCh m @ (case acceptBlocked m of None \<Rightarrow> [] | Some r \<Rightarrow> [r])) of
             [] \<Rightarrow> (Blocked, m)
           | r # rest \<Rightarrow> (Returned (Inr r), m\<lparr>acceptCh := rest, acceptBlocked := None\<rparr>))
      | AcceptCtx e \<Rightarrow> (Returned (Inl (ErrMuxCtx e)), m)
      | AcceptClosed \<Rightarrow> if closeCh m then (Returned (Inl ErrGoAway), m) else (Blocked, m))"

section \<open>Shutdown and keepalive\<close>

definition Mux_Close :: "MuxSession \<Rightarrow> MuxSession" where
  "Mux_Close m =
     (if closeCh m then m
      else
        let m1 = m\<lparr>closeCh := True, writeQueue := WriteQueue_Close (writeQueue m)\<rparr>;
            m2 = foldl (\<lambda>x r. streamReset x r 0) m1 (map snd (streams m1))
        in m2\<lparr>streams := [], transportClosed := True\<rparr>)"

text \<open>The \<^verbatim>\<open>closeCh\<close> case of a read loop suspended on a full accept channel.\<close>
definition acceptAbort :: "MuxSession \<Rightarrow> MuxSession" where
  "acceptAbort m = (if closeCh m then m\<lparr>acceptBlocked := None\<rparr> else m)"

definition GoAway :: "MuxSession \<Rightarrow> u32 \<Rightarrow> MuxSession" where
  "GoAway m code =
     (let m1 = m\<lparr>goingAway := True\<rparr>;
          lastID = fold (\<lambda>i acc. if i > acc then i else acc) (map fst (streams m1)) 0
      in enqueue m1 (mkFrame CmdGoAway 0 0 (PutUint32 lastID @ PutUint32 code)) PriorityControl)"

text \<open>\<^verbatim>\<open>Ping\<close> up to its \<^verbatim>\<open>select\<close>; \<open>stamp\<close> is the eight bytes of the clock reading.\<close>
definition Ping_begin :: "MuxSession \<Rightarrow> bytes \<Rightarrow> MuxSession" where
  "Ping_begin m stamp =
     enqueue (m\<lparr>pingCh := Some False\<rparr>) (mkFrame CmdPing 0 0 stamp) PriorityControl"

datatype ping_wait = PingPong | PingTimer | PingCtx ctx_error | PingClosed

definition Ping_wait :: "MuxSession \<Rightarrow> ping_wait \<Rightarrow> (mux_error + unit) attempt \<times> MuxSession" where
  "Ping_wait m w =
     (case w of
        PingPong \<Rightarrow>
          if pingCh m = Some True then (Returned (Inr ()), m\<lparr>pingCh := Some False\<rparr>) else (Blocked, m)
      | PingTimer \<Rightarrow>
          if PingTimeout (mux_config m) > 0 then (Returned (Inl ErrPingTimeout), m) else (Blocked, m)
      | PingCtx e \<Rightarrow> (Returned (Inl (ErrMuxCtx e)), m)
      | PingClosed \<Rightarrow> if closeCh m then (Returned (Inl ErrGoAway), m) else (Blocked, m))"

section \<open>The drain goroutine\<close>

definition enqueueStreamData :: "MuxSession \<Rightarrow> StreamSession \<Rightarrow> bytes \<Rightarrow> MuxSession" where
  "enqueueStreamData m s p = enqueue m (mkFrame CmdStreamData 0 (ss_id s) p) PriorityData"

text \<open>The cases a \<^verbatim>\<open>select\<close> of the goroutine may take.\<close>
datatype drain_choice = DrainData | DrainFin | DrainClosed | DrainMuxClosed

text \<open>One iteration on stream \<open>r\<close> taking case \<open>c\<close>: \<^const>\<open>None\<close> when that case is not ready.
  The \<^verbatim>\<open>default\<close> of \<^verbatim>\<open>flushAndFIN\<close> runs when no chunk is buffered.\<close>
definition drain_exit :: "MuxSession \<Rightarrow> ref \<Rightarrow> MuxSession" where
  "drain_exit m r = m\<lparr>draining := AList.delete r (draining m)\<rparr>"

definition drain_goto :: "MuxSession \<Rightarrow> ref \<Rightarrow> drain_pc \<Rightarrow> MuxSession" where
  "drain_goto m r pc = m\<lparr>draining := AList.update r pc (draining m)\<rparr>"

definition drain_data :: "MuxSession \<Rightarrow> ref \<Rightarrow> StreamSession \<Rightarrow> MuxSession option" where
  "drain_data m r s =
     (case recv_writeOut s of
        None \<Rightarrow> None
      | Some (p, s') \<Rightarrow> Some (enqueueStreamData (setStream m r s') s' p))"

definition drain_fin :: "MuxSession \<Rightarrow> ref \<Rightarrow> StreamSession \<Rightarrow> MuxSession option" where
  "drain_fin m r s =
     (case recv_finCh s of
        None \<Rightarrow> None
      | Some s' \<Rightarrow> Some (drain_goto (setStream m r s') r DrainFlush))"

definition drainStream :: "MuxSession \<Rightarrow> ref \<Rightarrow> StreamSession \<Rightarrow> drain_choice \<Rightarrow> MuxSession option" where
  "drainStream m r s c =
     (case c of
        DrainData \<Rightarrow> drain_data m r s
      | DrainFin \<Rightarrow> drain_fin m r s
      | DrainClosed \<Rightarrow>
          if \<not> closedCh s then None
          else if state s = StateReset then Some (drain_exit m r)
          else Some (drain_goto m r DrainAwait)
      | DrainMuxClosed \<Rightarrow> if closeCh m then Some (drain_exit m r) else None)"

definition awaitFIN :: "MuxSession \<Rightarrow> ref \<Rightarrow> StreamSession \<Rightarrow> drain_choice \<Rightarrow> MuxSession option" where
  "awaitFIN m r s c =
     (case c of
        DrainFin \<Rightarrow> drain_fin m r s
      | DrainMuxClosed \<Rightarrow> if closeCh m then Some (drain_exit m r) else None
      | _ \<Rightarrow> None)"

definition flushAndFIN :: "MuxSession \<Rightarrow> ref \<Rightarrow> StreamSession \<Rightarrow> MuxSession" where
  "flushAndFIN m r s =
     (case drain_data m r s of
        Some m' \<Rightarrow> m'
      | None \<Rightarrow>
          drain_exit (enqueue m (mkFrame CmdStreamClose FlagFIN (ss_id s) []) PriorityData) r)"

definition drain_step :: "MuxSession \<Rightarrow> ref \<Rightarrow> drain_choice \<Rightarrow> MuxSession option" where
  "drain_step m r c =
     (case (map_of (draining m) r, map_of (heap m) r) of
        (Some DrainLoop, Some s) \<Rightarrow> drainStream m r s c
      | (Some DrainAwait, Some s) \<Rightarrow> awaitFIN m r s c
      | (Some DrainFlush, Some s) \<Rightarrow> Some (flushAndFIN m r s)
      | _ \<Rightarrow> None)"

section \<open>Incoming frames\<close>

definition acceptPeerOpen :: "MuxSession \<Rightarrow> u32 \<Rightarrow> bool \<times> MuxSession" where
  "acceptPeerOpen m i =
     (if map_of (streams m) i \<noteq> None then (False, m)
      else if ownsID m i then
        (False, enqueue m (mkFrame CmdStreamReset 0 i (PutUint32 ResetCodeProtocolError)) PriorityControl)
      else (True, m))"

text \<open>The send to \<^verbatim>\<open>acceptCh\<close> that ends \<^verbatim>\<open>handleStreamOpen\<close>.  A full channel suspends the
  read loop until an accept takes a stream or the session closes; with both cases of the
  \<^verbatim>\<open>select\<close> ready \<open>pick\<close> decides.\<close>
definition deliverAccept :: "MuxSession \<Rightarrow> ref \<Rightarrow> bool \<Rightarrow> MuxSession" where
  "deliverAccept m r pick =
     (if int (length (acceptCh m)) < MaxConcurrentStreams (mux_config m) \<and> (closeCh m \<longrightarrow> pick)
      then m\<lparr>acceptCh := acceptCh m @ [r]\<rparr>
      else if closeCh m then m
      else m\<lparr>acceptBlocked := Some r\<rparr>)"

definition handleStreamOpen :: "MuxSession \<Rightarrow> Frame \<Rightarrow> bool \<Rightarrow> MuxSession" where
  "handleStreamOpen m f pick =
     (if Flags f AND FlagACK \<noteq> 0 then
        (case map_of (pendingOpen m) (StreamID f) of
           None \<Rightarrow> m
         | Some r \<Rightarrow>
             m\<lparr>pendingOpen := AList.delete (StreamID f) (pendingOpen m),
               ackCh := (if r \<in> set (ackCh m) then ackCh m else r # ackCh m)\<rparr>)
      else
        let (ok, m0) = acceptPeerOpen m (StreamID f) in
        if \<not> ok then m0
        else
          let s = newStream m0 (StreamID f);
              s1 = (if Payload f \<noteq> [] then SetOpenPayload s (Payload f) else s);
              r = nextRef m0;
              m1 = register m0 (StreamID f) s1;
              m2 = drain_goto m1 r DrainLoop;
              m3 = enqueue m2 (mkFrame CmdStreamOpen FlagACK (StreamID f) []) PriorityData
          in deliverAccept m3 r pick)"

text \<open>The stream a frame is addressed to.\<close>
definition lookupStream :: "MuxSession \<Rightarrow> u32 \<Rightarrow> (ref \<times> StreamSession) option" where
  "lookupStream m i =
     (case map_of (streams m) i of
        None \<Rightarrow> None
      | Some r \<Rightarrow> (case map_of (heap m) r of None \<Rightarrow> None | Some s \<Rightarrow> Some (r, s)))"

definition handleStreamClose :: "MuxSession \<Rightarrow> Frame \<Rightarrow> MuxSession" where
  "handleStreamClose m f =
     (case lookupStream m (StreamID f) of
        None \<Rightarrow> m
      | Some (r, s) \<Rightarrow> maybeRemoveStream (setStream m r (RemoteClose s)) (StreamID f) r)"

definition handleStreamData :: "MuxSession \<Rightarrow> Frame \<Rightarrow> MuxSession" where
  "handleStreamData m f =
     (case lookupStream m (StreamID f) of
        None \<Rightarrow> m
      | Some (r, s) \<Rightarrow>
          let s1 = (if Payload f \<noteq> [] then Deliver s (Payload f) else s);
              m1 = setStream m r s1
          in if Flags f AND FlagFIN \<noteq> 0
             then maybeRemoveStream (setStream m1 r (RemoteClose s1)) (StreamID f) r
             else m1)"

definition handleStreamReset :: "MuxSession \<Rightarrow> Frame \<Rightarrow> MuxSession" where
  "handleStreamReset m f =
     (case lookupStream m (StreamID f) of
        None \<Rightarrow> m
      | Some (r, s) \<Rightarrow>
          let code = (if length (Payload f) \<ge> 4 then Uint32 (take 4 (Payload f)) else 0);
              m1 = streamReset m r code
          in if map_of (streams m1) (StreamID f) \<noteq> None then dropID m1 (StreamID f) else m1)"

definition handlePing :: "MuxSession \<Rightarrow> Frame \<Rightarrow> MuxSession" where
  "handlePing m f = enqueue m (mkFrame CmdPong 0 0 (Payload f)) PriorityControl"

definition handlePong :: "MuxSession \<Rightarrow> MuxSession" where
  "handlePong m = (case pingCh m of None \<Rightarrow> m | Some _ \<Rightarrow> m\<lparr>pingCh := Some True\<rparr>)"

definition handleWindowUpdate :: "MuxSession \<Rightarrow> Frame \<Rightarrow> MuxSession" where
  "handleWindowUpdate m f =
     (if length (Payload f) < 4 then m
      else
        let increment = (Uint32 (take 4 (Payload f)) :: i32) in
        if StreamID f = 0 then
          m\<lparr>connSendWindow := snd (Update (connSendWindow m) increment)\<rparr>
        else
          (case lookupStream m (StreamID f) of
             None \<Rightarrow> m
           | Some (r, s) \<Rightarrow> setStream m r (s\<lparr>recvWindow := recvWindow s + sint increment\<rparr>)))"

definition handleGoAway :: "MuxSession \<Rightarrow> MuxSession" where
  "handleGoAway m = m\<lparr>goingAway := True\<rparr>"

definition parseServiceList :: "bytes \<Rightarrow> string list" where
  "parseServiceList p =
     (if p = [] then []
      else filter (\<lambda>s. s \<noteq> []) (take MaxServiceListCount (goSplit (CHR 0x0A) (string_of_bytes p))))"

definition handleServiceList :: "MuxSession \<Rightarrow> Frame \<Rightarrow> MuxSession" where
  "handleServiceList m f =
     (case serviceListCh m of
        None \<Rightarrow> m\<lparr>serviceListCh := Some (parseServiceList (Payload f))\<rparr>
      | Some _ \<Rightarrow> m)"

definition SendServiceList :: "MuxSession \<Rightarrow> string list \<Rightarrow> (mux_error + unit) \<times> MuxSession" where
  "SendServiceList m services =
     (case find (\<lambda>name. CHR 0x0A \<in> set name \<or> CHR 0x0D \<in> set name) services of
        Some name \<Rightarrow> (Inl (ErrServiceName name), m)
      | None \<Rightarrow>
          let payload = bytes_of_string (goJoin (CHR 0x0A) services) in
          if length payload > MaxPayloadSize then (Inl (ErrServiceListSize (length payload)), m)
          else (Inr (), enqueue m (mkFrame CmdServiceList 0 0 payload) PriorityControl))"

definition handleFrame :: "MuxSession \<Rightarrow> Frame \<Rightarrow> bool \<Rightarrow> MuxSession" where
  "handleFrame m f pick =
     (if Command f = CmdStreamOpen then handleStreamOpen m f pick
      else if Command f = CmdStreamData then handleStreamData m f
      else if Command f = CmdStreamClose then handleStreamClose m f
      else if Command f = CmdStreamReset then handleStreamReset m f
      else if Command f = CmdPing then handlePing m f
      else if Command f = CmdPong then handlePong m
      else if Command f = CmdWindowUpdate then handleWindowUpdate m f
      else if Command f = CmdGoAway then handleGoAway m
      else if Command f = CmdServiceList then handleServiceList m f
      else m)"

section \<open>The two loops\<close>

text \<open>One iteration of \<^verbatim>\<open>readLoop\<close>: the session, the rest of the input, and whether the loop
  goes on.\<close>
definition readLoop_step :: "MuxSession \<Rightarrow> Reader \<Rightarrow> bool \<Rightarrow> MuxSession \<times> Reader \<times> bool" where
  "readLoop_step m rd pick =
     (case ReadFrame rd of
        (Inl e, rd') \<Rightarrow> (if closeCh m then m else Mux_Close m, rd', False)
      | (Inr f, rd') \<Rightarrow> (handleFrame m f pick, rd', True))"

definition writeLoop_step :: "MuxSession \<Rightarrow> MuxSession \<times> bool" where
  "writeLoop_step m =
     (if closeCh m then (m, False)
      else
        (case Dequeue (writeQueue m) None of
           (Blocked, q) \<Rightarrow> (m, True)
         | (Returned (Inl _), q) \<Rightarrow> (m, False)
         | (Returned (Inr f), q) \<Rightarrow>
             (case WriteFrame (transport m) (Some f) of
                (None, w) \<Rightarrow> (m\<lparr>writeQueue := q, transport := w\<rparr>, True)
              | (Some _, w) \<Rightarrow>
                  (Mux_Close (m\<lparr>writeQueue := q, transport := w\<rparr>), False))))"

section \<open>The invariant\<close>

definition live :: "StreamSession \<Rightarrow> bool" where
  "live s \<longleftrightarrow> state s \<noteq> StateClosed \<and> state s \<noteq> StateReset"

text \<open>What holds of every stream object the session created.\<close>
definition object_ok :: "StreamSession \<Rightarrow> bool" where
  "object_ok s \<longleftrightarrow> stream_inv s \<and> onLocalClose s \<and> onReset s \<and> (live s \<longrightarrow> \<not> resetOnce s)"

text \<open>The session map and the store: every entry names a stored stream with that
  identifier, live unless the session is closed, and every live stream is in the map.\<close>
definition table_inv :: "(u32 \<rightharpoonup> ref) \<Rightarrow> (ref \<rightharpoonup> StreamSession) \<Rightarrow> ref \<Rightarrow> bool \<Rightarrow> bool" where
  "table_inv M H n closed \<longleftrightarrow>
     (\<forall>i r. M i = Some r \<longrightarrow> (\<exists>s. H r = Some s \<and> ss_id s = i \<and> (closed \<or> live s))) \<and>
     (\<forall>r s. H r = Some s \<longrightarrow> r < n \<and> object_ok s \<and> (live s \<longrightarrow> M (ss_id s) = Some r))"

text \<open>Identifiers: the free list holds distinct inactive identifiers of the local parity,
  and every local identifier in use or free was handed out earlier.\<close>
definition ids_inv :: "(u32 \<rightharpoonup> ref) \<Rightarrow> u32 \<Rightarrow> u32 list \<Rightarrow> MuxRole \<Rightarrow> bool" where
  "ids_inv M nxt free rl \<longleftrightarrow>
     even nxt = (rl = RoleAgent) \<and> 0 < nxt \<and> distinct free \<and>
     (\<forall>i \<in> set free. even i = even nxt \<and> M i = None \<and> 0 < i \<and> i < nxt) \<and>
     (\<forall>i. M i \<noteq> None \<and> even i = even nxt \<longrightarrow> 0 < i \<and> i < nxt)"

definition mux_inv :: "MuxSession \<Rightarrow> bool" where
  "mux_inv m \<longleftrightarrow>
     distinct (map fst (streams m)) \<and>
     table_inv (map_of (streams m)) (map_of (heap m)) (nextRef m) (closeCh m) \<and>
     ids_inv (map_of (streams m)) (nextStreamID m) (freeIDs m) (role m)"

lemma mod2_u32: "(i :: u32) mod 2 = j mod 2 \<longleftrightarrow> even i = even j"
  by (simp add: mod2_eq_if)

lemma freeID_parity: "freeID m i = (if even i = even (nextStreamID m) then m\<lparr>freeIDs := freeIDs m @ [i]\<rparr> else m)"
  by (simp add: freeID_def mod2_u32)

lemma mux_inv_other [simp]:
  "mux_inv (m\<lparr>writeQueue := q\<rparr>) = mux_inv m"
  "mux_inv (m\<lparr>transport := w\<rparr>) = mux_inv m"
  "mux_inv (m\<lparr>pendingOpen := p\<rparr>) = mux_inv m"
  "mux_inv (m\<lparr>ackCh := a\<rparr>) = mux_inv m"
  "mux_inv (m\<lparr>pingCh := pc\<rparr>) = mux_inv m"
  "mux_inv (m\<lparr>connSendWindow := cw\<rparr>) = mux_inv m"
  "mux_inv (m\<lparr>serviceListCh := sl\<rparr>) = mux_inv m"
  "mux_inv (m\<lparr>draining := d\<rparr>) = mux_inv m"
  "mux_inv (m\<lparr>acceptCh := ac\<rparr>) = mux_inv m"
  "mux_inv (m\<lparr>acceptBlocked := ab\<rparr>) = mux_inv m"
  "mux_inv (m\<lparr>goingAway := g\<rparr>) = mux_inv m"
  by (simp_all add: mux_inv_def)

lemma mux_inv_enqueue [simp]: "mux_inv (enqueue m f p) = mux_inv m"
  by (simp add: enqueue_def)

lemma mux_inv_New [preserves]: "mux_inv (NewMuxSession w r cfg)"
  by (cases r) (simp_all add: NewMuxSession_def mux_inv_def table_inv_def ids_inv_def)

lemma setStream_fields [simp]:
  "heap (setStream m r s) = AList.update r s (heap m)"
  "streams (setStream m r s) = streams m"
  "nextRef (setStream m r s) = nextRef m"
  "freeIDs (setStream m r s) = freeIDs m"
  "nextStreamID (setStream m r s) = nextStreamID m"
  "closeCh (setStream m r s) = closeCh m"
  "role (setStream m r s) = role m"
  "goingAway (setStream m r s) = goingAway m"
  "writeQueue (setStream m r s) = writeQueue m"
  "mux_config (setStream m r s) = mux_config m"
  "draining (setStream m r s) = draining m"
  "ackCh (setStream m r s) = ackCh m"
  "acceptCh (setStream m r s) = acceptCh m"
  "acceptBlocked (setStream m r s) = acceptBlocked m"
  "pingCh (setStream m r s) = pingCh m"
  "connSendWindow (setStream m r s) = connSendWindow m"
  "serviceListCh (setStream m r s) = serviceListCh m"
  "transport (setStream m r s) = transport m"
  "transportClosed (setStream m r s) = transportClosed m"
  "pendingOpen (setStream m r s) = pendingOpen m"
  by (simp_all add: setStream_def)

lemma dropID_fields [simp]:
  "heap (dropID m i) = heap m"
  "streams (dropID m i) = AList.delete i (streams m)"
  "nextRef (dropID m i) = nextRef m"
  "nextStreamID (dropID m i) = nextStreamID m"
  "closeCh (dropID m i) = closeCh m"
  "role (dropID m i) = role m"
  "goingAway (dropID m i) = goingAway m"
  "writeQueue (dropID m i) = writeQueue m"
  "mux_config (dropID m i) = mux_config m"
  "draining (dropID m i) = draining m"
  "ackCh (dropID m i) = ackCh m"
  "acceptCh (dropID m i) = acceptCh m"
  "acceptBlocked (dropID m i) = acceptBlocked m"
  "pingCh (dropID m i) = pingCh m"
  "connSendWindow (dropID m i) = connSendWindow m"
  "serviceListCh (dropID m i) = serviceListCh m"
  "transport (dropID m i) = transport m"
  "transportClosed (dropID m i) = transportClosed m"
  "pendingOpen (dropID m i) = pendingOpen m"
  by (simp_all add: dropID_def freeID_def)

lemma enqueue_fields [simp]:
  "heap (enqueue m f p) = heap m"
  "streams (enqueue m f p) = streams m"
  "nextRef (enqueue m f p) = nextRef m"
  "freeIDs (enqueue m f p) = freeIDs m"
  "nextStreamID (enqueue m f p) = nextStreamID m"
  "closeCh (enqueue m f p) = closeCh m"
  "role (enqueue m f p) = role m"
  "goingAway (enqueue m f p) = goingAway m"
  "writeQueue (enqueue m f p) = Enqueue (writeQueue m) f p"
  "mux_config (enqueue m f p) = mux_config m"
  "draining (enqueue m f p) = draining m"
  "ackCh (enqueue m f p) = ackCh m"
  "acceptCh (enqueue m f p) = acceptCh m"
  "acceptBlocked (enqueue m f p) = acceptBlocked m"
  "pingCh (enqueue m f p) = pingCh m"
  "connSendWindow (enqueue m f p) = connSendWindow m"
  "serviceListCh (enqueue m f p) = serviceListCh m"
  "transport (enqueue m f p) = transport m"
  "transportClosed (enqueue m f p) = transportClosed m"
  "pendingOpen (enqueue m f p) = pendingOpen m"
  by (simp_all add: enqueue_def)

lemmas alist_maps = update_conv' delete_conv' distinct_update distinct_delete

lemma table_invI:
  assumes "\<And>i r. M i = Some r \<Longrightarrow> \<exists>s. H r = Some s \<and> ss_id s = i \<and> (c \<or> live s)"
    "\<And>r s. H r = Some s \<Longrightarrow> r < n \<and> object_ok s \<and> (live s \<longrightarrow> M (ss_id s) = Some r)"
  shows "table_inv M H n c"
  using assms by (simp add: table_inv_def)

lemma table_inv_entry:
  assumes "table_inv M H n c" "M i = Some r"
  obtains s where "H r = Some s" "ss_id s = i" "c \<or> live s"
  using assms by (auto simp: table_inv_def)

lemma table_inv_object:
  assumes "table_inv M H n c" "H r = Some s"
  shows "r < n" "object_ok s" "live s \<Longrightarrow> M (ss_id s) = Some r"
  using assms by (auto simp: table_inv_def)

text \<open>A stream object may change as long as it stays as live as it was, and any way at all
  once the session is closed.\<close>
lemma table_inv_update:
  assumes t: "table_inv M H n c" and s: "H r = Some s" "ss_id s' = ss_id s" "object_ok s'"
    and l: "live s' = live s \<or> c \<and> \<not> live s'"
  shows "table_inv M (H(r \<mapsto> s')) n c"
proof (rule table_invI)
  fix i q assume "M i = Some q"
  from table_inv_entry [OF t this] s l
  show "\<exists>s. (H(r \<mapsto> s')) q = Some s \<and> ss_id s = i \<and> (c \<or> live s)" by (metis fun_upd_apply option.inject)
next
  fix q z assume "(H(r \<mapsto> s')) q = Some z"
  with table_inv_object [OF t] s l show "q < n \<and> object_ok z \<and> (live z \<longrightarrow> M (ss_id z) = Some q)"
    by (auto split: if_splits)
qed

text \<open>A registered stream may die when its map entry goes with it.\<close>
lemma table_inv_kill:
  assumes t: "table_inv M H n c" and s: "M i = Some r" "H r = Some s" "ss_id s' = ss_id s"
    "object_ok s'" "\<not> live s'"
  shows "table_inv (M(i := None)) (H(r \<mapsto> s')) n c"
proof (rule table_invI)
  fix j q assume j: "(M(i := None)) j = Some q"
  then have "M j = Some q" "j \<noteq> i" by (auto split: if_splits)
  with table_inv_entry [OF t] s
  show "\<exists>s. (H(r \<mapsto> s')) q = Some s \<and> ss_id s = j \<and> (c \<or> live s)"
    by (metis fun_upd_apply option.inject)
next
  fix q z assume z: "(H(r \<mapsto> s')) q = Some z"
  show "q < n \<and> object_ok z \<and> (live z \<longrightarrow> (M(i := None)) (ss_id z) = Some q)"
  proof (cases "q = r")
    case True
    then show ?thesis using z s table_inv_object [OF t s(2)] by simp
  next
    case False
    then have "H q = Some z" using z by simp
    from table_inv_object [OF t this] False s(1) show ?thesis by auto
  qed
qed

lemma table_inv_add:
  assumes t: "table_inv M H n c" and s: "M i = None" "ss_id s = i" "object_ok s" "live s"
  shows "table_inv (M(i \<mapsto> n)) (H(n \<mapsto> s)) (n + 1) c"
proof (rule table_invI)
  fix j q assume "(M(i \<mapsto> n)) j = Some q"
  with table_inv_entry [OF t] table_inv_object(1) [OF t] s
  show "\<exists>z. (H(n \<mapsto> s)) q = Some z \<and> ss_id z = j \<and> (c \<or> live z)"
    by (metis fun_upd_apply option.inject less_irrefl)
next
  fix q z assume z: "(H(n \<mapsto> s)) q = Some z"
  show "q < n + 1 \<and> object_ok z \<and> (live z \<longrightarrow> (M(i \<mapsto> n)) (ss_id z) = Some q)"
  proof (cases "q = n")
    case True
    then show ?thesis using z s by simp
  next
    case False
    then have "H q = Some z" using z by simp
    from table_inv_object [OF t this] s(1) show ?thesis by (auto intro: less_SucI)
  qed
qed

lemma ids_inv_drop:
  "ids_inv M nxt free rl \<Longrightarrow> M i \<noteq> None \<Longrightarrow>
   ids_inv (M(i := None)) nxt (if even i = even nxt then free @ [i] else free) rl"
  unfolding ids_inv_def by (auto split: if_splits)

lemma ids_inv_peer:
  "ids_inv M nxt free rl \<Longrightarrow> even i \<noteq> even nxt \<Longrightarrow> ids_inv (M(i \<mapsto> r)) nxt free rl"
  unfolding ids_inv_def by auto

lemma mux_inv_setStream:
  assumes "mux_inv m" "map_of (heap m) r = Some s" "ss_id s' = ss_id s" "object_ok s'"
    "live s' = live s \<or> closeCh m \<and> \<not> live s'"
  shows "mux_inv (setStream m r s')"
  using assms table_inv_update by (simp add: mux_inv_def alist_maps)

lemma mux_inv_kill:
  assumes "mux_inv m" "map_of (streams m) i = Some r" "map_of (heap m) r = Some s"
    "ss_id s' = ss_id s" "object_ok s'" "\<not> live s'"
  shows "mux_inv (dropID (setStream m r s') i)"
  using assms table_inv_kill [of "map_of (streams m)" "map_of (heap m)" "nextRef m" "closeCh m" i r s s']
    ids_inv_drop [of "map_of (streams m)" "nextStreamID m" "freeIDs m" "role m" i]
  by (auto simp: mux_inv_def alist_maps dropID_def freeID_parity simp del: map_of_eq_Some_iff)

section \<open>Every operation preserves the invariant\<close>

text \<open>What the operations of a stream do to one object of the store.\<close>
definition benign :: "StreamSession \<Rightarrow> StreamSession \<Rightarrow> bool" where
  "benign s s' \<longleftrightarrow> ss_id s' = ss_id s \<and> object_ok s' \<and> live s' = live s"

named_theorems object_simps

lemma object_ok_exec: "object_ok s \<Longrightarrow> object_ok (fst (stream_exec s op))"
  using stream_inv_exec [of s op]
  by (cases op)
     (auto simp: object_ok_def live_def stream_exec_state method_keeps method_states
           split: StreamState.splits)

lemma benign_exec:
  "object_ok s \<Longrightarrow> op \<notin> {OpClose, OpRemoteClose, OpReset} \<Longrightarrow> benign s (fst (stream_exec s op))"
  using object_ok_exec [of s op]
  by (cases op) (auto simp: benign_def live_def stream_exec_state method_keeps)

lemma benign_ops [object_simps]:
  assumes "object_ok s"
  shows "benign s s"
    "benign s (Deliver s p)"
    "benign s (snd (Stream_Read s n))"
    "benign s (snd (Stream_Write s p pick))"
    "recv_writeOut s = Some (p', s1) \<Longrightarrow> benign s s1"
    "recv_finCh s = Some s2 \<Longrightarrow> benign s s2"
  using assms benign_exec [OF assms, of "OpDeliver p"] benign_exec [OF assms, of "OpRead n"]
    benign_exec [OF assms, of "OpWrite p pick"] benign_exec [OF assms, of OpDrain]
    benign_exec [OF assms, of OpFin]
  by (auto simp: stream_exec_state benign_def [of s s] dest!: recv_Some)

lemma benign_recvWindow [object_simps]: "object_ok s \<Longrightarrow> benign s (s\<lparr>recvWindow := w\<rparr>)"
  by (simp add: benign_def object_ok_def live_def stream_inv_def)

lemma RemoteClose_object [object_simps]:
  "object_ok s \<Longrightarrow> object_ok (RemoteClose s)"
  "live (RemoteClose s) \<Longrightarrow> live s"
  using object_ok_exec [of s OpRemoteClose]
  by (auto simp: stream_exec_state live_def method_states)

lemma Stream_Reset_object [object_simps]:
  "object_ok s \<Longrightarrow> object_ok (fst (Stream_Reset s))"
  "\<not> live (fst (Stream_Reset s))"
  "object_ok s \<Longrightarrow> snd (Stream_Reset s) = live s"
  "\<not> live s \<Longrightarrow> Stream_Reset s = (s, False)"
  using object_ok_exec [of s OpReset]
  by (auto simp: stream_exec_state object_ok_def live_def method_states)
     (auto simp: Stream_Reset_def Reset_locked_def Reset_notify_def signalClosed_def)

lemma Stream_Close_object [object_simps]:
  "object_ok s \<Longrightarrow> object_ok (fst (Stream_Close s))"
  "\<not> live s \<Longrightarrow> Stream_Close s = (s, False)"
  using object_ok_exec [of s OpClose]
  by (auto simp: stream_exec_state live_def Stream_Close_def Close_locked_def)

lemma Stream_Close_calls [object_simps]:
  assumes "object_ok s" "\<not> live (fst (Stream_Close s))" "live s"
  shows "snd (Stream_Close s)"
proof -
  have "state s = StateHalfClosedRemote"
    using assms by (auto simp: live_def method_states split: StreamState.splits)
  moreover from this have "\<not> localCloseOnce s" "onLocalClose s"
    using assms(1) by (auto simp: object_ok_def stream_inv_def)
  ultimately show ?thesis
    by (simp add: Stream_Close_def Close_locked_def Close_notify_def signalClosed_def)
qed

lemma live_state: "live s \<longleftrightarrow> \<not> (state s = StateClosed \<or> state s = StateReset)"
  by (auto simp: live_def)

lemma mux_inv_object: "mux_inv m \<Longrightarrow> map_of (heap m) r = Some s \<Longrightarrow> object_ok s"
  using table_inv_object(2) by (auto simp: mux_inv_def simp del: map_of_eq_Some_iff)

lemma mux_inv_live:
  "mux_inv m \<Longrightarrow> map_of (heap m) r = Some s \<Longrightarrow> live s \<Longrightarrow> map_of (streams m) (ss_id s) = Some r"
  using table_inv_object(3) by (auto simp: mux_inv_def simp del: map_of_eq_Some_iff)

lemma mux_inv_entry:
  assumes "mux_inv m" "map_of (streams m) i = Some r"
  obtains s where "map_of (heap m) r = Some s" "ss_id s = i" "closeCh m \<or> live s" "object_ok s"
proof -
  have t: "table_inv (map_of (streams m)) (map_of (heap m)) (nextRef m) (closeCh m)"
    using assms(1) by (simp add: mux_inv_def)
  from table_inv_entry [OF t assms(2)] table_inv_object(2) [OF t] that show thesis by metis
qed

lemma mux_inv_benign:
  "mux_inv m \<Longrightarrow> map_of (heap m) r = Some s \<Longrightarrow> benign s s' \<Longrightarrow> mux_inv (setStream m r s')"
  by (rule mux_inv_setStream) (auto simp: benign_def)

lemma setStream_setStream [simp]: "setStream (setStream m r s) r s' = setStream m r s'"
  by (simp add: setStream_def)

lemma setStream_dropID: "setStream (dropID m i) r s = dropID (setStream m r s) i"
  by (simp add: setStream_def dropID_def freeID_def)

lemma lookupStream_Some:
  "lookupStream m i = Some (r, s) \<longleftrightarrow> map_of (streams m) i = Some r \<and> map_of (heap m) r = Some s"
  by (auto simp: lookupStream_def split: option.splits)

text \<open>\<^verbatim>\<open>Close\<close> on a stream of the session: whole method, callback included.\<close>
lemma streamClose_eq:
  "streamClose m r =
     (case map_of (heap m) r of
        None \<Rightarrow> m
      | Some s \<Rightarrow>
          let (s', call) = Stream_Close s; m1 = setStream m r s'
          in if call then maybeRemoveStream m1 (ss_id s) r else m1)"
proof (cases "map_of (heap m) r")
  case (Some s)
  obtain s1 n where c: "Close_locked s = (s1, n)" by fastforce
  have "ss_id s1 = ss_id s"
    using c by (auto simp: Close_locked_def signalClosed_def split: StreamState.splits)
  then show ?thesis
    using Some c
    by (auto simp: streamClose_def streamClose_locked_def streamClose_notify_def Stream_Close_def
          alist_maps Let_def split: prod.splits)
qed (simp add: streamClose_def streamClose_locked_def)

lemma maybeRemoveStream_after:
  "maybeRemoveStream (setStream m r s) i r =
     (if live s then setStream m r s else dropID (setStream m r s) i)"
  by (auto simp: maybeRemoveStream_def alist_maps live_def)

lemma mux_inv_maybeRemove:
  assumes "mux_inv m" "map_of (streams m) i = Some r" "map_of (heap m) r = Some s"
    "ss_id s' = ss_id s" "object_ok s'" "live s' \<longrightarrow> live s"
  shows "mux_inv (maybeRemoveStream (setStream m r s') i r)"
  using assms mux_inv_kill [OF assms(1-5)] mux_inv_setStream [OF assms(1,3,4,5)]
  by (auto simp: maybeRemoveStream_after)

lemma mux_inv_streamReset [preserves]:
  assumes "mux_inv m" shows "mux_inv (streamReset m r code)"
proof (cases "map_of (heap m) r")
  case (Some s)
  note ok = mux_inv_object [OF assms Some]
  obtain s' c where r: "Stream_Reset s = (s', c)" by fastforce
  have s': "object_ok s'" "ss_id s' = ss_id s" "\<not> live s'" "c = live s" "\<not> live s \<Longrightarrow> s' = s"
    using Stream_Reset_object [of s] method_keeps(6) [of s] ok r by auto
  show ?thesis
  proof (cases "live s \<and> \<not> closeCh m")
    case True
    then have "map_of (streams m) (ss_id s) = Some r" using mux_inv_live [OF assms Some] by simp
    with mux_inv_kill [OF assms this Some] True s' r Some show ?thesis
      by (simp add: streamReset_def onResetCallback_def)
  next
    case False
    with mux_inv_setStream [OF assms Some] s' r Some show ?thesis
      by (auto simp: streamReset_def onResetCallback_def)
  qed
qed (use assms in \<open>simp add: streamReset_def\<close>)

lemma mux_inv_streamClose [preserves]:
  assumes "mux_inv m" shows "mux_inv (streamClose m r)"
proof (cases "map_of (heap m) r")
  case (Some s)
  note ok = mux_inv_object [OF assms Some]
  obtain s' c where r: "Stream_Close s = (s', c)" by fastforce
  have s': "object_ok s'" "ss_id s' = ss_id s" "\<not> live s \<Longrightarrow> s' = s \<and> \<not> c"
    "\<not> live s' \<Longrightarrow> live s \<Longrightarrow> c"
    using Stream_Close_object [of s] Stream_Close_calls [of s] method_keeps(4) [of s] ok r by auto
  show ?thesis
  proof (cases "live s")
    case True
    note e = mux_inv_live [OF assms Some this]
    show ?thesis
    proof (cases c)
      case True
      with mux_inv_maybeRemove [OF assms e Some s'(2,1)] \<open>live s\<close> r Some show ?thesis
        by (simp add: streamClose_eq)
    next
      case False
      then have "live s'" using s'(4) True by blast
      with mux_inv_setStream [OF assms Some s'(2,1)] False True r Some show ?thesis
        by (simp add: streamClose_eq)
    qed
  next
    case False
    with mux_inv_setStream [OF assms Some] s' r Some show ?thesis by (simp add: streamClose_eq)
  qed
qed (use assms in \<open>simp add: streamClose_eq\<close>)

lemma mux_inv_removeStream [preserves]:
  assumes "mux_inv m" shows "mux_inv (removeStream m i)"
proof (cases "map_of (streams m) i")
  case (Some r)
  obtain s where s: "map_of (heap m) r = Some s" "ss_id s = i"
    using mux_inv_entry [OF assms Some] by blast
  obtain s' c where r: "Stream_Reset s = (s', c)" by fastforce
  have s': "object_ok s'" "ss_id s' = ss_id s" "\<not> live s'"
    using Stream_Reset_object [of s] method_keeps(6) [of s] mux_inv_object [OF assms s(1)] r by auto
  have "removeStream m i = dropID (setStream m r s') i"
    using Some s r
    by (simp add: removeStream_def streamReset_def onResetCallback_def alist_maps setStream_dropID Let_def)
  then show ?thesis using mux_inv_kill [OF assms Some s(1) s'(2,1,3)] by simp
qed (use assms in \<open>simp add: removeStream_def\<close>)

lemma streamReset_closed:
  "closeCh m \<Longrightarrow> streamReset m r code =
     (case map_of (heap m) r of None \<Rightarrow> m | Some s \<Rightarrow> setStream m r (fst (Stream_Reset s)))"
  by (simp add: streamReset_def onResetCallback_def Let_def split: option.splits prod.splits)

text \<open>Bulk teardown: with the session closed, resets touch only the stream objects.\<close>
lemma resetAll_closed:
  assumes "closeCh m" "mux_inv m" "m' = foldl (\<lambda>x r. streamReset x r 0) m rs"
  shows "mux_inv m' \<and> closeCh m' \<and> m' = m\<lparr>heap := heap m'\<rparr> \<and>
    (\<forall>r s. map_of (heap m') r = Some s \<longrightarrow>
       (\<exists>s0. map_of (heap m) r = Some s0 \<and> (live s \<longrightarrow> live s0 \<and> r \<notin> set rs)))"
  using assms
proof (induction rs arbitrary: m)
  case (Cons r rs)
  let ?m = "streamReset m r 0"
  have eq: "?m = m\<lparr>heap := heap ?m\<rparr>" and cl: "closeCh ?m"
    using Cons.prems(1) by (simp_all add: streamReset_closed setStream_def split: option.splits)
  have dead: "\<exists>s0. map_of (heap m) q = Some s0 \<and> (live s \<longrightarrow> live s0 \<and> q \<noteq> r)"
    if "map_of (heap ?m) q = Some s" for q s
    using that Cons.prems(1) Stream_Reset_object(2)
    by (cases "map_of (heap m) r") (auto simp: streamReset_closed alist_maps split: if_splits)
  have ih: "mux_inv m' \<and> closeCh m' \<and> m' = ?m\<lparr>heap := heap m'\<rparr> \<and>
    (\<forall>q s. map_of (heap m') q = Some s \<longrightarrow>
       (\<exists>s0. map_of (heap ?m) q = Some s0 \<and> (live s \<longrightarrow> live s0 \<and> q \<notin> set rs)))"
    using Cons.IH [OF cl mux_inv_streamReset [OF Cons.prems(2)]] Cons.prems(3) by simp
  have "m' = m\<lparr>heap := heap m'\<rparr>" using ih eq by (metis MuxSession.update_convs(5) MuxSession.surjective)
  moreover have "\<exists>s0. map_of (heap m) q = Some s0 \<and> (live s \<longrightarrow> live s0 \<and> q \<notin> set (r # rs))"
    if "map_of (heap m') q = Some s" for q s
    using ih that dead by (metis set_ConsD)
  ultimately show ?case using ih by blast
qed simp

lemma table_inv_clear:
  assumes "table_inv M H n c" "\<And>r s. H r = Some s \<Longrightarrow> \<not> live s"
  shows "table_inv Map.empty H n True"
  using assms by (auto simp: table_inv_def)

text \<open>\<^verbatim>\<open>Close\<close> leaves no live stream and an empty session map.\<close>
lemma Mux_Close_effect:
  assumes "mux_inv m" "\<not> closeCh m"
  shows "mux_inv (Mux_Close m) \<and> closeCh (Mux_Close m) \<and> streams (Mux_Close m) = [] \<and>
    writeQueue (Mux_Close m) = WriteQueue_Close (writeQueue m) \<and> transportClosed (Mux_Close m) \<and>
    (\<forall>r s. map_of (heap (Mux_Close m)) r = Some s \<longrightarrow> \<not> live s)"
proof -
  define m1 where "m1 = m\<lparr>closeCh := True, writeQueue := WriteQueue_Close (writeQueue m)\<rparr>"
  define m2 where "m2 = foldl (\<lambda>x r. streamReset x r 0) m1 (map snd (streams m1))"
  have i1: "mux_inv m1" using assms(1) by (auto simp: mux_inv_def table_inv_def m1_def simp del: map_of_eq_Some_iff)
  have r: "mux_inv m2 \<and> closeCh m2 \<and> m2 = m1\<lparr>heap := heap m2\<rparr> \<and>
    (\<forall>r s. map_of (heap m2) r = Some s \<longrightarrow>
       (\<exists>s0. map_of (heap m1) r = Some s0 \<and> (live s \<longrightarrow> live s0 \<and> r \<notin> set (map snd (streams m1)))))"
    by (rule resetAll_closed [OF _ i1 m2_def]) (simp add: m1_def)
  have dead: "\<not> live s" if h: "map_of (heap m2) q = Some s" for q s
  proof
    assume "live s"
    then obtain s0 where s0: "map_of (heap m1) q = Some s0" "live s0" "q \<notin> set (map snd (streams m1))"
      using r h by blast
    from mux_inv_live [OF i1 s0(1,2)] s0(3) show False by (force dest: map_of_SomeD)
  qed
  have eq: "Mux_Close m = m2\<lparr>streams := [], transportClosed := True\<rparr>"
    using assms(2) by (simp add: Mux_Close_def m1_def m2_def Let_def)
  have "mux_inv (m2\<lparr>streams := [], transportClosed := True\<rparr>)"
    using r dead table_inv_clear [of "map_of (streams m2)" "map_of (heap m2)" "nextRef m2" "closeCh m2"]
    by (auto simp: mux_inv_def ids_inv_def simp del: map_of_eq_Some_iff)
  moreover have "writeQueue m2 = WriteQueue_Close (writeQueue m)"
    using r by (metis MuxSession.select_convs(14) MuxSession.surjective m1_def MuxSession.update_convs(5,14))
  ultimately show ?thesis using r dead eq by simp
qed

lemma mux_inv_Close [preserves]: "mux_inv m \<Longrightarrow> mux_inv (Mux_Close m)"
  using Mux_Close_effect [of m] by (cases "closeCh m") (auto simp: Mux_Close_def)

lemma newStream_object [object_simps]:
  "object_ok (newStream m i)" "live (newStream m i)" "ss_id (newStream m i) = i"
  "object_ok (SetOpenPayload (newStream m i) p)" "live (SetOpenPayload (newStream m i) p)"
  "ss_id (SetOpenPayload (newStream m i) p) = i"
  by (simp_all add: newStream_def object_ok_def live_def stream_inv_def SetOpenPayload_def)

lemma register_fields [simp]:
  "heap (register m i s) = AList.update (nextRef m) s (heap m)"
  "streams (register m i s) = AList.update i (nextRef m) (streams m)"
  "nextRef (register m i s) = nextRef m + 1"
  "freeIDs (register m i s) = freeIDs m"
  "nextStreamID (register m i s) = nextStreamID m"
  "closeCh (register m i s) = closeCh m"
  "role (register m i s) = role m"
  "goingAway (register m i s) = goingAway m"
  "writeQueue (register m i s) = writeQueue m"
  "mux_config (register m i s) = mux_config m"
  "draining (register m i s) = draining m"
  "ackCh (register m i s) = ackCh m"
  "acceptCh (register m i s) = acceptCh m"
  "acceptBlocked (register m i s) = acceptBlocked m"
  "pingCh (register m i s) = pingCh m"
  "connSendWindow (register m i s) = connSendWindow m"
  "serviceListCh (register m i s) = serviceListCh m"
  "transport (register m i s) = transport m"
  "transportClosed (register m i s) = transportClosed m"
  "pendingOpen (register m i s) = pendingOpen m"
  by (simp_all add: register_def)

lemma mux_inv_register:
  assumes "mux_inv m" "map_of (streams m) i = None" "ss_id s = i" "object_ok s" "live s"
    "ids_inv ((map_of (streams m))(i \<mapsto> nextRef m)) (nextStreamID m) (freeIDs m) (role m)"
  shows "mux_inv (register m i s)"
  using assms table_inv_add [of "map_of (streams m)" "map_of (heap m)" "nextRef m" "closeCh m" i s]
  by (simp add: mux_inv_def alist_maps)

lemma fresh_bounds:
  fixes n :: u32
  assumes "unat n + 2 < 2 ^ 32"
  shows "i < n \<Longrightarrow> i < n + 2" "n < n + 2" "unat (n + 2) = unat n + 2"
proof -
  show u: "unat (n + 2) = unat n + 2"
    using assms unat_add_lem [of n "2 :: u32"] by simp
  show "i < n \<Longrightarrow> i < n + 2" "n < n + 2" by (simp_all add: word_less_nat_alt u)
qed

text \<open>Allocation hands out an inactive identifier of the local parity, and the books stay
  right when it is then registered.\<close>
lemma allocID_fresh:
  assumes inv: "mux_inv m" and room: "unat (nextStreamID m) + 2 < 2 ^ 32"
    and a: "allocID m = (i, m1)"
  shows "map_of (streams m) i = None" "even i = even (nextStreamID m)" "0 < i"
    "ids_inv ((map_of (streams m))(i \<mapsto> r)) (nextStreamID m1) (freeIDs m1) (role m1)"
    "m1 = m\<lparr>freeIDs := freeIDs m1, nextStreamID := nextStreamID m1\<rparr>"
    "unat (nextStreamID m1) \<le> unat (nextStreamID m) + 2"
proof -
  have ids: "ids_inv (map_of (streams m)) (nextStreamID m) (freeIDs m) (role m)"
    using inv by (simp add: mux_inv_def)
  note fresh = fresh_bounds [OF room]
  have "map_of (streams m) i = None \<and> even i = even (nextStreamID m) \<and> 0 < i \<and>
    ids_inv ((map_of (streams m))(i \<mapsto> r)) (nextStreamID m1) (freeIDs m1) (role m1)"
  proof (cases "freeIDs m" rule: rev_cases)
    case Nil
    then have "i = nextStreamID m" "freeIDs m1 = []" "role m1 = role m"
      "nextStreamID m1 = nextStreamID m + 2"
      using a by (auto simp: allocID_def)
    moreover have "map_of (streams m) (nextStreamID m) = None"
      using ids unfolding ids_inv_def by (metis less_irrefl)
    moreover have "0 < nextStreamID m + 2" using fresh(2) word_gt_0_no less_trans ids
      unfolding ids_inv_def by blast
    ultimately show ?thesis using ids fresh unfolding ids_inv_def by (auto split: if_splits)
  next
    case (snoc xs x)
    then have "i = x" "freeIDs m1 = xs" "role m1 = role m" "nextStreamID m1 = nextStreamID m"
      using a by (auto simp: allocID_def)
    then show ?thesis using ids snoc unfolding ids_inv_def by (auto split: if_splits)
  qed
  then show "map_of (streams m) i = None" "even i = even (nextStreamID m)" "0 < i"
    "ids_inv ((map_of (streams m))(i \<mapsto> r)) (nextStreamID m1) (freeIDs m1) (role m1)" by blast+
  show "m1 = m\<lparr>freeIDs := freeIDs m1, nextStreamID := nextStreamID m1\<rparr>"
    using a by (auto simp: allocID_def split: if_splits)
  show "unat (nextStreamID m1) \<le> unat (nextStreamID m) + 2"
    using a fresh(3) by (auto simp: allocID_def split: if_splits)
qed

lemma mux_inv_OpenStream [preserves]:
  assumes "mux_inv m" "unat (nextStreamID m) + 2 < 2 ^ 32"
  shows "mux_inv (snd (OpenStream_begin m p))"
proof -
  obtain i m1 where a: "allocID m = (i, m1)" by fastforce
  note f = allocID_fresh [OF assms a]
  have eq: "streams m1 = streams m" "heap m1 = heap m" "nextRef m1 = nextRef m" "closeCh m1 = closeCh m"
    "role m1 = role m"
    using a by (auto simp: allocID_def split: if_splits)
  have "mux_inv (register m1 i (newStream m1 i))"
    using assms(1) f(1,4) eq newStream_object [of m1 i]
      table_inv_add [of "map_of (streams m)" "map_of (heap m)" "nextRef m" "closeCh m" i]
    by (simp add: mux_inv_def alist_maps)
  then show ?thesis using assms(1) by (simp add: OpenStream_begin_def a Let_def)
qed

lemma ids_peer: "ownsID m i = (even i = even (nextStreamID m))"
  by (simp add: ownsID_def mod2_u32)

lemma mux_inv_deliverAccept [simp]: "mux_inv (deliverAccept m r pick) = mux_inv m"
  by (simp add: deliverAccept_def)

lemma mux_inv_handleStreamOpen [preserves]:
  assumes "mux_inv m" shows "mux_inv (handleStreamOpen m f pick)"
proof -
  have "mux_inv (register m (StreamID f) s)"
    if "map_of (streams m) (StreamID f) = None" "\<not> ownsID m (StreamID f)"
       "ss_id s = StreamID f" "object_ok s" "live s" for s
    using that assms ids_inv_peer [of "map_of (streams m)" "nextStreamID m" "freeIDs m" "role m"]
    by (intro mux_inv_register) (auto simp: mux_inv_def ids_peer)
  then show ?thesis
    using assms newStream_object
    by (auto simp: handleStreamOpen_def acceptPeerOpen_def drain_goto_def Let_def split: option.splits)
qed

lemma mux_inv_handleStreamClose [preserves]:
  assumes "mux_inv m" shows "mux_inv (handleStreamClose m f)"
  using assms mux_inv_maybeRemove [OF assms] mux_inv_object [OF assms] RemoteClose_object
    method_keeps(5)
  by (auto simp: handleStreamClose_def lookupStream_Some simp del: map_of_eq_Some_iff split: option.splits)

lemma mux_inv_handleStreamData [preserves]:
  assumes "mux_inv m" shows "mux_inv (handleStreamData m f)"
proof (cases "lookupStream m (StreamID f)")
  case (Some rs)
  obtain r s where rs: "rs = (r, s)" by fastforce
  have e: "map_of (streams m) (StreamID f) = Some r" "map_of (heap m) r = Some s"
    using Some rs by (simp_all add: lookupStream_Some)
  define s1 where "s1 = (if Payload f \<noteq> [] then Deliver s (Payload f) else s)"
  have b: "benign s s1" using benign_ops(1,2) mux_inv_object [OF assms e(2)] by (simp add: s1_def)
  have m1: "mux_inv (setStream m r s1)" by (rule mux_inv_benign [OF assms e(2) b])
  have "mux_inv (maybeRemoveStream (setStream (setStream m r s1) r (RemoteClose s1)) (StreamID f) r)"
    by (rule mux_inv_maybeRemove [OF m1, of _ _ s1])
       (use e b RemoteClose_object method_keeps(5) in \<open>auto simp: benign_def alist_maps\<close>)
  then show ?thesis using m1 Some rs by (simp add: handleStreamData_def Let_def s1_def [symmetric])
qed (use assms in \<open>simp add: handleStreamData_def\<close>)

lemma mux_inv_dropDead:
  assumes "mux_inv m" "map_of (streams m) i = Some r" "map_of (heap m) r = Some s" "\<not> live s"
  shows "mux_inv (dropID m i)"
proof -
  have "setStream m r s = m\<lparr>heap := AList.update r s (heap m)\<rparr>" by (simp add: setStream_def)
  have "mux_inv (dropID (setStream m r s) i)"
    using mux_inv_kill [OF assms(1-3), of s] assms mux_inv_object [OF assms(1,3)] by simp
  moreover have "map_of (AList.update r s (heap m)) = map_of (heap m)"
    using assms(3) by (auto simp: update_conv')
  ultimately show ?thesis by (simp add: mux_inv_def dropID_def freeID_parity split: if_splits)
qed

lemma streamReset_dead:
  "map_of (heap m) r = Some s \<Longrightarrow>
   map_of (heap (streamReset m r code)) r = Some (fst (Stream_Reset s)) "
  by (auto simp: streamReset_def onResetCallback_def Let_def alist_maps split: prod.splits option.splits)

lemma mux_inv_handleStreamReset [preserves]:
  assumes "mux_inv m" shows "mux_inv (handleStreamReset m f)"
proof (cases "lookupStream m (StreamID f)")
  case (Some rs)
  obtain r s where rs: "rs = (r, s)" by fastforce
  have e: "map_of (streams m) (StreamID f) = Some r" "map_of (heap m) r = Some s"
    using Some rs by (simp_all add: lookupStream_Some)
  have "mux_inv (dropID (streamReset m r c) (StreamID f))"
    if "map_of (streams (streamReset m r c)) (StreamID f) \<noteq> None" for c
  proof (rule mux_inv_dropDead [OF mux_inv_streamReset [OF assms]])
    show "map_of (streams (streamReset m r c)) (StreamID f) = Some r"
      using that e by (auto simp: streamReset_def onResetCallback_def Let_def alist_maps
          split: prod.splits option.splits if_splits)
    show "map_of (heap (streamReset m r c)) r = Some (fst (Stream_Reset s))"
      by (rule streamReset_dead [OF e(2)])
    show "\<not> live (fst (Stream_Reset s))" by (rule Stream_Reset_object(2))
  qed
  then show ?thesis
    using Some rs mux_inv_streamReset [OF assms] by (simp add: handleStreamReset_def Let_def)
qed (use assms in \<open>simp add: handleStreamReset_def\<close>)

lemma mux_inv_handleWindowUpdate [preserves]:
  assumes "mux_inv m" shows "mux_inv (handleWindowUpdate m f)"
  using assms mux_inv_benign [OF assms] benign_recvWindow mux_inv_object [OF assms]
  by (auto simp: handleWindowUpdate_def Let_def lookupStream_Some split: option.splits)

text \<open>No frame a peer sends, well-formed or not, can break the session's bookkeeping.\<close>
lemma mux_inv_handleFrame [preserves]: "mux_inv m \<Longrightarrow> mux_inv (handleFrame m f pick)"
  by (simp add: handleFrame_def preserves handlePing_def handlePong_def handleGoAway_def
        handleServiceList_def split: option.splits)

end
