(* ===== verification/Mux_Runs.thy ===== *)
theory Mux_Runs
  imports Mux_Session
begin

text \<open>
  Runs of one multiplexer session.  An action is one step of one of its goroutines or of
  an application goroutine that calls it: the loops, the drain goroutines, the methods of
  the session and of its streams, in any order.  A run is a list of actions; an action
  whose guard does not hold leaves the session as it is.  The theorems hold over every
  run, so over every interleaving and every sequence of frames a peer can send.
\<close>

unbundle bit_operations_syntax

section \<open>Actions\<close>

datatype mux_action =
    ActOpen bytes | ActOpenWait u32 ref open_wait | ActAccept accept_wait | ActAcceptAbort
  | ActClose | ActGoAway u32 | ActPing bytes | ActPingWait ping_wait
  | ActSendServices "string list" | ActRecvServices
  | ActFrame Frame bool | ActReadError | ActWriteLoop | ActDrain ref drain_choice
  | ActRead ref nat | ActWrite ref bytes bool | ActStreamClose ref | ActStreamReset ref u32

definition onStream :: "MuxSession \<Rightarrow> ref \<Rightarrow> (StreamSession \<Rightarrow> StreamSession) \<Rightarrow> MuxSession" where
  "onStream m r g = (case map_of (heap m) r of None \<Rightarrow> m | Some s \<Rightarrow> setStream m r (g s))"

definition mux_exec :: "MuxSession \<Rightarrow> mux_action \<Rightarrow> MuxSession" where
  "mux_exec m a =
     (case a of
        ActOpen p \<Rightarrow> snd (OpenStream_begin m p)
      | ActOpenWait i r w \<Rightarrow> if open_wait_ready m r w then snd (OpenStream_wait m i r w) else m
      | ActAccept w \<Rightarrow> snd (AcceptStream m w)
      | ActAcceptAbort \<Rightarrow> acceptAbort m
      | ActClose \<Rightarrow> Mux_Close m
      | ActGoAway c \<Rightarrow> GoAway m c
      | ActPing stamp \<Rightarrow> Ping_begin m stamp
      | ActPingWait w \<Rightarrow> snd (Ping_wait m w)
      | ActSendServices ns \<Rightarrow> snd (SendServiceList m ns)
      | ActRecvServices \<Rightarrow> m\<lparr>serviceListCh := None\<rparr>
      | ActFrame f pick \<Rightarrow> if acceptBlocked m = None then handleFrame m f pick else m
      | ActReadError \<Rightarrow> if closeCh m then m else Mux_Close m
      | ActWriteLoop \<Rightarrow> fst (writeLoop_step m)
      | ActDrain r c \<Rightarrow> (case drain_step m r c of None \<Rightarrow> m | Some m' \<Rightarrow> m')
      | ActRead r n \<Rightarrow> onStream m r (\<lambda>s. snd (Stream_Read s n))
      | ActWrite r p pick \<Rightarrow> onStream m r (\<lambda>s. snd (Stream_Write s p pick))
      | ActStreamClose r \<Rightarrow> streamClose m r
      | ActStreamReset r c \<Rightarrow> streamReset m r c)"

definition mux_run :: "MuxSession \<Rightarrow> mux_action list \<Rightarrow> MuxSession" where
  "mux_run m acts = foldl mux_exec m acts"

lemma mux_run_simps [simp]:
  "mux_run m [] = m"
  "mux_run m (a # as) = mux_run (mux_exec m a) as"
  "mux_run m (as @ [a]) = mux_exec (mux_run m as) a"
  by (simp_all add: mux_run_def)

section \<open>The invariant over runs\<close>

lemma mux_inv_onStream:
  assumes "mux_inv m" "\<And>s. object_ok s \<Longrightarrow> benign s (g s)"
  shows "mux_inv (onStream m r g)"
  using assms mux_inv_benign [OF assms(1)] mux_inv_object [OF assms(1)]
  by (auto simp: onStream_def split: option.splits)

lemma mux_inv_drain_data:
  assumes "mux_inv m" "map_of (heap m) r = Some s" "drain_data m r s = Some m'"
  shows "mux_inv m'"
  using assms(3) mux_inv_benign [OF assms(1,2)] benign_ops(5) mux_inv_object [OF assms(1,2)]
  by (auto simp: drain_data_def enqueueStreamData_def split: option.splits prod.splits)

lemma mux_inv_drain_fin:
  assumes "mux_inv m" "map_of (heap m) r = Some s" "drain_fin m r s = Some m'"
  shows "mux_inv m'"
  using assms(3) mux_inv_benign [OF assms(1,2)] benign_ops(6) mux_inv_object [OF assms(1,2)]
  by (auto simp: drain_fin_def drain_goto_def split: option.splits)

lemma mux_inv_drain_step [preserves]:
  assumes "mux_inv m" "drain_step m r c = Some m'"
  shows "mux_inv m'"
  using assms mux_inv_drain_data [OF assms(1)] mux_inv_drain_fin [OF assms(1)]
  by (auto simp: drain_step_def drainStream_def awaitFIN_def flushAndFIN_def drain_exit_def
        drain_goto_def split: option.splits drain_pc.splits drain_choice.splits if_splits)

lemma mux_inv_writeLoop [preserves]:
  assumes "mux_inv m" shows "mux_inv (fst (writeLoop_step m))"
  using assms mux_inv_Close
  by (auto simp: writeLoop_step_def split: prod.splits attempt.splits sum.splits option.splits)

lemma mux_inv_exec:
  assumes "mux_inv m" "unat (nextStreamID m) + 2 < 2 ^ 32"
  shows "mux_inv (mux_exec m a)"
proof (cases a)
  case (ActOpenWait i r w)
  then show ?thesis using assms
    by (auto simp: mux_exec_def OpenStream_wait_def cleanupPendingOpen_def preserves split: open_wait.splits)
next
  case (ActAccept w)
  then show ?thesis using assms
    by (auto simp: mux_exec_def AcceptStream_def split: accept_wait.splits list.splits option.splits)
next
  case (ActPingWait w)
  then show ?thesis using assms by (auto simp: mux_exec_def Ping_wait_def split: ping_wait.splits)
next
  case (ActSendServices ns)
  then show ?thesis using assms
    by (auto simp: mux_exec_def SendServiceList_def Let_def split: option.splits)
next
  case (ActDrain r c)
  then show ?thesis using assms mux_inv_drain_step
    by (auto simp: mux_exec_def split: option.splits)
next
  case (ActRead r n)
  then show ?thesis using assms benign_ops mux_inv_onStream by (simp add: mux_exec_def)
next
  case (ActWrite r p pick)
  then show ?thesis using assms benign_ops mux_inv_onStream by (simp add: mux_exec_def)
qed (use assms in \<open>simp_all add: mux_exec_def preserves acceptAbort_def GoAway_def Let_def Ping_begin_def\<close>)

section \<open>What actions keep\<close>

text \<open>Session fields: role, configuration and identifier counter are fixed, the shutdown
  flags only ever rise.\<close>
definition steady :: "MuxSession \<Rightarrow> MuxSession \<Rightarrow> bool" where
  "steady m m' \<longleftrightarrow> role m' = role m \<and> mux_config m' = mux_config m \<and>
     nextStreamID m' = nextStreamID m \<and> (goingAway m \<longrightarrow> goingAway m') \<and>
     (closeCh m \<longrightarrow> closeCh m') \<and> (wq_closed (writeQueue m) \<longrightarrow> wq_closed (writeQueue m'))"

text \<open>One stream object: the identifier and the chunks waiting for the drain goroutine stay,
  the state moves along the lifecycle.\<close>
definition quiet :: "StreamSession \<Rightarrow> StreamSession \<Rightarrow> bool" where
  "quiet s s' \<longleftrightarrow> ss_id s' = ss_id s \<and> writeOut s' = writeOut s \<and> lifecycle\<^sup>*\<^sup>* (state s) (state s')"

text \<open>Object \<open>r\<close>: if it exists it changes quietly and its drain goroutine does not move; if it
  comes into existence it has nothing queued and its drain goroutine has just started.\<close>
definition tame :: "ref \<Rightarrow> MuxSession \<Rightarrow> MuxSession \<Rightarrow> bool" where
  "tame r m m' \<longleftrightarrow>
     (case map_of (heap m) r of
        Some s \<Rightarrow>
          (\<exists>s'. map_of (heap m') r = Some s' \<and> quiet s s' \<and> map_of (draining m') r = map_of (draining m) r)
      | None \<Rightarrow>
          map_of (heap m') r = None \<or>
          (\<exists>s'. map_of (heap m') r = Some s' \<and> writeOut s' = [] \<and> map_of (draining m') r = Some DrainLoop))"

named_theorems steadies and tames

lemma steady_refl [simp, steadies]: "steady m m"
  by (simp add: steady_def)

lemma steady_trans: "steady m1 m2 \<Longrightarrow> steady m2 m3 \<Longrightarrow> steady m1 m3"
  by (auto simp: steady_def)

lemma quiet_refl [simp]: "quiet s s"
  by (simp add: quiet_def)

lemma quiet_trans: "quiet s1 s2 \<Longrightarrow> quiet s2 s3 \<Longrightarrow> quiet s1 s3"
  by (auto simp: quiet_def)

lemma tame_refl [simp, tames]: "tame r m m"
  by (simp add: tame_def split: option.splits)

lemma tame_trans:
  assumes "tame r m1 m2" "tame r m2 m3" shows "tame r m1 m3"
proof (cases "map_of (heap m1) r")
  case None
  then show ?thesis using assms by (auto simp: tame_def quiet_def split: option.splits)
next
  case (Some s)
  then obtain s2 where s2: "map_of (heap m2) r = Some s2" "quiet s s2"
    "map_of (draining m2) r = map_of (draining m1) r"
    using assms(1) by (auto simp: tame_def)
  then obtain s3 where "map_of (heap m3) r = Some s3" "quiet s2 s3"
    "map_of (draining m3) r = map_of (draining m2) r"
    using assms(2) by (auto simp: tame_def)
  with s2 quiet_trans Some show ?thesis by (auto simp: tame_def)
qed

lemma tame_same:
  "map_of (heap m') r = map_of (heap m) r \<Longrightarrow> map_of (draining m') r = map_of (draining m) r \<Longrightarrow>
   tame r m m'"
  by (simp add: tame_def split: option.splits)

lemma method_writeOut:
  "writeOut (Deliver s p) = writeOut s" "writeOut (snd (Stream_Read s n)) = writeOut s"
  "writeOut (fst (Stream_Close s)) = writeOut s" "writeOut (RemoteClose s) = writeOut s"
  "writeOut (fst (Stream_Reset s)) = writeOut s"
  by (simp_all add: stream_defs split: StreamState.splits)

lemma quiet_exec:
  assumes "case op of OpWrite _ _ \<Rightarrow> False | OpDrain \<Rightarrow> False | _ \<Rightarrow> True"
  shows "quiet s (fst (stream_exec s op))"
proof -
  have "lifecycle\<^sup>*\<^sup>* (state s) (state (fst (stream_exec s op)))"
    using lifecycle_exec [of s op] by auto
  then show ?thesis
    using assms by (cases op) (simp_all add: quiet_def stream_exec_state method_keeps method_writeOut)
qed

lemma quiet_ops:
  "quiet s (Deliver s p)" "quiet s (snd (Stream_Read s n))" "quiet s (RemoteClose s)"
  "quiet s (fst (Stream_Close s))" "quiet s (fst (Stream_Reset s))" "quiet s (s\<lparr>recvWindow := w\<rparr>)"
  "quiet s (s\<lparr>finCh := False\<rparr>)"
  using quiet_exec [of "OpDeliver p" s] quiet_exec [of "OpRead n" s] quiet_exec [of OpRemoteClose s]
    quiet_exec [of OpClose s] quiet_exec [of OpReset s]
  by (simp_all add: stream_exec_state) (simp_all add: quiet_def)

lemma tame_setStream [tames]:
  "map_of (heap m) r = Some s \<Longrightarrow> quiet s s' \<Longrightarrow> tame q m (setStream m r s')"
  by (simp add: tame_def alist_maps split: option.splits)

lemma tame_fields [tames]:
  "tame q m (dropID m i)" "tame q m (enqueue m f p)"
  by (simp_all add: tame_same)

lemma steady_fields [steadies]:
  "steady m (dropID m i)" "steady m (enqueue m f p)" "steady m (setStream m r s)"
  "steady m (register m i s)"
  by (simp_all add: steady_def)

lemma steady_onResetCallback [steadies]: "steady m (onResetCallback m i c)"
  by (auto simp: onResetCallback_def steady_def split: option.splits)

lemma tame_onResetCallback [tames]: "tame q m (onResetCallback m i c)"
  by (auto simp: onResetCallback_def tame_same split: option.splits)

lemma maybeRemove_keeps [steadies, tames]:
  "steady m (maybeRemoveStream m i r)" "tame q m (maybeRemoveStream m i r)"
  by (auto simp: maybeRemoveStream_def steadies tames split: option.splits)

lemma streamReset_keeps [steadies, tames]:
  "steady m (streamReset m r c)" "tame q m (streamReset m r c)"
proof -
  have "steady m (streamReset m r c) \<and> tame q m (streamReset m r c)"
  proof (cases "map_of (heap m) r")
    case (Some s)
    obtain s' call where r: "Stream_Reset s = (s', call)" by fastforce
    have "quiet s s'" using quiet_ops(5) [of s] r by simp
    then show ?thesis
      using Some r tame_trans [OF tame_setStream [OF Some, of s' q] tame_onResetCallback]
        steady_trans [OF steady_fields(3) steady_onResetCallback]
      by (auto simp: streamReset_def Let_def steadies tames)
  qed (simp add: streamReset_def)
  then show "steady m (streamReset m r c)" "tame q m (streamReset m r c)" by blast+
qed

lemma streamClose_keeps [steadies, tames]:
  "steady m (streamClose m r)" "tame q m (streamClose m r)"
proof -
  have "steady m (streamClose m r) \<and> tame q m (streamClose m r)"
  proof (cases "map_of (heap m) r")
    case (Some s)
    obtain s' call where r: "Stream_Close s = (s', call)" by fastforce
    have "quiet s s'" using quiet_ops(4) [of s] r by simp
    then show ?thesis
      using Some r tame_trans [OF tame_setStream [OF Some, of s' q] maybeRemove_keeps(2)]
        steady_trans [OF steady_fields(3) maybeRemove_keeps(1)]
      by (auto simp: streamClose_eq Let_def steadies tames)
  qed (simp add: streamClose_eq)
  then show "steady m (streamClose m r)" "tame q m (streamClose m r)" by blast+
qed

lemma removeStream_keeps [steadies, tames]:
  "steady m (removeStream m i)" "tame q m (removeStream m i)"
  using steady_trans [OF steady_fields(1) streamReset_keeps(1)] tame_trans [OF tame_fields(1) streamReset_keeps(2)]
  by (auto simp: removeStream_def split: option.splits)

lemma resetAll_keeps:
  "steady m (foldl (\<lambda>x r. streamReset x r 0) m rs) \<and> tame q m (foldl (\<lambda>x r. streamReset x r 0) m rs)"
proof (induction rs arbitrary: m)
  case (Cons r rs)
  show ?case
    using steady_trans [OF streamReset_keeps(1)] tame_trans [OF streamReset_keeps(2)]
      Cons.IH [of "streamReset m r 0"] by simp blast
qed simp

lemma Mux_Close_keeps [steadies, tames]: "steady m (Mux_Close m)" "tame q m (Mux_Close m)"
proof -
  let ?m1 = "m\<lparr>closeCh := True, writeQueue := WriteQueue_Close (writeQueue m)\<rparr>"
  let ?m2 = "foldl (\<lambda>x r. streamReset x r 0) ?m1 (map snd (streams m))"
  have "steady m ?m1" "tame q m ?m1"
    by (simp_all add: steady_def tame_same WriteQueue_Close_def)
  moreover have "steady ?m2 (?m2\<lparr>streams := [], transportClosed := True\<rparr>)"
    "tame q ?m2 (?m2\<lparr>streams := [], transportClosed := True\<rparr>)"
    by (simp_all add: steady_def tame_same)
  ultimately show "steady m (Mux_Close m)" "tame q m (Mux_Close m)"
    using resetAll_keeps [of ?m1 "map snd (streams m)" q]
    by (auto simp: Mux_Close_def Let_def intro: steady_trans tame_trans)
qed

text \<open>A new object appears at the next free reference.\<close>
lemma tame_register:
  assumes "mux_inv m" "writeOut s = []"
  shows "tame q m ((register m i s)\<lparr>draining := AList.update (nextRef m) DrainLoop (draining m)\<rparr>)"
proof -
  have "map_of (heap m) (nextRef m) = None"
    using assms(1) by (auto simp: mux_inv_def table_inv_def simp del: map_of_eq_Some_iff)
      (metis less_irrefl not_Some_eq)
  then show ?thesis using assms(2) by (auto simp: tame_def alist_maps split: option.splits)
qed

lemma newStream_writeOut [simp]: "writeOut (newStream m i) = []"
  by (simp add: newStream_def)

lemma tame_heap_draining:
  "tame q m m1 \<Longrightarrow> heap m2 = heap m1 \<Longrightarrow> draining m2 = draining m1 \<Longrightarrow> tame q m m2"
  by (simp add: tame_def split: option.splits)

lemma handleStreamOpen_keeps [steadies, tames]:
  assumes "mux_inv m"
  shows "steady m (handleStreamOpen m f pick)" "tame q m (handleStreamOpen m f pick)"
proof -
  show "steady m (handleStreamOpen m f pick)"
    by (auto simp: handleStreamOpen_def acceptPeerOpen_def deliverAccept_def drain_goto_def steady_def
          Let_def split: option.splits)
  define s where "s = (if Payload f \<noteq> [] then SetOpenPayload (newStream m (StreamID f)) (Payload f)
    else newStream m (StreamID f))"
  have "writeOut s = []" by (simp add: s_def SetOpenPayload_def)
  from tame_register [OF assms this, of q "StreamID f"]
  show "tame q m (handleStreamOpen m f pick)"
    by (auto simp: handleStreamOpen_def acceptPeerOpen_def deliverAccept_def drain_goto_def Let_def
          s_def [symmetric] tame_same split: option.splits elim!: tame_heap_draining)
qed

lemma OpenStream_tame [tames]:
  assumes "mux_inv m" "unat (nextStreamID m) + 2 < 2 ^ 32"
  shows "tame q m (snd (OpenStream_begin m p))"
proof -
  obtain i m1 where a: "allocID m = (i, m1)" by fastforce
  have eq: "heap m1 = heap m" "draining m1 = draining m" "nextRef m1 = nextRef m"
    using a by (auto simp: allocID_def split: if_splits)
  have "writeOut (newStream m1 i) = []" by simp
  from tame_register [OF assms(1) this, of q i] show ?thesis
    using eq by (auto simp: OpenStream_begin_def a Let_def elim!: tame_heap_draining)
qed

lemma lookup_heap: "lookupStream m i = Some (r, s) \<Longrightarrow> map_of (heap m) r = Some s"
  by (simp add: lookupStream_Some)

lemma handleStreamData_keeps [steadies, tames]:
  "steady m (handleStreamData m f)" "tame q m (handleStreamData m f)"
proof -
  have "steady m (handleStreamData m f) \<and> tame q m (handleStreamData m f)"
  proof (cases "lookupStream m (StreamID f)")
    case (Some rs)
    obtain r s where rs: "rs = (r, s)" by fastforce
    note h = lookup_heap [OF Some [unfolded rs]]
    let ?s1 = "if Payload f \<noteq> [] then Deliver s (Payload f) else s"
    have q: "quiet s ?s1" "quiet s (RemoteClose ?s1)"
      using quiet_ops(1,3) quiet_trans [OF quiet_ops(1) quiet_ops(3)] by simp_all
    from tame_setStream [OF h q(1)] tame_trans [OF tame_setStream [OF h q(2)] maybeRemove_keeps(2)]
      steady_trans [OF steady_fields(3) maybeRemove_keeps(1)]
    show ?thesis using Some rs by (simp add: handleStreamData_def Let_def steadies)
  qed (simp add: handleStreamData_def)
  then show "steady m (handleStreamData m f)" "tame q m (handleStreamData m f)" by blast+
qed

lemma handleStreamClose_keeps [steadies, tames]:
  "steady m (handleStreamClose m f)" "tame q m (handleStreamClose m f)"
  using steady_trans [OF steady_fields(3) maybeRemove_keeps(1)]
    tame_trans [OF tame_setStream [OF lookup_heap quiet_ops(3)] maybeRemove_keeps(2)]
  by (auto simp: handleStreamClose_def split: option.splits)

lemma handleStreamReset_keeps [steadies, tames]:
  "steady m (handleStreamReset m f)" "tame q m (handleStreamReset m f)"
  using steady_trans [OF streamReset_keeps(1) steady_fields(1)]
    tame_trans [OF streamReset_keeps(2) tame_fields(1)] streamReset_keeps
  by (auto simp: handleStreamReset_def Let_def split: option.splits)

lemma handleWindowUpdate_keeps [steadies, tames]:
  "steady m (handleWindowUpdate m f)" "tame q m (handleWindowUpdate m f)"
  using tame_setStream [OF lookup_heap quiet_ops(6)]
  by (auto simp: handleWindowUpdate_def Let_def steadies split: option.splits)
     (auto simp: steady_def tame_same)

lemma handleFrame_keeps [steadies, tames]:
  assumes "mux_inv m"
  shows "steady m (handleFrame m f pick)" "tame q m (handleFrame m f pick)"
  using assms
  by (auto simp: handleFrame_def steadies tames handlePing_def)
     (auto simp: handlePong_def handleGoAway_def handleServiceList_def steady_def tame_same
           split: option.splits)

lemma writeLoop_keeps [steadies, tames]:
  "steady m (fst (writeLoop_step m))" "tame q m (fst (writeLoop_step m))"
proof -
  have d: "wq_closed w = wq_closed (writeQueue m)" if "Dequeue (writeQueue m) None = (x, w)" for x w
    using that by (auto simp: Dequeue_def split: if_splits list.splits)
  have s: "steady m (m\<lparr>writeQueue := w, transport := t\<rparr>)" "tame q m (m\<lparr>writeQueue := w, transport := t\<rparr>)"
    if "wq_closed w = wq_closed (writeQueue m)" for w t
    using that by (simp_all add: steady_def tame_same)
  show "steady m (fst (writeLoop_step m))" "tame q m (fst (writeLoop_step m))"
    using s d steady_trans [OF s(1) Mux_Close_keeps(1)] tame_trans [OF s(2) Mux_Close_keeps(2)]
    by (auto simp: writeLoop_step_def split: prod.splits attempt.splits sum.splits option.splits)
qed

lemma drain_step_steady [steadies]: "drain_step m r c = Some m' \<Longrightarrow> steady m m'"
  by (auto simp: drain_step_def drainStream_def awaitFIN_def flushAndFIN_def drain_exit_def
        drain_goto_def drain_data_def drain_fin_def enqueueStreamData_def steady_def
        split: option.splits drain_pc.splits drain_choice.splits if_splits)

lemma drain_step_other:
  "drain_step m r c = Some m' \<Longrightarrow> q \<noteq> r \<Longrightarrow> tame q m m'"
  by (rule tame_same)
     (auto simp: drain_step_def drainStream_def awaitFIN_def flushAndFIN_def drain_exit_def
        drain_goto_def drain_data_def drain_fin_def enqueueStreamData_def alist_maps
        split: option.splits drain_pc.splits drain_choice.splits if_splits)

lemma onStream_steady [steadies]: "steady m (onStream m r g)"
  by (simp add: onStream_def steadies split: option.splits)

lemma onStream_tame [tames]:
  "(\<And>s. q = r \<Longrightarrow> quiet s (g s)) \<Longrightarrow> tame q m (onStream m r g)"
  by (cases "q = r") (auto simp: onStream_def tames tame_same alist_maps split: option.splits)

lemma exec_plain [steadies, tames]:
  "steady m (snd (AcceptStream m w))" "tame q m (snd (AcceptStream m w))"
  "steady m (acceptAbort m)" "tame q m (acceptAbort m)"
  "steady m (GoAway m code)" "tame q m (GoAway m code)"
  "steady m (Ping_begin m stamp)" "tame q m (Ping_begin m stamp)"
  "steady m (snd (Ping_wait m pw))" "tame q m (snd (Ping_wait m pw))"
  "steady m (snd (SendServiceList m ns))" "tame q m (snd (SendServiceList m ns))"
  "steady m (m\<lparr>serviceListCh := None\<rparr>)" "tame q m (m\<lparr>serviceListCh := None\<rparr>)"
  by (auto simp: AcceptStream_def acceptAbort_def GoAway_def Ping_begin_def Ping_wait_def
        SendServiceList_def Let_def steady_def tame_same
        split: accept_wait.splits list.splits option.splits ping_wait.splits)

lemma OpenStream_wait_keeps [steadies, tames]:
  "steady m (snd (OpenStream_wait m i r w))" "tame q m (snd (OpenStream_wait m i r w))"
proof -
  have "steady m (m\<lparr>ackCh := x\<rparr>)" "tame q m (m\<lparr>ackCh := x\<rparr>)" "steady m (cleanupPendingOpen m i)"
    "tame q m (cleanupPendingOpen m i)" for x
    by (simp_all add: steady_def tame_same cleanupPendingOpen_def)
  then show "steady m (snd (OpenStream_wait m i r w))" "tame q m (snd (OpenStream_wait m i r w))"
    using steady_trans [OF _ removeStream_keeps(1)] tame_trans [OF _ removeStream_keeps(2)]
    by (auto simp: OpenStream_wait_def split: open_wait.splits)
qed

text \<open>Everything but an open keeps the session fields; an open may advance the counter.\<close>
lemma exec_steady:
  assumes "mux_inv m" "\<And>p. a \<noteq> ActOpen p"
  shows "steady m (mux_exec m a)"
  using assms by (cases a) (auto simp: mux_exec_def steadies split: option.splits)

lemma open_steady:
  assumes "mux_inv m" "unat (nextStreamID m) + 2 < 2 ^ 32"
  shows "\<exists>n. steady m ((snd (OpenStream_begin m p))\<lparr>nextStreamID := n\<rparr>) \<and>
    unat (nextStreamID (snd (OpenStream_begin m p))) \<le> unat (nextStreamID m) + 2"
proof -
  obtain i m1 where a: "allocID m = (i, m1)" by fastforce
  have "role m1 = role m" "mux_config m1 = mux_config m" "goingAway m1 = goingAway m"
    "closeCh m1 = closeCh m" "writeQueue m1 = writeQueue m"
    using a by (auto simp: allocID_def split: if_splits)
  then show ?thesis
    using allocID_fresh(6) [OF assms a]
    by (intro exI [of _ "nextStreamID m"]) (simp add: OpenStream_begin_def a Let_def steady_def)
qed

text \<open>Writes and drain steps of other streams, and every other action, leave object \<open>q\<close> tame.\<close>
lemma exec_tame:
  assumes "mux_inv m" "unat (nextStreamID m) + 2 < 2 ^ 32"
    "case a of ActWrite r _ _ \<Rightarrow> r \<noteq> q | ActDrain r _ \<Rightarrow> r \<noteq> q | _ \<Rightarrow> True"
  shows "tame q m (mux_exec m a)"
  using assms
  by (cases a) (auto simp: mux_exec_def tames quiet_ops drain_step_other split: option.splits)

section \<open>Runs of a fresh session\<close>

primrec opensIn :: "mux_action list \<Rightarrow> nat" where
  "opensIn [] = 0"
| "opensIn (a # acts) = (case a of ActOpen _ \<Rightarrow> 1 | _ \<Rightarrow> 0) + opensIn acts"

lemma opensIn_append [simp]: "opensIn (acts @ acts') = opensIn acts + opensIn acts'"
  by (induction acts) simp_all

text \<open>Only a local open advances the 32-bit identifier counter, by two, so it cannot wrap in a run
  with fewer than \<open>2\<^sup>3\<^sup>1 - 2\<close> of them, however many other actions the run has.\<close>
abbreviation short_run :: "mux_action list \<Rightarrow> bool" where
  "short_run acts \<equiv> opensIn acts < 2147483646"

lemma run_inv:
  assumes "short_run acts" "m = mux_run (NewMuxSession w rl cfg) acts"
  shows "mux_inv m \<and> role m = rl \<and> mux_config m = cfg \<and> unat (nextStreamID m) \<le> 2 + 2 * opensIn acts"
  using assms
proof (induction acts arbitrary: m rule: rev_induct)
  case Nil
  then show ?case using mux_inv_New [of w rl cfg] by (cases rl) (auto simp: NewMuxSession_def)
next
  case (snoc a acts)
  let ?m = "mux_run (NewMuxSession w rl cfg) acts"
  have ih: "mux_inv ?m" "role ?m = rl" "mux_config ?m = cfg" "unat (nextStreamID ?m) \<le> 2 + 2 * opensIn acts"
    using snoc by auto
  moreover have "opensIn acts < 2147483646" using snoc.prems(1) by simp
  ultimately have room: "unat (nextStreamID ?m) + 2 < 2 ^ 32" by simp
  have m: "m = mux_exec ?m a" using snoc.prems(2) by simp
  show ?case
  proof (cases "\<exists>p. a = ActOpen p")
    case True
    then obtain p where p: "a = ActOpen p" by blast
    from open_steady [OF ih(1) room, of p] mux_inv_exec [OF ih(1) room, of a] p m ih show ?thesis
      by (auto simp: mux_exec_def steady_def)
  next
    case False
    with exec_steady [OF ih(1), of a] mux_inv_exec [OF ih(1) room, of a] m ih show ?thesis
      by (auto simp: steady_def)
  qed
qed

lemma run_room:
  assumes "short_run acts" "m = mux_run (NewMuxSession w rl cfg) acts"
  shows "mux_inv m" "unat (nextStreamID m) + 2 < 2 ^ 32"
  using run_inv [OF assms] assms(1) by auto

text \<open>A fresh relay session with room for everything, used by the examples.\<close>
definition exampleMux :: MuxSession where
  "exampleMux = NewMuxSession \<lparr>written = [], room = None\<rparr> RoleRelay
     \<lparr>MaxConcurrentStreams = 4, InitialStreamWindow = 64, ConnectionWindow = 64, PingInterval = 0,
      PingTimeout = 0, IdleTimeout = 0\<rparr>"

lemmas open_defs = OpenStream_begin_def allocID_def register_def enqueue_def setStream_def
  newStream_def Enqueue_def NewWriteQueue_def Let_def

lemma open_fresh:
  assumes "mux_inv m" "unat (nextStreamID m) + 2 < 2 ^ 32" "OpenStream_begin m p = (Inr (i, r), m')"
  shows "i \<noteq> 0" "even i = (role m = RoleAgent)" "map_of (streams m) i = None"
    "map_of (heap m) q = Some s \<Longrightarrow> live s \<Longrightarrow> ss_id s \<noteq> i" "map_of (streams m') = (map_of (streams m))(i \<mapsto> r)"
proof -
  obtain m1 where a: "allocID m = (i, m1)" and m': "streams m' = AList.update i r (streams m)"
    using assms(3) by (auto simp: OpenStream_begin_def Let_def allocID_def split: prod.splits if_splits)
  note f = allocID_fresh [OF assms(1,2) a]
  show "even i = (role m = RoleAgent)" using assms(1) f(2) unfolding mux_inv_def ids_inv_def by blast
  show "i \<noteq> 0" using f(3) by (metis less_irrefl)
  show "map_of (streams m) i = None" by (rule f(1))
  show "ss_id s \<noteq> i" if "map_of (heap m) q = Some s" "live s"
    using mux_inv_live [OF assms(1) that] f(1) by (metis option.discI)
  show "map_of (streams m') = (map_of (streams m))(i \<mapsto> r)" unfolding m' by (rule update_conv')
qed



lemma live_refs:
  assumes "mux_inv m" "\<not> closeCh m"
  shows "{r. \<exists>s. map_of (heap m) r = Some s \<and> live s} = snd ` set (streams m)"
    and "inj_on snd (set (streams m))"
proof -
  have d: "distinct (map fst (streams m))" using assms(1) by (simp add: mux_inv_def)
  have entry: "\<exists>s. map_of (heap m) r = Some s \<and> ss_id s = i \<and> live s" if "(i, r) \<in> set (streams m)" for i r
    using mux_inv_entry [OF assms(1)] map_of_is_SomeI [OF d that] assms(2) by metis
  show "{r. \<exists>s. map_of (heap m) r = Some s \<and> live s} = snd ` set (streams m)"
    using entry mux_inv_live [OF assms(1)] by (force dest: map_of_SomeD)
  show "inj_on snd (set (streams m))"
    using entry by (auto simp: inj_on_def) (metis option.inject)+
qed

lemma NumStreams_live:
  assumes "mux_inv m" "\<not> closeCh m"
  shows "NumStreams m = int (card {r. \<exists>s. map_of (heap m) r = Some s \<and> live s})"
proof -
  have "distinct (map fst (streams m))" using assms(1) by (simp add: mux_inv_def)
  then have "card (snd ` set (streams m)) = length (streams m)"
    using card_image [OF live_refs(2) [OF assms]] distinct_card [of "streams m"] by (simp add: distinct_map)
  then show ?thesis using live_refs(1) [OF assms] by (simp add: NumStreams_def)
qed



section \<open>The close frame follows the data\<close>

abbreviation dataFrame :: "u32 \<Rightarrow> bytes \<Rightarrow> Frame" where
  "dataFrame i p \<equiv> mkFrame CmdStreamData 0 i p"

abbreviation finFrame :: "u32 \<Rightarrow> Frame" where
  "finFrame i \<equiv> mkFrame CmdStreamClose FlagFIN i []"

text \<open>The frames the drain goroutine of \<open>r\<close> puts on the data queue in one action, and the
  chunk a write to \<open>r\<close> gets accepted.\<close>
definition emits :: "ref \<Rightarrow> MuxSession \<Rightarrow> mux_action \<Rightarrow> Frame list" where
  "emits r m a =
     (case a of
        ActDrain q c \<Rightarrow>
          if q = r then drop (length (wq_data (writeQueue m))) (wq_data (writeQueue (mux_exec m a))) else []
      | _ \<Rightarrow> [])"

definition accepts :: "ref \<Rightarrow> MuxSession \<Rightarrow> mux_action \<Rightarrow> bytes list" where
  "accepts r m a =
     (case (a, map_of (heap m) r) of
        (ActWrite q p pick, Some s) \<Rightarrow>
          if q = r then
            (case fst (Stream_Write s p pick) of Returned (Inr _) \<Rightarrow> [p] | _ \<Rightarrow> [])
          else []
      | _ \<Rightarrow> [])"

fun emitted :: "ref \<Rightarrow> MuxSession \<Rightarrow> mux_action list \<Rightarrow> Frame list" where
  "emitted r m [] = []"
| "emitted r m (a # as) = emits r m a @ emitted r (mux_exec m a) as"

fun accepted :: "ref \<Rightarrow> MuxSession \<Rightarrow> mux_action list \<Rightarrow> bytes list" where
  "accepted r m [] = []"
| "accepted r m (a # as) = accepts r m a @ accepted r (mux_exec m a) as"

lemma emitted_snoc: "emitted r m (as @ [a]) = emitted r m as @ emits r (mux_run m as) a"
  by (induction as arbitrary: m) simp_all

lemma accepted_snoc: "accepted r m (as @ [a]) = accepted r m as @ accepts r (mux_run m as) a"
  by (induction as arbitrary: m) simp_all

definition sent_inv :: "ref \<Rightarrow> MuxSession \<Rightarrow> Frame list \<Rightarrow> bytes list \<Rightarrow> bool" where
  "sent_inv r m em ac \<longleftrightarrow>
     (case map_of (heap m) r of
        None \<Rightarrow> em = [] \<and> ac = []
      | Some s \<Rightarrow>
          (\<exists>sent rest. ac = sent @ rest \<and> (\<not> wq_closed (writeQueue m) \<longrightarrow> rest = writeOut s) \<and>
             (em = map (dataFrame (ss_id s)) sent \<and>
                (map_of (draining m) r = Some DrainFlush \<longrightarrow> isWriteClosed s) \<or>
              em = map (dataFrame (ss_id s)) sent @ [finFrame (ss_id s)] \<and> rest = [] \<and>
                isWriteClosed s \<and> map_of (draining m) r = None)))"

lemma lifecycle_writeClosed:
  "lifecycle\<^sup>*\<^sup>* (state s) (state s') \<Longrightarrow> isWriteClosed s \<Longrightarrow> isWriteClosed s'"
proof -
  have "lifecycle\<^sup>*\<^sup>* a b \<Longrightarrow> a \<in> {StateHalfClosedLocal, StateClosed, StateReset} \<Longrightarrow>
    b \<in> {StateHalfClosedLocal, StateClosed, StateReset}" for a b
    by (induction rule: rtranclp_induct) auto
  from this [of "state s" "state s'"] show
    "lifecycle\<^sup>*\<^sup>* (state s) (state s') \<Longrightarrow> isWriteClosed s \<Longrightarrow> isWriteClosed s'"
    by (auto simp: isWriteClosed_def)
qed

text \<open>The two clauses of the invariant about the queue, when nothing is written or drained.\<close>
lemma sent_inv_tame:
  assumes "sent_inv r m em ac" "tame r m m'" "wq_closed (writeQueue m) \<longrightarrow> wq_closed (writeQueue m')"
  shows "sent_inv r m' em ac"
proof (cases "map_of (heap m) r")
  case None
  then show ?thesis using assms by (auto simp: sent_inv_def tame_def split: option.splits)
next
  case (Some s)
  then obtain s' where s': "map_of (heap m') r = Some s'" "quiet s s'"
    "map_of (draining m') r = map_of (draining m) r"
    using assms(2) by (auto simp: tame_def)
  then have "ss_id s' = ss_id s" "writeOut s' = writeOut s" "isWriteClosed s \<longrightarrow> isWriteClosed s'"
    using lifecycle_writeClosed by (auto simp: quiet_def)
  with s' Some assms(1,3) show ?thesis unfolding sent_inv_def by auto
qed

lemma Stream_Write_cases:
  obtains
    (accepted) "fst (Stream_Write s p pick) = Returned (Inr (length p))"
      "snd (Stream_Write s p pick) = s\<lparr>writeOut := writeOut s @ [p]\<rparr>" "\<not> isWriteClosed s"
  | (refused) "\<forall>n. fst (Stream_Write s p pick) \<noteq> Returned (Inr n)" "snd (Stream_Write s p pick) = s"
proof (cases "\<not> isWriteClosed s \<and> length (writeOut s) < writeOutCap \<and> (closedCh s \<longrightarrow> pick)")
  case True
  then show thesis by (intro accepted) (simp_all add: Stream_Write_def Write_select_def Let_def)
next
  case False
  then show thesis by (intro refused) (auto simp: Stream_Write_def Write_select_def Let_def)
qed

lemma sent_inv_Some:
  assumes "map_of (heap m) r = Some s"
  shows "sent_inv r m em ac \<longleftrightarrow>
    (\<exists>sent rest. ac = sent @ rest \<and> (\<not> wq_closed (writeQueue m) \<longrightarrow> rest = writeOut s) \<and>
       (em = map (dataFrame (ss_id s)) sent \<and>
          (map_of (draining m) r = Some DrainFlush \<longrightarrow> isWriteClosed s) \<or>
        em = map (dataFrame (ss_id s)) sent @ [finFrame (ss_id s)] \<and> rest = [] \<and>
          isWriteClosed s \<and> map_of (draining m) r = None))"
  using assms by (simp add: sent_inv_def)

lemma isWriteClosed_upd [simp]:
  "isWriteClosed (s\<lparr>writeOut := x\<rparr>) = isWriteClosed s" "isWriteClosed (s\<lparr>finCh := b\<rparr>) = isWriteClosed s"
  by (simp_all add: isWriteClosed_def)

lemma sent_inv_write:
  assumes "sent_inv r m em ac"
  shows "sent_inv r (mux_exec m (ActWrite r p pick)) em (ac @ accepts r m (ActWrite r p pick))"
proof (cases "map_of (heap m) r")
  case None
  then show ?thesis using assms by (simp add: accepts_def mux_exec_def onStream_def)
next
  case (Some s)
  show ?thesis
  proof (cases rule: Stream_Write_cases [of s p pick])
    case accepted
    from assms accepted(3) obtain sent rest where h: "ac = sent @ rest"
      "\<not> wq_closed (writeQueue m) \<longrightarrow> rest = writeOut s" "em = map (dataFrame (ss_id s)) sent"
      "map_of (draining m) r \<noteq> Some DrainFlush"
      unfolding sent_inv_Some [OF Some] by blast
    let ?m = "setStream m r (s\<lparr>writeOut := writeOut s @ [p]\<rparr>)"
    have s': "map_of (heap ?m) r = Some (s\<lparr>writeOut := writeOut s @ [p]\<rparr>)" by (simp add: alist_maps)
    have "sent_inv r ?m em (ac @ [p])"
      unfolding sent_inv_Some [OF s'] using h by (intro exI [of _ sent] exI [of _ "rest @ [p]"]) simp
    then show ?thesis using accepted Some by (simp add: accepts_def mux_exec_def onStream_def)
  next
    case refused
    then have "accepts r m (ActWrite r p pick) = []"
      using Some by (auto simp: accepts_def split: attempt.splits sum.splits)
    moreover have "sent_inv r (setStream m r s) em ac"
      using assms Some by (simp add: sent_inv_def alist_maps)
    ultimately show ?thesis using refused Some by (simp add: mux_exec_def onStream_def)
  qed
qed

text \<open>The effect of one drain iteration on its stream: a chunk moves from the stream to the
  queue, or the close token is taken, or the close frame goes out and the goroutine ends, or
  only the goroutine's position changes.\<close>
lemma drain_step_cases:
  assumes "drain_step m r c = Some m'"
  obtains
    (chunk) s p ps pc where "map_of (heap m) r = Some s" "writeOut s = p # ps"
      "m' = enqueue (setStream m r (s\<lparr>writeOut := ps\<rparr>)) (dataFrame (ss_id s) p) PriorityData"
      "map_of (draining m) r = Some pc"
  | (token) s pc where "map_of (heap m) r = Some s" "finCh s"
      "m' = drain_goto (setStream m r (s\<lparr>finCh := False\<rparr>)) r DrainFlush"
      "map_of (draining m) r = Some pc"
  | (fin) s where "map_of (heap m) r = Some s" "writeOut s = []"
      "m' = drain_exit (enqueue m (finFrame (ss_id s)) PriorityData) r"
      "map_of (draining m) r = Some DrainFlush"
  | (wait) s where "map_of (heap m) r = Some s" "m' = drain_goto m r DrainAwait"
      "map_of (draining m) r = Some DrainLoop"
  | (quit) s pc where "map_of (heap m) r = Some s" "m' = drain_exit m r"
      "map_of (draining m) r = Some pc"
proof -
  obtain s pc where s: "map_of (heap m) r = Some s" and pc: "map_of (draining m) r = Some pc"
    using assms by (auto simp: drain_step_def split: option.splits drain_pc.splits)
  have data: thesis if d: "drain_data m r s = Some m'"
  proof -
    from d obtain p ps where "writeOut s = p # ps"
      "m' = enqueue (setStream m r (s\<lparr>writeOut := ps\<rparr>)) (dataFrame (ss_id s) p) PriorityData"
      by (auto simp: drain_data_def recv_writeOut_def enqueueStreamData_def split: list.splits)
    from s this pc show thesis by (rule chunk)
  qed
  have tok: thesis if d: "drain_fin m r s = Some m'"
  proof -
    from d have "finCh s" "m' = drain_goto (setStream m r (s\<lparr>finCh := False\<rparr>)) r DrainFlush"
      by (auto simp: drain_fin_def recv_finCh_def split: if_splits)
    from s this pc show thesis by (rule token)
  qed
  have step: "case pc of DrainLoop \<Rightarrow> drainStream m r s c = Some m'
    | DrainAwait \<Rightarrow> awaitFIN m r s c = Some m' | DrainFlush \<Rightarrow> m' = flushAndFIN m r s"
    using assms s pc by (cases pc) (simp_all add: drain_step_def)
  show thesis
  proof (cases pc)
    case DrainLoop
    with step have "drain_data m r s = Some m' \<or> drain_fin m r s = Some m' \<or>
      m' = drain_exit m r \<or> m' = drain_goto m r DrainAwait"
      by (auto simp: drainStream_def split: drain_choice.splits if_splits)
    then show thesis using data tok quit [OF s _ pc] wait [OF s _ pc [unfolded DrainLoop]] by blast
  next
    case DrainAwait
    with step have "drain_fin m r s = Some m' \<or> m' = drain_exit m r"
      by (auto simp: awaitFIN_def split: drain_choice.splits if_splits)
    then show thesis using tok quit [OF s _ pc] by blast
  next
    case DrainFlush
    with step have "drain_data m r s = Some m' \<or> writeOut s = [] \<and>
      m' = drain_exit (enqueue m (finFrame (ss_id s)) PriorityData) r"
      by (auto simp: flushAndFIN_def drain_data_def recv_writeOut_def split: list.splits option.splits)
    then show thesis using data fin [OF s _ _ pc [unfolded DrainFlush]] by blast
  qed
qed

lemma sent_inv_chunk:
  assumes inv: "sent_inv r m em ac" and s: "map_of (heap m) r = Some s" "writeOut s = p # ps"
    "map_of (draining m) r = Some pc"
    and m': "m' = enqueue (setStream m r (s\<lparr>writeOut := ps\<rparr>)) (dataFrame (ss_id s) p) PriorityData"
  shows "sent_inv r m' (em @ drop (length (wq_data (writeQueue m))) (wq_data (writeQueue m'))) ac"
proof -
  obtain sent rest where h: "ac = sent @ rest" "\<not> wq_closed (writeQueue m) \<longrightarrow> rest = p # ps"
    "em = map (dataFrame (ss_id s)) sent" "pc = DrainFlush \<longrightarrow> isWriteClosed s"
    using inv s unfolding sent_inv_Some [OF s(1)] by auto
  have s': "map_of (heap m') r = Some (s\<lparr>writeOut := ps\<rparr>)" "map_of (draining m') r = Some pc"
    by (simp_all add: m' alist_maps s)
  show ?thesis
  proof (cases "wq_closed (writeQueue m)")
    case True
    then show ?thesis unfolding sent_inv_Some [OF s'(1)] using h s' by (auto simp: m')
  next
    case False
    then show ?thesis unfolding sent_inv_Some [OF s'(1)] using h s'
      by (intro exI [of _ "sent @ [p]"] exI [of _ ps]) (simp add: m')
  qed
qed

lemma sent_inv_drain:
  assumes inv: "sent_inv r m em ac" and ok: "mux_inv m" and d: "drain_step m r c = Some m'"
  shows "sent_inv r m' (em @ drop (length (wq_data (writeQueue m))) (wq_data (writeQueue m'))) ac"
  using d
proof (cases rule: drain_step_cases)
  case (chunk s p ps pc)
  then show ?thesis by (intro sent_inv_chunk [OF inv]) auto
next
  case (token s pc)
  then have w: "isWriteClosed s"
    using mux_inv_object [OF ok token(1)] by (auto simp: object_ok_def stream_inv_def isWriteClosed_def)
  have s': "map_of (heap m') r = Some (s\<lparr>finCh := False\<rparr>)" by (simp add: token alist_maps drain_goto_def)
  show ?thesis
    using inv token w unfolding sent_inv_Some [OF s'] sent_inv_Some [OF token(1)]
    by (auto simp: drain_goto_def alist_maps)
next
  case (fin s)
  have s': "map_of (heap m') r = Some s" by (simp add: fin drain_exit_def)
  show ?thesis
    using inv fin unfolding sent_inv_Some [OF s'] sent_inv_Some [OF fin(1)]
    by (cases "wq_closed (writeQueue m)") (auto simp: drain_exit_def delete_conv')
next
  case (wait s)
  have s': "map_of (heap m') r = Some s" by (simp add: wait drain_goto_def)
  show ?thesis
    using inv wait unfolding sent_inv_Some [OF s'] sent_inv_Some [OF wait(1)]
    by (auto simp: drain_goto_def alist_maps)
next
  case (quit s pc)
  have s': "map_of (heap m') r = Some s" by (simp add: quit drain_exit_def)
  show ?thesis
    using inv quit unfolding sent_inv_Some [OF s'] sent_inv_Some [OF quit(1)]
    by (auto simp: drain_exit_def delete_conv')
qed

lemma exec_wq_closed:
  assumes "mux_inv m" "unat (nextStreamID m) + 2 < 2 ^ 32"
  shows "wq_closed (writeQueue m) \<longrightarrow> wq_closed (writeQueue (mux_exec m a))"
proof (cases "\<exists>p. a = ActOpen p")
  case True
  then show ?thesis using open_steady [OF assms] by (auto simp: steady_def mux_exec_def)
next
  case False
  then show ?thesis using exec_steady [OF assms(1), of a] by (auto simp: steady_def)
qed

lemma sent_inv_exec:
  assumes "sent_inv r m em ac" "mux_inv m" "unat (nextStreamID m) + 2 < 2 ^ 32"
  shows "sent_inv r (mux_exec m a) (em @ emits r m a) (ac @ accepts r m a)"
proof -
  consider (writes) p pick where "a = ActWrite r p pick" | (drain) c where "a = ActDrain r c"
    | (other) "case a of ActWrite q _ _ \<Rightarrow> q \<noteq> r | ActDrain q _ \<Rightarrow> q \<noteq> r | _ \<Rightarrow> True"
    by (cases a) auto
  then show ?thesis
  proof cases
    case (writes p pick)
    then show ?thesis using sent_inv_write [OF assms(1), of p pick] by (simp add: emits_def)
  next
    case (drain c)
    then show ?thesis
      using assms(1) sent_inv_drain [OF assms(1,2), of c]
      by (cases "drain_step m r c") (auto simp: emits_def accepts_def mux_exec_def split: option.splits)
  next
    case other
    then have "emits r m a = []" "accepts r m a = []"
      by (auto simp: emits_def accepts_def split: mux_action.splits option.splits)
    then show ?thesis
      using sent_inv_tame [OF assms(1) exec_tame [OF assms(2,3) other] exec_wq_closed [OF assms(2,3)]]
      by simp
  qed
qed

lemma sent_inv_run:
  assumes "short_run acts" "m0 = NewMuxSession w rl cfg"
  shows "sent_inv r (mux_run m0 acts) (emitted r m0 acts) (accepted r m0 acts)"
  using assms
proof (induction acts rule: rev_induct)
  case Nil
  then show ?case by (simp add: sent_inv_def NewMuxSession_def)
next
  case (snoc a acts)
  then have "short_run acts" by simp
  from sent_inv_exec [OF snoc.IH [OF this snoc.prems(2)] run_room [OF this, of _ w rl cfg], of a]
  show ?case using snoc.prems(2) by (simp add: emitted_snoc accepted_snoc)
qed


lemmas close_defs = streamClose_eq Stream_Close_def Close_locked_def Close_notify_def
  maybeRemoveStream_def drain_step_def drainStream_def drain_fin_def drain_data_def recv_finCh_def
  recv_writeOut_def drain_goto_def drain_exit_def flushAndFIN_def enqueueStreamData_def onStream_def
  Stream_Write_def Write_select_def isWriteClosed_def


lemma drain_flush:
  "map_of (heap m) r = Some s \<Longrightarrow> map_of (draining m) r = Some DrainFlush \<Longrightarrow>
   \<not> wq_closed (writeQueue m) \<Longrightarrow>
   emitted r m (replicate (Suc (length (writeOut s))) (ActDrain r c)) =
     map (dataFrame (ss_id s)) (writeOut s) @ [finFrame (ss_id s)]"
proof (induction "writeOut s" arbitrary: m s)
  case Nil
  then show ?case
    by (simp add: emits_def mux_exec_def drain_step_def flushAndFIN_def drain_data_def recv_writeOut_def
          drain_exit_def)
next
  case (Cons p ps)
  let ?s = "s\<lparr>writeOut := ps\<rparr>"
  let ?m = "enqueue (setStream m r ?s) (dataFrame (ss_id s) p) PriorityData"
  have x: "mux_exec m (ActDrain r c) = ?m"
    using Cons.prems Cons.hyps(2) [symmetric]
    by (simp add: mux_exec_def drain_step_def flushAndFIN_def drain_data_def recv_writeOut_def
          enqueueStreamData_def)
  have "emitted r ?m (replicate (Suc (length ps)) (ActDrain r c)) =
    map (dataFrame (ss_id s)) ps @ [finFrame (ss_id s)]"
    using Cons.hyps(1) [of ?s ?m] Cons.prems by (simp add: alist_maps)
  moreover have "emits r m (ActDrain r c) = [dataFrame (ss_id s) p]"
    using Cons.prems(3) by (simp add: emits_def x)
  ultimately show ?case using Cons.hyps(2) [symmetric] by (simp add: x)
qed



text \<open>Nothing reopens a session.\<close>
lemma steady_closed: "closeCh m \<Longrightarrow> steady m m' \<Longrightarrow> closeCh m'"
  by (simp add: steady_def)

lemma closed_stays: "closeCh m \<Longrightarrow> closeCh (mux_exec m a)"
proof (cases a)
  case (ActFrame f pick)
  have "closeCh (handleStreamOpen m f pick)" if "closeCh m"
    using that by (auto simp: handleStreamOpen_def acceptPeerOpen_def deliverAccept_def drain_goto_def Let_def
        split: option.splits)
  then have "closeCh m \<Longrightarrow> closeCh (handleFrame m f pick)"
    using steady_closed [OF _ handleStreamData_keeps(1)] steady_closed [OF _ handleStreamClose_keeps(1)]
      steady_closed [OF _ handleStreamReset_keeps(1)] steady_closed [OF _ handleWindowUpdate_keeps(1)]
    by (simp add: handleFrame_def handlePing_def handlePong_def handleGoAway_def handleServiceList_def split: option.splits)
  then show "closeCh m \<Longrightarrow> ?thesis" by (simp add: ActFrame mux_exec_def)
next
  case (ActOpen p)
  then show "closeCh m \<Longrightarrow> ?thesis"
    by (auto simp: mux_exec_def OpenStream_begin_def allocID_def drain_goto_def Let_def split: prod.splits)
next
  case (ActDrain r c)
  then show "closeCh m \<Longrightarrow> ?thesis" using drain_step_steady [of m r c] by (auto simp: mux_exec_def steady_def split: option.splits)
qed (rule steady_closed, assumption, simp add: mux_exec_def steadies split: option.splits)+

end
