(* ===== verification/Mux_Peer.thy ===== *)
theory Mux_Peer
  imports Mux_Runs
begin

text \<open>
  What the frames of a peer do to a session: the three answers to STREAM_OPEN, isolation
  between streams, in-order delivery, shutdown, the service list; and four schedules in
  which stream identifiers, which are recycled last-in first-out, let one stream's end of
  life reach another stream.
\<close>

unbundle bit_operations_syntax

section \<open>Isolation and delivery\<close>

lemma inv_nextRef: "mux_inv m \<Longrightarrow> map_of (heap m) r = Some s \<Longrightarrow> r \<noteq> nextRef m"
  using table_inv_object(1) [of "map_of (streams m)" "map_of (heap m)" "nextRef m" "closeCh m" r s]
  by (auto simp: mux_inv_def)

lemma lookup_other:
  assumes "mux_inv m" "lookupStream m i = Some (q, t)" "map_of (heap m) r = Some s" "ss_id s \<noteq> i"
  shows "q \<noteq> r"
proof -
  have q: "map_of (streams m) i = Some q" using assms(2) by (simp add: lookupStream_Some)
  obtain z where "map_of (heap m) q = Some z" "ss_id z = i" by (rule mux_inv_entry [OF assms(1) q])
  with assms(3,4) show ?thesis by auto
qed

lemma heap_streamReset_other:
  "q \<noteq> r \<Longrightarrow> map_of (heap (streamReset m q c)) r = map_of (heap m) r"
  by (auto simp: streamReset_def onResetCallback_def Let_def alist_maps split: option.splits prod.splits)

lemma heap_maybeRemove [simp]: "heap (maybeRemoveStream m i q) = heap m"
  by (simp add: maybeRemoveStream_def split: option.splits)

text \<open>Only the stream a frame is addressed to can change.\<close>
lemma handleFrame_other:
  assumes inv: "mux_inv m" and s: "map_of (heap m) r = Some s" and f: "StreamID f \<noteq> ss_id s"
  shows "map_of (heap (handleFrame m f pick)) r = Some s"
proof -
  have other: "q \<noteq> r" if "lookupStream m (StreamID f) = Some (q, t)" for q t
    using lookup_other [OF inv that s] f by simp
  have "map_of (heap (handleStreamOpen m f pick)) r = Some s"
    using s inv_nextRef [OF inv s]
    by (auto simp: handleStreamOpen_def acceptPeerOpen_def deliverAccept_def drain_goto_def Let_def
          alist_maps split: option.splits)
  moreover have "map_of (heap (handleStreamData m f)) r = Some s"
    "map_of (heap (handleStreamClose m f)) r = Some s"
    "map_of (heap (handleWindowUpdate m f)) r = Some s"
    using s other
    by (auto simp: handleStreamData_def handleStreamClose_def handleWindowUpdate_def Let_def alist_maps
          split: option.splits)
  moreover have "map_of (heap (handleStreamReset m f)) r = Some s"
    using s other heap_streamReset_other [of _ r m]
    by (auto simp: handleStreamReset_def Let_def split: option.splits)
  ultimately show ?thesis
    using s by (simp add: handleFrame_def handlePing_def handlePong_def handleGoAway_def
        handleServiceList_def split: option.splits)
qed

definition handleFrames :: "MuxSession \<Rightarrow> Frame list \<Rightarrow> MuxSession" where
  "handleFrames m fs = foldl (\<lambda>x f. handleFrame x f True) m fs"

lemma handleFrames_simps [simp]:
  "handleFrames m [] = m" "handleFrames m (f # fs) = handleFrames (handleFrame m f True) fs"
  by (simp_all add: handleFrames_def)

text \<open>The frames addressed to stream \<open>i\<close> are plain data.\<close>
definition plainData :: "u32 \<Rightarrow> Frame list \<Rightarrow> bool" where
  "plainData i fs = list_all (\<lambda>f. StreamID f = i \<longrightarrow> Command f = CmdStreamData \<and> Flags f AND FlagFIN = 0) fs"

definition payloadFor :: "u32 \<Rightarrow> Frame list \<Rightarrow> bytes" where
  "payloadFor i fs = concat (map Payload (filter (\<lambda>f. StreamID f = i) fs))"

lemma data_delivered:
  assumes "mux_inv m" "map_of (heap m) r = Some s" "live s" "StreamID f = ss_id s"
    "Command f = CmdStreamData" "Flags f AND FlagFIN = 0"
  shows "\<exists>s'. map_of (heap (handleFrame m f pick)) r = Some s' \<and> live s' \<and> ss_id s' = ss_id s \<and>
    state s' = state s \<and> readBuf s' = readBuf s @ Payload f"
  using assms mux_inv_live [OF assms(1-3)]
  by (auto simp: handleFrame_def handleStreamData_def lookupStream_def Let_def alist_maps Deliver_def live_def)

lemma handleFrames_deliver:
  assumes "mux_inv m" "map_of (heap m) r = Some s" "live s" "plainData (ss_id s) fs"
  shows "\<exists>s'. map_of (heap (handleFrames m fs)) r = Some s' \<and> state s' = state s \<and>
    readBuf s' = readBuf s @ payloadFor (ss_id s) fs"
  using assms
proof (induction fs arbitrary: m s)
  case (Cons f fs)
  have fs: "plainData (ss_id s) fs" using Cons.prems(4) by (simp add: plainData_def)
  note inv = mux_inv_handleFrame [OF Cons.prems(1), of f True]
  show ?case
  proof (cases "StreamID f = ss_id s")
    case True
    then have "Command f = CmdStreamData" "Flags f AND FlagFIN = 0"
      using Cons.prems(4) by (auto simp: plainData_def)
    from data_delivered [OF Cons.prems(1-3) True this, of True] obtain s1
      where s1: "map_of (heap (handleFrame m f True)) r = Some s1" "live s1" "ss_id s1 = ss_id s"
        "state s1 = state s" "readBuf s1 = readBuf s @ Payload f" by blast
    from Cons.IH [OF inv s1(1,2)] fs s1 True show ?thesis by (auto simp: payloadFor_def)
  next
    case False
    from Cons.IH [OF inv handleFrame_other [OF Cons.prems(1,2) False] Cons.prems(3) fs] False
    show ?thesis by (simp add: payloadFor_def)
  qed
qed (simp add: payloadFor_def)



section \<open>Answers to STREAM_OPEN\<close>

text \<open>A peer's STREAM_OPEN has exactly three answers. For an identifier in use it changes
  nothing, on either stream. For an identifier of this side's parity that is not in use, the
  only effect is a STREAM_RESET with the protocol error code on the control queue. Otherwise
  a new open stream carrying the frame's payload is registered under the identifier, its
  drain goroutine starts and STREAM_OPEN+ACK joins the data queue.\<close>
theorem peer_open_answers:
  assumes "Command f = CmdStreamOpen" "Flags f AND FlagACK = 0"
  shows "(map_of (streams m) (StreamID f) \<noteq> None \<longrightarrow> handleFrame m f pick = m) \<and>
    (map_of (streams m) (StreamID f) = None \<and> even (StreamID f) = even (nextStreamID m) \<longrightarrow>
       handleFrame m f pick =
         m\<lparr>writeQueue := Enqueue (writeQueue m) (mkFrame CmdStreamReset 0 (StreamID f) [0, 0, 0, 2]) PriorityControl\<rparr>) \<and>
    (map_of (streams m) (StreamID f) = None \<and> even (StreamID f) \<noteq> even (nextStreamID m) \<longrightarrow>
       map_of (streams (handleFrame m f pick)) = (map_of (streams m))(StreamID f \<mapsto> nextRef m) \<and>
       (\<exists>s. map_of (heap (handleFrame m f pick)) (nextRef m) = Some s \<and> ss_id s = StreamID f \<and>
          state s = StateOpen \<and> openPayload s = Payload f) \<and>
       map_of (draining (handleFrame m f pick)) (nextRef m) = Some DrainLoop \<and>
       writeQueue (handleFrame m f pick) =
         Enqueue (writeQueue m) (mkFrame CmdStreamOpen FlagACK (StreamID f) []) PriorityData)"
proof -
  have "PutUint32 ResetCodeProtocolError = [0, 0, 0, 2]" by (simp add: PutUint32_def)
  moreover have "openPayload (if Payload f = [] then newStream m i else SetOpenPayload (newStream m i) (Payload f))
      = Payload f" for i
    by (simp add: newStream_def SetOpenPayload_def)
  ultimately show ?thesis
    using assms
    by (auto simp: handleFrame_def handleStreamOpen_def acceptPeerOpen_def ids_peer enqueue_def
          deliverAccept_def drain_goto_def Let_def alist_maps newStream_def SetOpenPayload_def)
qed

theorem peer_open_answers_witness:
  "\<exists>f. Command f = CmdStreamOpen \<and> StreamID f = 3 \<and>
     handleFrame exampleMux f True =
       exampleMux\<lparr>writeQueue := Enqueue (writeQueue exampleMux) (mkFrame CmdStreamReset 0 3 [0, 0, 0, 2]) PriorityControl\<rparr>"
proof -
  let ?f = "mkFrame CmdStreamOpen 0 3 []"
  show ?thesis
    using peer_open_answers [of ?f exampleMux True]
    by (intro exI [of _ ?f]) (simp add: exampleMux_def NewMuxSession_def)
qed

section \<open>Shutdown\<close>

lemma run_goingAway:
  "short_run (acts @ acts') \<Longrightarrow> m = mux_run (NewMuxSession w rl cfg) acts \<Longrightarrow> goingAway m \<Longrightarrow>
   goingAway (mux_run m acts')"
proof (induction acts' rule: rev_induct)
  case (snoc a acts')
  let ?m = "mux_run m acts'"
  have g: "goingAway ?m" using snoc by simp
  have "?m = mux_run (NewMuxSession w rl cfg) (acts @ acts')"
    using snoc.prems(2) by (simp add: mux_run_def)
  from run_room [OF _ this] snoc.prems(1) have inv: "mux_inv ?m" "unat (nextStreamID ?m) + 2 < 2 ^ 32" by auto
  show ?case
  proof (cases "\<exists>p. a = ActOpen p")
    case True
    then show ?thesis using open_steady [OF inv] g by (auto simp: steady_def mux_exec_def)
  next
    case False
    then show ?thesis using exec_steady [OF inv(1), of a] g by (auto simp: steady_def)
  qed
qed simp

text \<open>Once GoAway has been called, or a GOAWAY frame has been handled, every later attempt to
  open a stream fails with ErrGoAway and changes nothing, whatever happens in between.\<close>
theorem goaway_is_final:
  assumes "short_run (acts @ a # acts')" "m = mux_run (NewMuxSession w rl cfg) acts"
    "case a of ActGoAway _ \<Rightarrow> True | ActFrame f _ \<Rightarrow> Command f = CmdGoAway \<and> acceptBlocked m = None | _ \<Rightarrow> False"
  shows "OpenStream_begin (mux_run (mux_exec m a) acts') p =
    (Inl ErrGoAway, mux_run (mux_exec m a) acts')"
proof -
  have "goingAway (mux_exec m a)"
    using assms(3) by (auto simp: mux_exec_def GoAway_def Let_def handleFrame_def handleGoAway_def
        split: mux_action.splits)
  moreover have "mux_exec m a = mux_run (NewMuxSession w rl cfg) (acts @ [a])" using assms(2) by simp
  ultimately have "goingAway (mux_run (mux_exec m a) acts')"
    using run_goingAway [of "acts @ [a]" acts'] assms(1) by simp
  then show ?thesis by (simp add: OpenStream_begin_def)
qed

theorem goaway_is_final_witness:
  "fst (OpenStream_begin (mux_run (mux_exec exampleMux (ActGoAway 0)) [ActOpen []]) []) = Inl ErrGoAway"
  using goaway_is_final [of "[]" "ActGoAway 0" "[ActOpen []]" exampleMux "\<lparr>written = [], room = None\<rparr>"
      RoleRelay "mux_config exampleMux" "[]"]
  by (simp add: exampleMux_def NewMuxSession_def)



section \<open>The service list\<close>

lemma take_all_filter: "length xs \<le> n \<Longrightarrow> (\<And>x. x \<in> set xs \<Longrightarrow> P x) \<Longrightarrow> filter P (take n xs) = xs"
  by (simp add: filter_id_conv)

lemma parseServiceList_join:
  assumes "\<And>n. n \<in> set names \<Longrightarrow> n \<noteq> [] \<and> CHR 0x0A \<notin> set n" "length names \<le> MaxServiceListCount"
  shows "parseServiceList (bytes_of_string (goJoin (CHR 0x0A) names)) = names"
proof (cases "names = []")
  case False
  have "goJoin (CHR 0x0A) names \<noteq> []" using assms(1) False by (auto simp: goJoin_eq_Nil)
  then show ?thesis
    using goSplit_goJoin [OF False, of "CHR 0x0A"] take_all_filter [OF assms(2)] assms(1)
    by (simp add: parseServiceList_def)
qed (simp add: parseServiceList_def)

text \<open>A list of at most 1024 non-empty service names that SendServiceList accepts arrives at
  the peer as the same list, when the peer has consumed its previous one; a name with a line
  break is refused and nothing is queued.\<close>
theorem service_list_roundtrip:
  assumes "SendServiceList m names = (Inr (), m')" "\<not> wq_closed (writeQueue m)"
    "[] \<notin> set names" "length names \<le> MaxServiceListCount" "serviceListCh peer = None"
  shows "\<exists>f. wq_control (writeQueue m') = wq_control (writeQueue m) @ [f] \<and>
    serviceListCh (handleFrame peer f pick) = Some names \<and>
    SendServiceList m (names @ [bad @ [CHR 0x0A]]) = (Inl (ErrServiceName (bad @ [CHR 0x0A])), m)"
proof -
  have none: "find (\<lambda>name. CHR 0x0A \<in> set name \<or> CHR 0x0D \<in> set name) names = None"
    and m': "m' = enqueue m (mkFrame CmdServiceList 0 0 (bytes_of_string (goJoin (CHR 0x0A) names))) PriorityControl"
    using assms(1) by (auto simp: SendServiceList_def Let_def split: option.splits if_splits)
  have clean: "\<And>n. n \<in> set names \<Longrightarrow> n \<noteq> [] \<and> CHR 0x0A \<notin> set n"
    using none assms(3) by (auto simp: find_None_iff)
  have "find (\<lambda>name. CHR 0x0A \<in> set name \<or> CHR 0x0D \<in> set name) (names @ [bad @ [CHR 0x0A]]) =
    Some (bad @ [CHR 0x0A])"
    using none by (induction names) (auto split: if_splits)
  then show ?thesis
    using assms(2,5) parseServiceList_join [OF clean assms(4)]
    by (simp add: m' handleFrame_def handleServiceList_def SendServiceList_def)
qed

theorem service_list_roundtrip_witness:
  "\<exists>m' f. SendServiceList exampleMux [''smb'', ''http''] = (Inr (), m') \<and>
     wq_control (writeQueue m') = [f] \<and> serviceListCh (handleFrame exampleMux f True) = Some [''smb'', ''http'']"
proof -
  let ?m' = "snd (SendServiceList exampleMux [''smb'', ''http''])"
  have r: "SendServiceList exampleMux [''smb'', ''http''] = (Inr (), ?m')"
    by (simp add: SendServiceList_def bytes_of_string_def MaxPayloadSize_def)
  have "\<exists>f. wq_control (writeQueue ?m') = wq_control (writeQueue exampleMux) @ [f] \<and>
    serviceListCh (handleFrame exampleMux f True) = Some [''smb'', ''http''] \<and>
    SendServiceList exampleMux ([''smb'', ''http''] @ [[] @ [CHR 0x0A]]) =
      (Inl (ErrServiceName ([] @ [CHR 0x0A])), exampleMux)"
    by (rule service_list_roundtrip [OF r]) (simp_all add: exampleMux_def NewMuxSession_def NewWriteQueue_def)
  then show ?thesis using r by (auto simp: exampleMux_def NewMuxSession_def NewWriteQueue_def)
qed

section \<open>Identifier reuse\<close>

abbreviation openFrame :: "u32 \<Rightarrow> Frame" where "openFrame i \<equiv> mkFrame CmdStreamOpen 0 i []"
abbreviation ackFrame :: "u32 \<Rightarrow> Frame" where "ackFrame i \<equiv> mkFrame CmdStreamOpen FlagACK i []"
abbreviation resetFrame :: "u32 \<Rightarrow> u32 \<Rightarrow> Frame" where
  "resetFrame i code \<equiv> mkFrame CmdStreamReset 0 i (PutUint32 code)"

text \<open>A STREAM_RESET from the peer for a live stream is answered with a STREAM_RESET for the
  same identifier and code: the reset callback runs before the map entry is gone.\<close>
theorem reset_is_echoed:
  assumes "short_run acts" "m = mux_run (NewMuxSession w rl cfg) acts" "\<not> closeCh m"
    "\<not> wq_closed (writeQueue m)" "map_of (streams m) i = Some r"
  shows "map_of (streams (handleFrame m (resetFrame i code) pick)) i = None \<and>
    (\<exists>s. map_of (heap (handleFrame m (resetFrame i code) pick)) r = Some s \<and> state s = StateReset) \<and>
    wq_control (writeQueue (handleFrame m (resetFrame i code) pick)) =
      wq_control (writeQueue m) @ [resetFrame i code]"
proof -
  note inv = run_room(1) [OF assms(1,2)]
  obtain s where s: "map_of (heap m) r = Some s" "ss_id s = i" "live s" "object_ok s"
    using mux_inv_entry [OF inv assms(5)] assms(3) by blast
  obtain s' c where r: "Stream_Reset s = (s', c)" by fastforce
  have "state s \<noteq> StateClosed" using s(3) by (simp add: live_def)
  then have "state s' = StateReset" "c"
    using method_states(3) [of s] Stream_Reset_object(3) [OF s(4)] s(3) r by auto
  moreover have "Uint32 (take 4 (PutUint32 code)) = code" "length (PutUint32 code) = 4"
    by simp_all
  ultimately show ?thesis
    using s r assms(3-5)
    by (simp add: handleFrame_def handleStreamReset_def lookupStream_def streamReset_def
          onResetCallback_def Let_def alist_maps)
qed

theorem reset_is_echoed_witness:
  "wq_control (writeQueue (handleFrame (mux_run exampleMux [ActOpen []]) (resetFrame 1 7) True)) = [resetFrame 1 7]"
proof -
  let ?m = "mux_run exampleMux [ActOpen []]"
  have m: "?m = mux_run (NewMuxSession \<lparr>written = [], room = None\<rparr> RoleRelay (mux_config exampleMux)) [ActOpen []]"
    by (simp add: exampleMux_def NewMuxSession_def)
  have c: "\<not> closeCh ?m" "\<not> wq_closed (writeQueue ?m)" "map_of (streams ?m) 1 = Some 0"
    "wq_control (writeQueue ?m) = []"
    by (simp_all add: exampleMux_def NewMuxSession_def mux_exec_def open_defs)
  show ?thesis using reset_is_echoed [OF _ m c(1-3), of 7 True] c(4) by simp
qed

text \<open>The agent end of the example connection.\<close>
definition exampleAgent :: MuxSession where
  "exampleAgent = NewMuxSession \<lparr>written = [], room = None\<rparr> RoleAgent (mux_config exampleMux)"

lemmas peer_defs = exampleMux_def exampleAgent_def NewMuxSession_def mux_exec_def open_defs
  handleFrame_def handleStreamOpen_def acceptPeerOpen_def ownsID_def deliverAccept_def drain_goto_def
  handleStreamReset_def handleStreamClose_def lookupStream_def streamReset_def onResetCallback_def
  dropID_def freeID_def Stream_Reset_def Reset_locked_def Reset_notify_def signalClosed_def
  writeLoop_step_def Dequeue_def

text \<open>The echo can kill another stream. The relay opens a stream, resets it and opens the
  next one, which gets the recycled identifier 1; exactly these three frames are on the
  wire. The agent handles them and has queued one frame on its control queue, the echo of
  the reset. When the relay handles that echo, its second stream, open on both ends until
  then, is reset and leaves the session map.\<close>
theorem echo_kills_recycled_stream:
  "\<exists>a b s t. a = mux_run exampleMux [ActOpen [], ActWriteLoop, ActStreamReset 0 7, ActOpen [], ActWriteLoop, ActWriteLoop] \<and>
     written (transport a) = frameBytes (openFrame 1) @ frameBytes (resetFrame 1 7) @ frameBytes (openFrame 1) \<and>
     b = mux_run exampleAgent [ActFrame (openFrame 1) True, ActFrame (resetFrame 1 7) True, ActFrame (openFrame 1) True] \<and>
     wq_control (writeQueue b) = [resetFrame 1 7] \<and>
     lookupStream a 1 = Some (1, s) \<and> state s = StateOpen \<and>
     lookupStream b 1 = Some (1, t) \<and> state t = StateOpen \<and>
     lookupStream (mux_exec a (ActFrame (resetFrame 1 7) True)) 1 = None \<and>
     (\<exists>s'. map_of (heap (mux_exec a (ActFrame (resetFrame 1 7) True))) 1 = Some s' \<and> state s' = StateReset)"
proof -
  let ?a = "mux_run exampleMux [ActOpen [], ActWriteLoop, ActStreamReset 0 7, ActOpen [], ActWriteLoop, ActWriteLoop]"
  let ?b = "mux_run exampleAgent [ActFrame (openFrame 1) True, ActFrame (resetFrame 1 7) True, ActFrame (openFrame 1) True]"
  have w: "written (transport ?a) = frameBytes (openFrame 1) @ frameBytes (resetFrame 1 7) @ frameBytes (openFrame 1)"
    by (simp add: peer_defs WriteFrame_unlimited MaxPayloadSize_def)
  have b: "wq_control (writeQueue ?b) = [resetFrame 1 7]"
    "\<exists>t. lookupStream ?b 1 = Some (1, t) \<and> state t = StateOpen"
    by (simp_all add: peer_defs)
  have a: "\<exists>s. lookupStream ?a 1 = Some (1, s) \<and> state s = StateOpen"
    "lookupStream (mux_exec ?a (ActFrame (resetFrame 1 7) True)) 1 = None"
    "\<exists>s'. map_of (heap (mux_exec ?a (ActFrame (resetFrame 1 7) True))) 1 = Some s' \<and> state s' = StateReset"
    by (simp_all add: peer_defs WriteFrame_unlimited MaxPayloadSize_def)
  show ?thesis using w b a by blast
qed

text \<open>A timed-out open can kill another open's stream. The peer resets a stream before its
  opener has the acknowledgement; the opener is not woken. A second open gets the recycled
  identifier and is acknowledged. When the first opener's context expires, its cleanup, which
  goes by identifier, removes and resets the second stream.\<close>
theorem open_timeout_kills_other:
  "\<exists>m s. m = mux_run exampleMux [ActOpen [], ActFrame (resetFrame 1 2) True, ActOpen [], ActFrame (ackFrame 1) True,
          ActOpenWait 1 1 WaitAck] \<and>
     \<not> open_wait_ready (mux_run exampleMux [ActOpen [], ActFrame (resetFrame 1 2) True]) 0 WaitAck \<and>
     lookupStream m 1 = Some (1, s) \<and> state s = StateOpen \<and>
     lookupStream (mux_exec m (ActOpenWait 1 0 (WaitCtx DeadlineExceeded))) 1 = None \<and>
     (\<exists>s'. map_of (heap (mux_exec m (ActOpenWait 1 0 (WaitCtx DeadlineExceeded)))) 1 = Some s' \<and>
        state s' = StateReset)"
proof -
  let ?m = "mux_run exampleMux [ActOpen [], ActFrame (resetFrame 1 2) True, ActOpen [], ActFrame (ackFrame 1) True,
          ActOpenWait 1 1 WaitAck]"
  have a: "\<not> open_wait_ready (mux_run exampleMux [ActOpen [], ActFrame (resetFrame 1 2) True]) 0 WaitAck"
    by (simp add: peer_defs open_wait_ready_def)
  have b: "\<exists>s. lookupStream ?m 1 = Some (1, s) \<and> state s = StateOpen"
    "lookupStream (mux_exec ?m (ActOpenWait 1 0 (WaitCtx DeadlineExceeded))) 1 = None"
    "\<exists>s'. map_of (heap (mux_exec ?m (ActOpenWait 1 0 (WaitCtx DeadlineExceeded)))) 1 = Some s' \<and> state s' = StateReset"
    by (simp_all add: peer_defs open_wait_ready_def OpenStream_wait_def cleanupPendingOpen_def removeStream_def)
  show ?thesis using a b by blast
qed

text \<open>Between the two halves of Close the peer's STREAM_CLOSE can be handled. Both then
  find the stream closed and both recycle its identifier, so the free list holds it twice and
  the next two opens get the same identifier, the second replacing the first in the
  session map while both objects are open.\<close>
theorem close_race_frees_twice:
  "\<exists>m0 m1 m2 m3 m4 m5. m0 = mux_run exampleMux [ActOpen []] \<and> streamClose_locked m0 0 = (m1, True) \<and>
     m2 = handleFrame m1 (finFrame 1) True \<and> m3 = streamClose_notify m2 0 \<and> freeIDs m3 = [1, 1] \<and>
     OpenStream_begin m3 [] = (Inr (1, 1), m4) \<and> OpenStream_begin m4 [] = (Inr (1, 2), m5) \<and>
     NumStreams m5 = 1 \<and>
     (\<exists>s t. map_of (heap m5) 1 = Some s \<and> map_of (heap m5) 2 = Some t \<and> state s = StateOpen \<and>
        state t = StateOpen \<and> ss_id s = 1 \<and> ss_id t = 1)"
  by (simp add: peer_defs streamClose_locked_def streamClose_notify_def Close_locked_def Close_notify_def
        RemoteClose_def maybeRemoveStream_def NumStreams_def)

end
