(* ===== verification/Byte_Path.thy ===== *)
theory Byte_Path
  imports Mux_Peer "HOL-Library.Sublist"
begin

text \<open>
  Two sessions joined by the codec: what one side's \<^verbatim>\<open>Write\<close> accepts is what the other side's reader
  finds.  The sender's half is the account of its drain goroutines in \<^verbatim>\<open>Mux_Runs\<close>, the receiver's
  half its frame handlers.
\<close>

section \<open>The bytes of a connection\<close>

lemma mux_inv_handleFrames: "mux_inv m \<Longrightarrow> mux_inv (handleFrames m fs)"
  by (induction fs arbitrary: m) (simp_all add: mux_inv_handleFrame)

lemma handleFrames_append: "handleFrames m (fs @ gs) = handleFrames (handleFrames m fs) gs"
  by (simp add: handleFrames_def)

lemma handleFrames_others:
  "mux_inv m \<Longrightarrow> map_of (heap m) r = Some s \<Longrightarrow> \<forall>f \<in> set fs. StreamID f \<noteq> ss_id s \<Longrightarrow>
   map_of (heap (handleFrames m fs)) r = Some s"
  by (induction fs arbitrary: m) (simp_all add: mux_inv_handleFrame handleFrame_other)

lemma fin_delivered:
  assumes "mux_inv m" "map_of (heap m) r = Some s" "live s"
  shows "map_of (heap (handleFrame m (finFrame (ss_id s)) pick)) r = Some (RemoteClose s)"
  using mux_inv_live [OF assms] assms(2)
  by (simp add: handleFrame_def handleStreamClose_def lookupStream_def maybeRemoveStream_after alist_maps)

lemma RemoteClose_effect:
  "state s \<in> {StateOpen, StateHalfClosedLocal} \<Longrightarrow>
   readBuf (RemoteClose s) = readBuf s \<and> isReadClosed (RemoteClose s) \<and> ss_id (RemoteClose s) = ss_id s"
  by (auto simp: RemoteClose_def isReadClosed_def signalClosed_def)

lemma handleFrames_id:
  assumes "mux_inv m" "map_of (heap m) r = Some s"
  shows "\<exists>s'. map_of (heap (handleFrames m fs)) r = Some s' \<and> ss_id s' = ss_id s"
  using assms
proof (induction fs arbitrary: m s)
  case (Cons f fs)
  have "tame r m (handleFrame m f True)" using Cons.prems(1) by (rule handleFrame_keeps)
  then obtain s1 where s1: "map_of (heap (handleFrame m f True)) r = Some s1" "ss_id s1 = ss_id s"
    using Cons.prems(2) by (auto simp: tame_def quiet_def)
  from Cons.IH [OF mux_inv_handleFrame [OF Cons.prems(1)] s1(1)] s1(2) show ?case by simp
qed simp

lemma filter_append_split: "filter P fs = xs @ ys \<Longrightarrow> \<exists>gs hs. fs = gs @ hs \<and> filter P gs = xs \<and> filter P hs = ys"
proof (induction xs arbitrary: fs)
  case (Cons x xs)
  then obtain us vs where f: "fs = us @ x # vs" "\<forall>u \<in> set us. \<not> P u" "P x" "filter P vs = xs @ ys"
    using filter_eq_ConsD [of P fs x "xs @ ys"] by auto
  from Cons.IH [OF f(4)] obtain gs hs where "vs = gs @ hs" "filter P gs = xs" "filter P hs = ys" by blast
  with f show ?case by (intro exI [of _ "us @ x # gs"] exI [of _ hs]) (auto simp: filter_empty_conv)
qed (auto intro: exI [of _ "[]"])

text \<open>A list of frames whose part for stream \<open>s\<close> is the data \<open>ps\<close>, and then the close if \<open>fin\<close>.\<close>
lemma receive_stream:
  assumes "mux_inv m" "map_of (heap m) r = Some s" "state s \<in> {StateOpen, StateHalfClosedLocal}"
    "filter (\<lambda>f. StreamID f = ss_id s) fs = map (dataFrame (ss_id s)) ps @ (if fin then [finFrame (ss_id s)] else [])"
  shows "\<exists>s'. map_of (heap (handleFrames m fs)) r = Some s' \<and> readBuf s' = readBuf s @ concat ps \<and> (fin \<longrightarrow> isReadClosed s')"
proof -
  let ?mine = "\<lambda>f. StreamID f = ss_id s"
  have live: "live s" using assms(3) by (auto simp: live_def)
  have plain: "plainData (ss_id s) gs \<and> payloadFor (ss_id s) gs = concat ps"
    if "filter ?mine gs = map (dataFrame (ss_id s)) ps" for gs
  proof -
    have "\<forall>f \<in> set gs. ?mine f \<longrightarrow> f \<in> set (map (dataFrame (ss_id s)) ps)" unfolding that [symmetric] by simp
    then show ?thesis by (auto simp: plainData_def payloadFor_def list_all_iff that comp_def)
  qed
  show ?thesis
  proof (cases fin)
    case False
    then show ?thesis using handleFrames_deliver [OF assms(1,2) live, of fs] plain [of fs] assms(4) by auto
  next
    case True
    then have "filter ?mine fs = map (dataFrame (ss_id s)) ps @ [finFrame (ss_id s)]" using assms(4) by simp
    from filter_append_split [OF this] obtain gs hs where split: "fs = gs @ hs" "filter ?mine gs = map (dataFrame (ss_id s)) ps"
      "filter ?mine hs = [finFrame (ss_id s)]" by blast
    obtain us vs where hs: "hs = us @ finFrame (ss_id s) # vs" "\<forall>f \<in> set us. \<not> ?mine f" "[] = filter ?mine vs"
      using filter_eq_ConsD [OF split(3)] by blast
    have vs: "\<forall>f \<in> set vs. \<not> ?mine f" using hs(3) [symmetric] unfolding filter_empty_conv .
    let ?m = "handleFrames m (gs @ us)"
    have "filter ?mine (gs @ us) = map (dataFrame (ss_id s)) ps"
      using split(2) filter_False [of us ?mine] hs(2) by (simp del: filter_False)
    from plain [OF this] have data: "plainData (ss_id s) (gs @ us)" "payloadFor (ss_id s) (gs @ us) = concat ps" by blast+
    from handleFrames_deliver [OF assms(1,2) live data(1), unfolded data(2)] obtain s1 where s1:
      "map_of (heap ?m) r = Some s1" "state s1 = state s" "readBuf s1 = readBuf s @ concat ps" by blast
    have id: "ss_id s1 = ss_id s" using handleFrames_id [OF assms(1,2), of "gs @ us"] s1(1) by auto
    have st: "state s1 \<in> {StateOpen, StateHalfClosedLocal}" "live s1" using assms(3) s1(2) by (auto simp: live_def)
    note inv = mux_inv_handleFrames [OF assms(1), of "gs @ us"]
    from fin_delivered [OF inv s1(1) st(2), of True] id have fin:
      "map_of (heap (handleFrame ?m (finFrame (ss_id s)) True)) r = Some (RemoteClose s1)" by simp
    have "map_of (heap (handleFrames (handleFrame ?m (finFrame (ss_id s)) True) vs)) r = Some (RemoteClose s1)"
      by (rule handleFrames_others [OF mux_inv_handleFrame [OF inv] fin]) (use vs id RemoteClose_effect [OF st(1)] in simp)
    then have "map_of (heap (handleFrames m fs)) r = Some (RemoteClose s1)"
      by (simp add: split(1) hs(1) handleFrames_append)
    then show ?thesis using RemoteClose_effect [OF st(1)] s1(3) by auto
  qed
qed



end
