(* ===== verification/Registry.thy ===== *)
theory Registry
  imports Mux_Runs
begin

text \<open>
  Agent connections, the in-memory registry and the metrics it drives:
  \<^verbatim>\<open>src/pkg/relay/connection.go\<close>, \<^verbatim>\<open>registry.go\<close>, \<^verbatim>\<open>registry_impl.go\<close>, \<^verbatim>\<open>metrics.go\<close>.

  A connection is an object named by a reference; the registry maps customers to
  references and \<open>conns\<close> is the store.  Prometheus is outside the sources: a metrics object
  is the list of calls made on its vectors.  The clock is an argument.  The locale states
  what the router, the server and the admin interface rely on.
\<close>

section \<open>Connections\<close>

type_synonym cref = nat

record LiveConnection =
  lc_customerID :: string
  lc_mux :: MuxSession
  lc_remoteAddr :: string
  lc_connectedAt :: int
  lc_lastSeen :: int
  lc_services :: "string list"
  lc_certNotAfter :: int

definition NewLiveConnection :: "string \<Rightarrow> MuxSession \<Rightarrow> string \<Rightarrow> int \<Rightarrow> LiveConnection" where
  "NewLiveConnection customerID mux remoteAddr now =
     \<lparr>lc_customerID = customerID, lc_mux = mux, lc_remoteAddr = remoteAddr, lc_connectedAt = now,
      lc_lastSeen = now, lc_services = [], lc_certNotAfter = 0\<rparr>"

definition UpdateLastSeen :: "LiveConnection \<Rightarrow> int \<Rightarrow> LiveConnection" where
  "UpdateLastSeen c now = c\<lparr>lc_lastSeen := now\<rparr>"

definition SetServices :: "LiveConnection \<Rightarrow> string list \<Rightarrow> LiveConnection" where
  "SetServices c services = c\<lparr>lc_services := services\<rparr>"

definition SetCertNotAfter :: "LiveConnection \<Rightarrow> int \<Rightarrow> LiveConnection" where
  "SetCertNotAfter c t = c\<lparr>lc_certNotAfter := t\<rparr>"

definition Connection_Close :: "LiveConnection \<Rightarrow> LiveConnection" where
  "Connection_Close c = c\<lparr>lc_mux := Mux_Close (lc_mux c)\<rparr>"

section \<open>Metrics\<close>

datatype metric_vec = StreamsTotal | StreamsActive | ConnectionsTotal | ConnectionsActive | ClientsRejected

datatype prom_call = Inc metric_vec "string list" | Dec metric_vec "string list"

type_synonym Metrics = "prom_call list"

definition StreamOpened :: "Metrics \<Rightarrow> string \<Rightarrow> Metrics" where
  "StreamOpened m customerID = m @ [Inc StreamsTotal [customerID], Inc StreamsActive [customerID]]"

definition StreamClosed :: "Metrics \<Rightarrow> string \<Rightarrow> Metrics" where
  "StreamClosed m customerID = m @ [Dec StreamsActive [customerID]]"

definition ConnectionRegistered :: "Metrics \<Rightarrow> string \<Rightarrow> Metrics" where
  "ConnectionRegistered m customerID =
     m @ [Inc ConnectionsTotal [customerID], Inc ConnectionsActive [customerID]]"

definition ConnectionUnregistered :: "Metrics \<Rightarrow> string \<Rightarrow> Metrics" where
  "ConnectionUnregistered m customerID = m @ [Dec ConnectionsActive [customerID]]"

definition ClientRejected :: "Metrics \<Rightarrow> string \<Rightarrow> string \<Rightarrow> Metrics" where
  "ClientRejected m customerID reason = m @ [Inc ClientsRejected [customerID, reason]]"

text \<open>The value of a vector under one set of labels: increments minus decrements.\<close>
fun promValue :: "metric_vec \<Rightarrow> string list \<Rightarrow> Metrics \<Rightarrow> int" where
  "promValue v ls [] = 0"
| "promValue v ls (Inc w ks # m) = (if w = v \<and> ks = ls then 1 else 0) + promValue v ls m"
| "promValue v ls (Dec w ks # m) = (if w = v \<and> ks = ls then -1 else 0) + promValue v ls m"

lemma promValue_append [simp]: "promValue v ls (m @ m') = promValue v ls m + promValue v ls m'"
  by (induction v ls m rule: promValue.induct) simp_all

section \<open>The registry\<close>

record MemoryRegistry =
  conns :: "(cref, LiveConnection) gomap"
  agents :: "(string, cref) gomap"
  customerLimits :: "(string, int) gomap"
  reg_metrics :: "Metrics option"

datatype registry_error = ErrAgentNotFound string

definition NewMemoryRegistry :: MemoryRegistry where
  "NewMemoryRegistry = \<lparr>conns = [], agents = [], customerLimits = [], reg_metrics = None\<rparr>"

definition Registry_SetMetrics :: "MemoryRegistry \<Rightarrow> Metrics \<Rightarrow> MemoryRegistry" where
  "Registry_SetMetrics r m = r\<lparr>reg_metrics := Some m\<rparr>"

definition SetCustomerLimit :: "MemoryRegistry \<Rightarrow> string \<Rightarrow> int \<Rightarrow> MemoryRegistry" where
  "SetCustomerLimit r customerID maxConns =
     r\<lparr>customerLimits := AList.update customerID maxConns (customerLimits r)\<rparr>"

text \<open>A method call on a stored connection.\<close>
definition onConn :: "MemoryRegistry \<Rightarrow> cref \<Rightarrow> (LiveConnection \<Rightarrow> LiveConnection) \<Rightarrow> MemoryRegistry" where
  "onConn r c g =
     (case map_of (conns r) c of None \<Rightarrow> r | Some x \<Rightarrow> r\<lparr>conns := AList.update c (g x) (conns r)\<rparr>)"

definition limitOf :: "MemoryRegistry \<Rightarrow> string \<Rightarrow> int" where
  "limitOf r customerID =
     (let limit = (case map_of (customerLimits r) customerID of None \<Rightarrow> 0 | Some n \<Rightarrow> n)
      in if limit \<le> 0 then 1 else limit)"

definition Register :: "MemoryRegistry \<Rightarrow> string \<Rightarrow> cref \<Rightarrow> MemoryRegistry" where
  "Register r customerID newConn =
     (let r0 = r\<lparr>agents := AList.update customerID newConn (agents r)\<rparr>;
          r1 =
            (case map_of (agents r) customerID of
               Some old \<Rightarrow>
                 if limitOf r customerID = 1 then
                   onConn (onConn (r0\<lparr>reg_metrics := map_option (\<lambda>m. ConnectionUnregistered m customerID) (reg_metrics r0)\<rparr>)
                      old (\<lambda>c. c\<lparr>lc_mux := GoAway (lc_mux c) 0\<rparr>)) old Connection_Close
                 else r0
             | None \<Rightarrow> r0)
      in r1\<lparr>reg_metrics := map_option (\<lambda>m. ConnectionRegistered m customerID) (reg_metrics r1)\<rparr>)"

definition Unregister :: "MemoryRegistry \<Rightarrow> string \<Rightarrow> MemoryRegistry" where
  "Unregister r customerID =
     (case map_of (agents r) customerID of
        None \<Rightarrow> r
      | Some conn \<Rightarrow>
          onConn (r\<lparr>agents := AList.delete customerID (agents r),
                    reg_metrics := map_option (\<lambda>m. ConnectionUnregistered m customerID) (reg_metrics r)\<rparr>)
             conn Connection_Close)"

definition Lookup :: "MemoryRegistry \<Rightarrow> string \<Rightarrow> registry_error + cref" where
  "Lookup r customerID =
     (case map_of (agents r) customerID of None \<Rightarrow> Inl (ErrAgentNotFound customerID) | Some c \<Rightarrow> Inr c)"

definition Heartbeat :: "MemoryRegistry \<Rightarrow> string \<Rightarrow> int \<Rightarrow> registry_error option \<times> MemoryRegistry" where
  "Heartbeat r customerID now =
     (case map_of (agents r) customerID of
        None \<Rightarrow> (Some (ErrAgentNotFound customerID), r)
      | Some c \<Rightarrow> (None, onConn r c (\<lambda>x. UpdateLastSeen x now)))"

record AgentInfo =
  ai_CustomerID :: string
  ai_RemoteAddr :: string
  ai_ConnectedAt :: int
  ai_LastSeen :: int
  ai_StreamCount :: int
  ai_Services :: "string list"
  ai_CertNotAfter :: int

definition agentInfo :: "LiveConnection \<Rightarrow> AgentInfo" where
  "agentInfo c =
     \<lparr>ai_CustomerID = lc_customerID c, ai_RemoteAddr = lc_remoteAddr c, ai_ConnectedAt = lc_connectedAt c,
      ai_LastSeen = lc_lastSeen c, ai_StreamCount = NumStreams (lc_mux c), ai_Services = lc_services c,
      ai_CertNotAfter = lc_certNotAfter c\<rparr>"

text \<open>Go iterates a map in no particular order; the model lists the entries in table order.\<close>
definition ListConnectedAgents :: "MemoryRegistry \<Rightarrow> AgentInfo list" where
  "ListConnectedAgents r =
     concat (map (\<lambda>(_, c). case map_of (conns r) c of None \<Rightarrow> [] | Some x \<Rightarrow> [agentInfo x]) (agents r))"

section \<open>The registry interface\<close>

text \<open>A history of registrations and removals, and the connection a customer ends up with.\<close>
datatype registry_op = RegOp string cref | UnregOp string

fun lastBinding :: "string \<Rightarrow> cref option \<Rightarrow> registry_op list \<Rightarrow> cref option" where
  "lastBinding k v [] = v"
| "lastBinding k v (RegOp c x # ops) = lastBinding k (if c = k then Some x else v) ops"
| "lastBinding k v (UnregOp c # ops) = lastBinding k (if c = k then None else v) ops"

locale agent_registry =
  fixes register :: "'r \<Rightarrow> string \<Rightarrow> cref \<Rightarrow> 'r"
    and unregister :: "'r \<Rightarrow> string \<Rightarrow> 'r"
    and bound :: "'r \<Rightarrow> string \<Rightarrow> cref option"
  assumes bound_register: "bound (register r c x) = (bound r)(c \<mapsto> x)"
    and bound_unregister: "bound (unregister r c) = (bound r)(c := None)"
begin

definition replay :: "'r \<Rightarrow> registry_op list \<Rightarrow> 'r" where
  "replay r ops = foldl (\<lambda>s op. case op of RegOp c x \<Rightarrow> register s c x | UnregOp c \<Rightarrow> unregister s c) r ops"

lemma bound_replay: "bound (replay r ops) k = lastBinding k (bound r k) ops"
proof (induction ops arbitrary: r)
  case (Cons op ops)
  then show ?case by (cases op) (simp_all add: replay_def bound_register bound_unregister)
qed (simp add: replay_def)

lemma other_customers_unaffected:
  assumes "\<And>op. op \<in> set ops \<Longrightarrow> (case op of RegOp c _ \<Rightarrow> c | UnregOp c \<Rightarrow> c) \<noteq> k"
  shows "bound (replay r ops) k = bound r k"
proof -
  have "lastBinding k v ops = v" for v
    using assms by (induction k v ops rule: lastBinding.induct) fastforce+
  then show ?thesis by (simp add: bound_replay)
qed

end

definition lookupConn :: "MemoryRegistry \<Rightarrow> string \<Rightarrow> cref option" where
  "lookupConn r c = (case Lookup r c of Inr x \<Rightarrow> Some x | Inl _ \<Rightarrow> None)"

lemma lookupConn_agents: "lookupConn r c = map_of (agents r) c"
  by (simp add: lookupConn_def Lookup_def split: option.splits)

lemma onConn_fields [simp]:
  "agents (onConn r c g) = agents r" "customerLimits (onConn r c g) = customerLimits r"
  "reg_metrics (onConn r c g) = reg_metrics r"
  by (simp_all add: onConn_def split: option.splits)

lemma Register_agents [simp]:
  "agents (Register r c x) = AList.update c x (agents r)"
  "customerLimits (Register r c x) = customerLimits r"
  by (simp_all add: Register_def Let_def split: option.splits)

lemma Unregister_agents [simp]:
  "agents (Unregister r c) = AList.delete c (agents r)"
  "customerLimits (Unregister r c) = customerLimits r"
  by (auto simp: Unregister_def map_of_eq_None_iff intro!: AList.delete_id [symmetric]
           split: option.splits)

interpretation mem: agent_registry Register Unregister lookupConn
  by unfold_locales (auto simp: lookupConn_agents alist_maps)

definition registry_run :: "MemoryRegistry \<Rightarrow> registry_op list \<Rightarrow> MemoryRegistry" where
  "registry_run r ops =
     foldl (\<lambda>s op. case op of RegOp c x \<Rightarrow> Register s c x | UnregOp c \<Rightarrow> Unregister s c) r ops"

lemma registry_run_replay: "registry_run = mem.replay"
  by (rule ext)+ (simp add: registry_run_def mem.replay_def)

text \<open>C36. After any history of registrations and removals a lookup returns the connection the
  customer registered last, unless it was removed since, and fails otherwise; what other
  customers did makes no difference.\<close>
theorem registry_last_wins:
  "Lookup (registry_run NewMemoryRegistry ops) k =
     (case lastBinding k None ops of None \<Rightarrow> Inl (ErrAgentNotFound k) | Some x \<Rightarrow> Inr x)"
  using mem.bound_replay [of NewMemoryRegistry ops k]
  by (simp add: registry_run_replay lookupConn_agents Lookup_def NewMemoryRegistry_def)

section \<open>Replaced connections are closed\<close>

definition connClosed :: "LiveConnection \<Rightarrow> bool" where
  "connClosed c = closeCh (lc_mux c)"

text \<open>Every stored connection is either the current one of some customer or closed.\<close>
definition noLeak :: "MemoryRegistry \<Rightarrow> bool" where
  "noLeak r \<longleftrightarrow>
     (\<forall>c x. map_of (conns r) c = Some x \<longrightarrow> (\<exists>k. map_of (agents r) k = Some c) \<or> connClosed x)"

text \<open>The listener stores a new connection object and registers it.\<close>
definition connect :: "MemoryRegistry \<Rightarrow> string \<Rightarrow> cref \<Rightarrow> LiveConnection \<Rightarrow> MemoryRegistry" where
  "connect r k c x = Register (r\<lparr>conns := AList.update c x (conns r)\<rparr>) k c"

datatype conn_op = ConnOp string LiveConnection | DropOp string

text \<open>A history of the relay: agents connect, each as a new object, and are removed.\<close>
fun sessions :: "MemoryRegistry \<Rightarrow> cref \<Rightarrow> conn_op list \<Rightarrow> MemoryRegistry" where
  "sessions r n [] = r"
| "sessions r n (ConnOp k x # ops) = sessions (connect r k n x) (n + 1) ops"
| "sessions r n (DropOp k # ops) = sessions (Unregister r k) n ops"

definition activeGauge :: "MemoryRegistry \<Rightarrow> string \<Rightarrow> int" where
  "activeGauge r k = (case reg_metrics r of None \<Rightarrow> 0 | Some m \<Rightarrow> promValue ConnectionsActive [k] m)"

text \<open>Invariant of those histories at the default limit of one connection per customer.\<close>
definition registry_inv :: "MemoryRegistry \<Rightarrow> cref \<Rightarrow> bool" where
  "registry_inv r n \<longleftrightarrow> noLeak r \<and> (\<forall>k. limitOf r k = 1) \<and> reg_metrics r \<noteq> None \<and>
     (\<forall>c x. map_of (conns r) c = Some x \<longrightarrow> c < n) \<and>
     (\<forall>k c. map_of (agents r) k = Some c \<longrightarrow> c < n \<and> map_of (conns r) c \<noteq> None) \<and>
     (\<forall>k k' c. map_of (agents r) k = Some c \<and> map_of (agents r) k' = Some c \<longrightarrow> k = k') \<and>
     (\<forall>k. activeGauge r k = (if map_of (agents r) k = None then 0 else 1))"

lemma closeCh_Mux_Close [simp]: "closeCh (Mux_Close m)"
proof (cases "closeCh m")
  case False
  let ?m1 = "m\<lparr>closeCh := True, writeQueue := WriteQueue_Close (writeQueue m)\<rparr>"
  have "steady ?m1 (foldl (\<lambda>x r. streamReset x r 0) ?m1 (map snd (streams m)))"
    using resetAll_keeps by blast
  then show ?thesis using False by (simp add: Mux_Close_def Let_def steady_def)
qed (simp add: Mux_Close_def)

lemma connClosed_Close [simp]: "connClosed (Connection_Close c)"
  by (simp add: connClosed_def Connection_Close_def)

lemma conns_onConn:
  "map_of (conns (onConn r c g)) d = (if d = c then map_option g (map_of (conns r) c) else map_of (conns r) d)"
  by (auto simp: onConn_def update_conv' split: option.splits)

lemma limitOf_cong: "customerLimits r' = customerLimits r \<Longrightarrow> limitOf r' k = limitOf r k"
  by (simp add: limitOf_def)

lemma conns_Unregister:
  "map_of (conns (Unregister r k)) d =
     (if map_of (agents r) k = Some d then map_option Connection_Close (map_of (conns r) d)
      else map_of (conns r) d)"
  by (auto simp: Unregister_def conns_onConn split: option.splits)

lemma gauge_Unregister:
  "reg_metrics r \<noteq> None \<Longrightarrow> activeGauge (Unregister r k) j =
     activeGauge r j - (if j = k \<and> map_of (agents r) k \<noteq> None then 1 else 0)"
  by (auto simp: Unregister_def activeGauge_def ConnectionUnregistered_def split: option.splits)

lemma noLeak_Unregister:
  assumes "noLeak r" shows "noLeak (Unregister r k)"
  unfolding noLeak_def
proof (intro allI impI)
  fix c x assume c: "map_of (conns (Unregister r k)) c = Some x"
  show "(\<exists>j. map_of (agents (Unregister r k)) j = Some c) \<or> connClosed x"
  proof (cases "map_of (agents r) k = Some c")
    case True
    then show ?thesis using c by (auto simp: conns_Unregister)
  next
    case False
    then have "map_of (conns r) c = Some x" using c by (simp add: conns_Unregister)
    then consider j where "map_of (agents r) j = Some c" | "connClosed x"
      using assms unfolding noLeak_def by blast
    then show ?thesis using False by cases (auto simp: delete_conv')
  qed
qed

lemma registry_inv_Unregister:
  assumes "registry_inv r n" shows "registry_inv (Unregister r k) n"
proof -
  have "noLeak (Unregister r k)" using assms noLeak_Unregister by (simp add: registry_inv_def)
  moreover have "reg_metrics (Unregister r k) \<noteq> None"
    using assms by (auto simp: registry_inv_def Unregister_def split: option.splits)
  moreover have "\<forall>j. limitOf (Unregister r k) j = 1"
    using assms limitOf_cong [of "Unregister r k" r] by (simp add: registry_inv_def)
  moreover have "activeGauge (Unregister r k) j = (if map_of (agents (Unregister r k)) j = None then 0 else 1)" for j
    using assms gauge_Unregister [of r k j] by (simp add: registry_inv_def delete_conv')
  ultimately show ?thesis
    using assms by (auto simp: registry_inv_def conns_Unregister delete_conv' split: if_splits)
qed

text \<open>Registration at limit one: remove the old connection as \<^verbatim>\<open>Unregister\<close> would, then add.\<close>
lemma conns_connect:
  assumes "limitOf r k = 1" "map_of (agents r) k \<noteq> Some c"
  shows "map_of (conns (connect r k c x)) d =
    (if d = c then Some x
     else if map_of (agents r) k = Some d
          then map_option (\<lambda>z. Connection_Close (z\<lparr>lc_mux := GoAway (lc_mux z) 0\<rparr>)) (map_of (conns r) d)
          else map_of (conns r) d)"
proof -
  have "limitOf (r\<lparr>conns := z\<rparr>) k = 1" for z using assms(1) by (simp add: limitOf_def)
  then show ?thesis
    using assms(2)
    by (auto simp: connect_def Register_def Let_def conns_onConn update_conv' option.map_comp comp_def
          split: option.splits)
qed

lemma gauge_connect:
  assumes "limitOf r k = 1" "reg_metrics r \<noteq> None"
  shows "activeGauge (connect r k c x) j =
    activeGauge r j + (if j = k \<and> map_of (agents r) k = None then 1 else 0)"
proof -
  have "limitOf (r\<lparr>conns := z\<rparr>) k = 1" for z using assms(1) by (simp add: limitOf_def)
  then show ?thesis
    using assms(2)
    by (auto simp: connect_def Register_def Let_def activeGauge_def ConnectionRegistered_def
          ConnectionUnregistered_def split: option.splits)
qed

lemma noLeak_connect:
  assumes "noLeak r" "limitOf r k = 1" "map_of (agents r) k \<noteq> Some n"
  shows "noLeak (connect r k n x)"
  unfolding noLeak_def
proof (intro allI impI)
  note C = conns_connect [OF assms(2,3), of x]
  have ag: "agents (connect r k n x) = AList.update k n (agents r)" by (simp add: connect_def)
  fix c y assume c: "map_of (conns (connect r k n x)) c = Some y"
  show "(\<exists>j. map_of (agents (connect r k n x)) j = Some c) \<or> connClosed y"
  proof (cases "c = n \<or> map_of (agents r) k = Some c")
    case True
    then show ?thesis using c assms(3) by (auto simp: C ag update_conv' split: if_splits)
  next
    case False
    then have "map_of (conns r) c = Some y" using c by (simp add: C)
    then consider j where "map_of (agents r) j = Some c" | "connClosed y"
      using assms unfolding noLeak_def by blast
    then show ?thesis using False by cases (auto simp: ag update_conv')
  qed
qed

lemma registry_inv_connect:
  assumes "registry_inv r n" shows "registry_inv (connect r k n x) (n + 1)"
proof -
  have lim: "limitOf r k = 1" and met: "reg_metrics r \<noteq> None" and fresh: "map_of (agents r) k \<noteq> Some n"
    using assms by (auto simp: registry_inv_def)
  note C = conns_connect [OF lim fresh, of x]
  have ag: "agents (connect r k n x) = AList.update k n (agents r)" by (simp add: connect_def)
  have "noLeak (connect r k n x)" using noLeak_connect [OF _ lim fresh] assms by (simp add: registry_inv_def)
  moreover have "reg_metrics (connect r k n x) \<noteq> None"
    using met by (auto simp: connect_def Register_def Let_def split: option.splits)
  moreover have "\<forall>j. limitOf (connect r k n x) j = 1"
    using assms limitOf_cong [of "connect r k n x" r] by (simp add: registry_inv_def connect_def)
  moreover have "activeGauge (connect r k n x) j = (if map_of (agents (connect r k n x)) j = None then 0 else 1)" for j
    using assms gauge_connect [OF lim met, of n x j] by (simp add: registry_inv_def ag update_conv')
  ultimately show ?thesis
    using assms by (auto simp: registry_inv_def C ag update_conv' less_Suc_eq split: if_splits)
qed

lemma registry_inv_sessions: "registry_inv r n \<Longrightarrow> \<exists>n'. registry_inv (sessions r n ops) n'"
  by (induction r n ops rule: sessions.induct)
     (auto simp: registry_inv_Unregister registry_inv_connect [simplified])

text \<open>At the default limit, over any history of agents connecting and being removed, every
  connection that is not the current one of its customer has had its session closed, and the
  active-connections gauge of each customer is 1 when the customer is registered and 0
  otherwise.\<close>
theorem replaced_connections_closed:
  assumes "\<forall>k. limitOf r k = 1" "conns r = []" "agents r = []" "reg_metrics r = Some []"
  shows "noLeak (sessions r 0 ops) \<and>
    activeGauge (sessions r 0 ops) k = (if map_of (agents (sessions r 0 ops)) k = None then 0 else 1)"
proof -
  have "registry_inv r 0" using assms by (simp add: registry_inv_def noLeak_def activeGauge_def)
  from registry_inv_sessions [OF this] show ?thesis unfolding registry_inv_def by blast
qed

definition exampleConn :: LiveConnection where
  "exampleConn = NewLiveConnection ''customer-1'' exampleMux ''10.0.0.1:9'' 0"

theorem replaced_connections_closed_witness:
  "\<exists>r. r = Registry_SetMetrics NewMemoryRegistry [] \<and>
     (let r' = sessions r 0 [ConnOp ''customer-1'' exampleConn, ConnOp ''customer-1'' exampleConn] in
      noLeak r' \<and> activeGauge r' ''customer-1'' = 1)"
proof -
  let ?r = "Registry_SetMetrics NewMemoryRegistry []"
  let ?ops = "[ConnOp ''customer-1'' exampleConn, ConnOp ''customer-1'' exampleConn]"
  have "\<forall>k. limitOf ?r k = 1" "conns ?r = []" "agents ?r = []" "reg_metrics ?r = Some []"
    by (simp_all add: Registry_SetMetrics_def NewMemoryRegistry_def limitOf_def)
  note t = replaced_connections_closed [OF this, of ?ops "''customer-1''"]
  have "map_of (agents (sessions ?r 0 ?ops)) ''customer-1'' = Some 1"
    by (simp add: connect_def update_conv')
  with t have "activeGauge (sessions ?r 0 ?ops) ''customer-1'' = 1" by (simp only: option.distinct if_False)
  with t show ?thesis unfolding Let_def by blast
qed

text \<open>With a limit above one a second registration neither rejects the new connection nor
  closes the old one: the old session stays open, is reachable through no customer, and the
  gauge counts it for good.\<close>
theorem limit_above_one_leaks:
  "let r = SetCustomerLimit (Registry_SetMetrics NewMemoryRegistry []) ''customer-1'' 2;
       r' = sessions r 0 [ConnOp ''customer-1'' exampleConn, ConnOp ''customer-1'' exampleConn,
              DropOp ''customer-1'']
   in agents r' = [] \<and> activeGauge r' ''customer-1'' = 1 \<and>
      (\<exists>c. map_of (conns r') 0 = Some c \<and> \<not> connClosed c)"
  by (simp add: Let_def SetCustomerLimit_def Registry_SetMetrics_def NewMemoryRegistry_def connect_def
        Register_def limitOf_def Unregister_def onConn_def activeGauge_def ConnectionRegistered_def
        ConnectionUnregistered_def connClosed_def exampleConn_def NewLiveConnection_def exampleMux_def
        NewMuxSession_def)

text \<open>Each customer's current connection carries that customer's identity.\<close>
definition owner_inv :: "MemoryRegistry \<Rightarrow> cref \<Rightarrow> bool" where
  "owner_inv r n \<longleftrightarrow> (\<forall>k c. map_of (agents r) k = Some c \<longrightarrow>
     c < n \<and> (\<exists>x. map_of (conns r) c = Some x \<and> lc_customerID x = k))"

lemma customerID_keeps [simp]:
  "lc_customerID (Connection_Close c) = lc_customerID c"
  by (simp add: Connection_Close_def)

lemma connect_keeps_owner:
  "\<exists>y. map_of (conns (connect r k c x)) d = Some y \<and> lc_customerID y = lc_customerID z"
  if "(if d = c then Some x else map_of (conns r) d) = Some z"
  using that
  by (auto simp: connect_def Register_def Let_def conns_onConn update_conv' split: option.splits if_splits)

lemma owner_inv_connect:
  assumes "owner_inv r n" "lc_customerID x = k" shows "owner_inv (connect r k n x) (Suc n)"
proof -
  have ag: "agents (connect r k n x) = AList.update k n (agents r)" by (simp add: connect_def)
  have "c < Suc n \<and> (\<exists>y. map_of (conns (connect r k n x)) c = Some y \<and> lc_customerID y = j)"
    if a: "map_of (agents (connect r k n x)) j = Some c" for j c
  proof (cases "j = k")
    case True
    then show ?thesis using a connect_keeps_owner [where d = n and c = n and x = x and z = x] assms(2)
      by (auto simp: ag update_conv')
  next
    case False
    then have "map_of (agents r) j = Some c" using a by (simp add: ag update_conv')
    then obtain z where z: "c < n" "map_of (conns r) c = Some z" "lc_customerID z = j"
      using assms(1) by (auto simp: owner_inv_def)
    with connect_keeps_owner [of c n x r z k] show ?thesis by auto
  qed
  then show ?thesis by (simp add: owner_inv_def)
qed

lemma owner_inv_Unregister: "owner_inv r n \<Longrightarrow> owner_inv (Unregister r k) n"
  by (fastforce simp: owner_inv_def conns_Unregister delete_conv' split: if_splits)

lemma owner_inv_sessions:
  "owner_inv r n \<Longrightarrow> list_all (\<lambda>op. case op of ConnOp k x \<Rightarrow> lc_customerID x = k | DropOp _ \<Rightarrow> True) ops \<Longrightarrow>
   \<exists>n'. owner_inv (sessions r n ops) n'"
  by (induction r n ops rule: sessions.induct) (auto simp: owner_inv_connect owner_inv_Unregister)

text \<open>Registration and removal never mix customers up: when the listener registers each
  connection under its own identity, whatever the limits, the connection a lookup finds for a
  customer was created for that customer, and it is among the agents listed.\<close>
theorem listed_agents_match:
  assumes "list_all (\<lambda>op. case op of ConnOp k x \<Rightarrow> lc_customerID x = k | DropOp _ \<Rightarrow> True) ops"
    "conns r = []" "agents r = []" "Lookup (sessions r 0 ops) k = Inr c"
  shows "\<exists>x. map_of (conns (sessions r 0 ops)) c = Some x \<and> lc_customerID x = k \<and>
    agentInfo x \<in> set (ListConnectedAgents (sessions r 0 ops))"
proof -
  have "owner_inv r 0" using assms(3) by (simp add: owner_inv_def)
  from owner_inv_sessions [OF this assms(1)] obtain n where o: "owner_inv (sessions r 0 ops) n" by blast
  have k: "map_of (agents (sessions r 0 ops)) k = Some c"
    using assms(4) by (simp add: Lookup_def split: option.splits)
  with o obtain x where x: "map_of (conns (sessions r 0 ops)) c = Some x" "lc_customerID x = k"
    by (auto simp: owner_inv_def)
  have "agentInfo x \<in> set (ListConnectedAgents (sessions r 0 ops))"
    using map_of_SomeD [OF k] x(1) by (force simp: ListConnectedAgents_def)
  with x show ?thesis by blast
qed

theorem listed_agents_match_witness:
  "\<exists>x. map_of (conns (sessions NewMemoryRegistry 0 [ConnOp ''customer-1'' exampleConn])) 0 = Some x \<and>
     lc_customerID x = ''customer-1''"
proof -
  let ?ops = "[ConnOp ''customer-1'' exampleConn]"
  have "list_all (\<lambda>op. case op of ConnOp k x \<Rightarrow> lc_customerID x = k | DropOp _ \<Rightarrow> True) ?ops"
    by (simp add: exampleConn_def NewLiveConnection_def)
  moreover have "Lookup (sessions NewMemoryRegistry 0 ?ops) ''customer-1'' = Inr 0"
    by (simp add: Lookup_def connect_def update_conv')
  ultimately have "\<exists>x. map_of (conns (sessions NewMemoryRegistry 0 ?ops)) 0 = Some x \<and>
    lc_customerID x = ''customer-1'' \<and> agentInfo x \<in> set (ListConnectedAgents (sessions NewMemoryRegistry 0 ?ops))"
    by (intro listed_agents_match) (simp_all add: NewMemoryRegistry_def)
  then show ?thesis by blast
qed

end
