(* ===== verification/Router.thy ===== *)
theory Router
  imports Registry
begin

text \<open>
  The port router: \<^verbatim>\<open>src/pkg/relay/router.go\<close>, \<^verbatim>\<open>router_impl.go\<close>.  The router holds the port
  table; the agent connections live in the registry, whose state \<^verbatim>\<open>Route\<close> threads through.
  \<^verbatim>\<open>Route\<close> is split where \<^verbatim>\<open>OpenStreamWithPayload\<close> waits.  The locale states what the admin
  interface and the client listener rely on from a port table.
\<close>

section \<open>The port table\<close>

record portEntry =
  pe_customerID :: string
  pe_service :: string
  pe_maxStreams :: int
  pe_listenAddr :: string

record PortRouter =
  portMap :: "(int, portEntry) gomap"
  rt_metrics :: "Metrics option"

datatype router_error = ErrPortNotFound | ErrNoMapping int string

definition NewPortRouter :: PortRouter where
  "NewPortRouter = \<lparr>portMap = [], rt_metrics = None\<rparr>"

definition Router_SetMetrics :: "PortRouter \<Rightarrow> Metrics \<Rightarrow> PortRouter" where
  "Router_SetMetrics r m = r\<lparr>rt_metrics := Some m\<rparr>"

definition AddPortMapping :: "PortRouter \<Rightarrow> string \<Rightarrow> int \<Rightarrow> string \<Rightarrow> string \<Rightarrow> int \<Rightarrow> PortRouter" where
  "AddPortMapping r customerID port service listenAddr maxStreams =
     r\<lparr>portMap := AList.update port
         \<lparr>pe_customerID = customerID, pe_service = service, pe_maxStreams = maxStreams, pe_listenAddr = listenAddr\<rparr>
         (portMap r)\<rparr>"

record PortInfo =
  pi_Port :: int
  pi_CustomerID :: string
  pi_Service :: string
  pi_MaxStreams :: int
  pi_ListenAddr :: string

definition portInfo :: "int \<Rightarrow> portEntry \<Rightarrow> PortInfo" where
  "portInfo port e =
     \<lparr>pi_Port = port, pi_CustomerID = pe_customerID e, pi_Service = pe_service e,
      pi_MaxStreams = pe_maxStreams e, pi_ListenAddr = pe_listenAddr e\<rparr>"

definition GetPort :: "PortRouter \<Rightarrow> int \<Rightarrow> PortInfo option" where
  "GetPort r port = map_option (portInfo port) (map_of (portMap r) port)"

definition ListPorts :: "PortRouter \<Rightarrow> PortInfo list" where
  "ListPorts r = map (\<lambda>(port, e). portInfo port e) (portMap r)"

definition UpdatePortMapping ::
  "PortRouter \<Rightarrow> int \<Rightarrow> string \<Rightarrow> string \<Rightarrow> int \<Rightarrow> router_error option \<times> PortRouter" where
  "UpdatePortMapping r port service listenAddr maxStreams =
     (case map_of (portMap r) port of
        None \<Rightarrow> (Some ErrPortNotFound, r)
      | Some e \<Rightarrow>
          (None, r\<lparr>portMap := AList.update port
             \<lparr>pe_customerID = pe_customerID e, pe_service = service, pe_maxStreams = maxStreams,
              pe_listenAddr = listenAddr\<rparr> (portMap r)\<rparr>))"

definition RemovePortMapping :: "PortRouter \<Rightarrow> string \<Rightarrow> int \<Rightarrow> router_error option \<times> PortRouter" where
  "RemovePortMapping r customerID port =
     (case map_of (portMap r) port of
        None \<Rightarrow> (Some (ErrNoMapping port customerID), r)
      | Some e \<Rightarrow>
          if pe_customerID e \<noteq> customerID then (Some (ErrNoMapping port customerID), r)
          else (None, r\<lparr>portMap := AList.delete port (portMap r)\<rparr>))"

definition LookupPort :: "PortRouter \<Rightarrow> int \<Rightarrow> (string \<times> string) option" where
  "LookupPort r port = map_option (\<lambda>e. (pe_customerID e, pe_service e)) (map_of (portMap r) port)"

section \<open>Routing a client\<close>

datatype route_error =
    RouteNoAgent registry_error | RouteStreamLimit string int int | RouteNilConn | RouteOpen mux_error

text \<open>\<^verbatim>\<open>Route\<close> up to the wait for the agent's acknowledgement.\<close>
definition Route_begin ::
  "PortRouter \<Rightarrow> MemoryRegistry \<Rightarrow> string \<Rightarrow> int \<Rightarrow>
   (route_error + cref \<times> u32 \<times> ref) \<times> PortRouter \<times> MemoryRegistry" where
  "Route_begin rt reg customerID port =
     (let entry = map_of (portMap rt) port;
          service = (case entry of None \<Rightarrow> [] | Some e \<Rightarrow> pe_service e);
          maxStreams = (case entry of None \<Rightarrow> 0 | Some e \<Rightarrow> pe_maxStreams e)
      in
      (case Lookup reg customerID of
         Inl e \<Rightarrow> (Inl (RouteNoAgent e), rt, reg)
       | Inr c \<Rightarrow>
           (case map_of (conns reg) c of
              None \<Rightarrow> (Inl RouteNilConn, rt, reg)
            | Some conn \<Rightarrow>
                if maxStreams > 0 \<and> NumStreams (lc_mux conn) \<ge> maxStreams then
                  (Inl (RouteStreamLimit customerID (NumStreams (lc_mux conn)) maxStreams),
                   rt\<lparr>rt_metrics := map_option (\<lambda>m. ClientRejected m customerID ''stream_limit'') (rt_metrics rt)\<rparr>,
                   reg)
                else
                  let payload = (if service \<noteq> [] then bytes_of_string service else []) in
                  (case OpenStream_begin (lc_mux conn) payload of
                     (Inl e, mux') \<Rightarrow> (Inl (RouteOpen e), rt, onConn reg c (\<lambda>x. x\<lparr>lc_mux := mux'\<rparr>))
                   | (Inr (i, s), mux') \<Rightarrow>
                       (Inr (c, i, s), rt, onConn reg c (\<lambda>x. x\<lparr>lc_mux := mux'\<rparr>))))))"

text \<open>The rest of \<^verbatim>\<open>Route\<close>, given how the open ended: the stream is counted, copied in both
  directions and counted out.\<close>
definition Route_opened :: "PortRouter \<Rightarrow> string \<Rightarrow> PortRouter" where
  "Route_opened rt customerID = rt\<lparr>rt_metrics := map_option (\<lambda>m. StreamOpened m customerID) (rt_metrics rt)\<rparr>"

definition Route_done :: "PortRouter \<Rightarrow> string \<Rightarrow> PortRouter" where
  "Route_done rt customerID = rt\<lparr>rt_metrics := map_option (\<lambda>m. StreamClosed m customerID) (rt_metrics rt)\<rparr>"

text \<open>\<^verbatim>\<open>copyBidirectional\<close> runs two copy goroutines, each of which copies, cancels the context
  and reports its error, a watcher that closes both ends once the context is done, and the
  caller, which receives the two reports.  One action is one of these steps.\<close>
datatype 'e copier = Copying | Copied "'e option" | Cancelled "'e option" | Reported

record 'e copy_state =
  toClient :: "'e copier"
  toStream :: "'e copier"
  ctxDone :: bool
  errCh :: "'e option list"
  firstErr :: "'e option option"
  copy_result :: "'e option option"
  clientClosed :: bool
  streamAborted :: bool

datatype 'e copy_action =
    CopyClientStep "'e option" | CopyStreamStep "'e option" | CopyParentDone | CopyWatch | CopyReceive

definition copy_start :: "'e copy_state" where
  "copy_start = \<lparr>toClient = Copying, toStream = Copying, ctxDone = False, errCh = [], firstErr = None,
     copy_result = None, clientClosed = False, streamAborted = False\<rparr>"

text \<open>A goroutine's next step: \<^verbatim>\<open>io.Copy\<close> returns \<open>e\<close>; \<^verbatim>\<open>cancel()\<close>; \<^verbatim>\<open>errCh <- err\<close>.\<close>
fun copier_step :: "'e option \<Rightarrow> 'e copier \<Rightarrow> bool \<Rightarrow> 'e option list \<Rightarrow> 'e copier \<times> bool \<times> 'e option list" where
  "copier_step e Copying d ch = (Copied e, d, ch)"
| "copier_step e (Copied x) d ch = (Cancelled x, True, ch)"
| "copier_step e (Cancelled x) d ch = (Reported, d, ch @ [x])"
| "copier_step e Reported d ch = (Reported, d, ch)"

definition copyBidirectional :: "'e copy_state \<Rightarrow> 'e copy_action \<Rightarrow> 'e copy_state" where
  "copyBidirectional st a =
     (case a of
        CopyClientStep e \<Rightarrow>
          (case copier_step e (toClient st) (ctxDone st) (errCh st) of
             (c, d, ch) \<Rightarrow> st\<lparr>toClient := c, ctxDone := d, errCh := ch\<rparr>)
      | CopyStreamStep e \<Rightarrow>
          (case copier_step e (toStream st) (ctxDone st) (errCh st) of
             (c, d, ch) \<Rightarrow> st\<lparr>toStream := c, ctxDone := d, errCh := ch\<rparr>)
      | CopyParentDone \<Rightarrow> st\<lparr>ctxDone := True\<rparr>
      | CopyWatch \<Rightarrow> if ctxDone st then st\<lparr>clientClosed := True, streamAborted := True\<rparr> else st
      | CopyReceive \<Rightarrow>
          (case errCh st of
             [] \<Rightarrow> st
           | e # ch \<Rightarrow>
               (case firstErr st of
                  None \<Rightarrow> st\<lparr>errCh := ch, firstErr := Some e\<rparr>
                | Some f \<Rightarrow>
                    st\<lparr>errCh := ch, copy_result := Some (if f \<noteq> None \<and> ctxDone st then None else f)\<rparr>)))"

definition copy_run :: "'e copy_action list \<Rightarrow> 'e copy_state" where
  "copy_run acts = foldl copyBidirectional copy_start acts"

text \<open>What the watcher does to the stream.\<close>
definition copy_teardown :: "MemoryRegistry \<Rightarrow> cref \<Rightarrow> ref \<Rightarrow> MemoryRegistry" where
  "copy_teardown reg c s = onConn reg c (\<lambda>x. x\<lparr>lc_mux := streamReset (lc_mux x) s 0\<rparr>)"

section \<open>The port table interface\<close>

datatype port_op =
    PortAdd string int string string int | PortUpdate int string string int | PortRemove string int

text \<open>Who owns a port after a history of operations: adding (re)assigns it, removing needs the
  owner's name, updating never changes it.\<close>
fun portOwner :: "int \<Rightarrow> string option \<Rightarrow> port_op list \<Rightarrow> string option" where
  "portOwner p own [] = own"
| "portOwner p own (PortAdd c q _ _ _ # ops) = portOwner p (if q = p then Some c else own) ops"
| "portOwner p own (PortUpdate q _ _ _ # ops) = portOwner p own ops"
| "portOwner p own (PortRemove c q # ops) =
     portOwner p (if q = p \<and> own = Some c then None else own) ops"

locale port_table =
  fixes add :: "'t \<Rightarrow> string \<Rightarrow> int \<Rightarrow> string \<Rightarrow> string \<Rightarrow> int \<Rightarrow> 't"
    and upd :: "'t \<Rightarrow> int \<Rightarrow> string \<Rightarrow> string \<Rightarrow> int \<Rightarrow> 't"
    and remove :: "'t \<Rightarrow> string \<Rightarrow> int \<Rightarrow> 't"
    and owner :: "'t \<Rightarrow> int \<Rightarrow> string option"
  assumes owner_add: "owner (add t c p s a n) = (owner t)(p \<mapsto> c)"
    and owner_upd: "owner (upd t p s a n) = owner t"
    and owner_remove: "owner (remove t c p) = (if owner t p = Some c then (owner t)(p := None) else owner t)"
begin

definition table_replay :: "'t \<Rightarrow> port_op list \<Rightarrow> 't" where
  "table_replay t ops =
     foldl (\<lambda>x op. case op of PortAdd c p s a n \<Rightarrow> add x c p s a n | PortUpdate p s a n \<Rightarrow> upd x p s a n
                   | PortRemove c p \<Rightarrow> remove x c p) t ops"

lemma owner_replay: "owner (table_replay t ops) p = portOwner p (owner t p) ops"
proof (induction ops arbitrary: t)
  case (Cons op ops)
  then show ?case by (cases op) (simp_all add: table_replay_def owner_add owner_upd owner_remove)
qed (simp add: table_replay_def)

end

definition routerOwner :: "PortRouter \<Rightarrow> int \<Rightarrow> string option" where
  "routerOwner r p = map_option fst (LookupPort r p)"

lemma routerOwner_portMap: "routerOwner r p = map_option pe_customerID (map_of (portMap r) p)"
  by (simp add: routerOwner_def LookupPort_def option.map_comp comp_def)

definition routerUpdate :: "PortRouter \<Rightarrow> int \<Rightarrow> string \<Rightarrow> string \<Rightarrow> int \<Rightarrow> PortRouter" where
  "routerUpdate r p s a n = snd (UpdatePortMapping r p s a n)"

definition routerRemove :: "PortRouter \<Rightarrow> string \<Rightarrow> int \<Rightarrow> PortRouter" where
  "routerRemove r c p = snd (RemovePortMapping r c p)"

interpretation ports: port_table AddPortMapping routerUpdate routerRemove routerOwner
  by unfold_locales
     (auto simp: routerOwner_portMap AddPortMapping_def routerUpdate_def UpdatePortMapping_def
       routerRemove_def RemovePortMapping_def alist_maps split: option.splits)

definition router_run :: "PortRouter \<Rightarrow> port_op list \<Rightarrow> PortRouter" where
  "router_run r ops =
     foldl (\<lambda>x op. case op of PortAdd c p s a n \<Rightarrow> AddPortMapping x c p s a n
                   | PortUpdate p s a n \<Rightarrow> snd (UpdatePortMapping x p s a n)
                   | PortRemove c p \<Rightarrow> snd (RemovePortMapping x c p)) r ops"

lemma router_run_replay: "router_run r ops = ports.table_replay r ops"
  unfolding router_run_def ports.table_replay_def routerUpdate_def routerRemove_def ..

text \<open>The tenant of a port is decided by additions and by removals that name the tenant
  alone: updates keep it, a removal in another customer's name changes nothing, and
  operations on other ports do not matter.\<close>
theorem port_owner_history:
  "map_option fst (LookupPort (router_run NewPortRouter ops) p) = portOwner p None ops"
  using ports.owner_replay [of NewPortRouter ops p]
  by (simp add: router_run_replay routerOwner_portMap LookupPort_def NewPortRouter_def option.map_comp comp_def)

section \<open>Routing properties\<close>

lemma OpenStream_begin_frame:
  assumes "OpenStream_begin m p = (Inr (i, s), m')"
  shows "writeQueue m' = Enqueue (writeQueue m) \<lparr>Version = ProtocolVersion, Command = CmdStreamOpen,
    Flags = 0, StreamID = i, Payload = p\<rparr> PriorityData"
proof -
  have "writeQueue (snd (allocID m)) = writeQueue m" by (simp add: allocID_def)
  then show ?thesis
    using assms by (auto simp: OpenStream_begin_def Let_def split: prod.splits if_splits)
qed

lemma Route_begin_opened:
  assumes "Route_begin rt reg k port = (Inr (c, i, s), rt', reg')"
  obtains conn mux' where "rt' = rt" "Lookup reg k = Inr c" "map_of (conns reg) c = Some conn"
    "map_of (conns reg') = (map_of (conns reg))(c \<mapsto> conn\<lparr>lc_mux := mux'\<rparr>)" "agents reg' = agents reg"
    "writeQueue mux' = Enqueue (writeQueue (lc_mux conn)) \<lparr>Version = ProtocolVersion,
       Command = CmdStreamOpen, Flags = 0, StreamID = i, Payload = bytes_of_string
         (case map_of (portMap rt) port of None \<Rightarrow> [] | Some e \<Rightarrow> pe_service e)\<rparr> PriorityData"
    "\<And>e. map_of (portMap rt) port = Some e \<Longrightarrow> pe_maxStreams e > 0 \<Longrightarrow>
       NumStreams (lc_mux conn) < pe_maxStreams e"
proof -
  let ?svc = "case map_of (portMap rt) port of None \<Rightarrow> [] | Some e \<Rightarrow> pe_service e"
  have pay: "(if ?svc \<noteq> [] then bytes_of_string ?svc else []) = bytes_of_string ?svc" by simp
  obtain conn mux' where r: "Lookup reg k = Inr c" "map_of (conns reg) c = Some conn" "rt' = rt"
    "OpenStream_begin (lc_mux conn) (bytes_of_string ?svc) = (Inr (i, s), mux')"
    "reg' = onConn reg c (\<lambda>x. x\<lparr>lc_mux := mux'\<rparr>)"
    "\<And>e. map_of (portMap rt) port = Some e \<Longrightarrow> pe_maxStreams e > 0 \<Longrightarrow>
       NumStreams (lc_mux conn) < pe_maxStreams e"
    using assms unfolding Route_begin_def Let_def pay
    by (auto split: sum.splits option.splits if_splits prod.splits)
  have "map_of (conns reg') = (map_of (conns reg))(c \<mapsto> conn\<lparr>lc_mux := mux'\<rparr>)"
    by (rule ext) (simp add: r(5) conns_onConn r(2))
  from that [OF r(3,1,2) this _ _ r(6)] OpenStream_begin_frame [OF r(4)] r(5) show ?thesis by simp
qed


definition exampleRegistry :: MemoryRegistry where
  "exampleRegistry = sessions NewMemoryRegistry 0 [ConnOp ''customer-1'' exampleConn]"

definition exampleRouter :: PortRouter where
  "exampleRouter = AddPortMapping NewPortRouter ''customer-1'' 9000 ''smb'' ''0.0.0.0'' 2"

lemmas route_defs = exampleRegistry_def exampleRouter_def NewPortRouter_def AddPortMapping_def
  Route_begin_def Lookup_def connect_def Register_def onConn_def limitOf_def NewMemoryRegistry_def
  exampleConn_def NewLiveConnection_def exampleMux_def NewMuxSession_def NumStreams_def open_defs


text \<open>The listener reads the port table once to find the customer and Route reads it again
  for the service. When the port is given to another customer in between, the stream is opened
  on the first customer's agent with the second customer's service name; when the port is
  removed in between, the client is still connected, with no service name and no limit.\<close>
theorem route_reads_table_twice:
  "let moved = AddPortMapping exampleRouter ''customer-2'' 9000 ''db'' ''0.0.0.0'' 0;
       gone = snd (RemovePortMapping exampleRouter ''customer-1'' 9000);
       sent = (\<lambda>rt. case Route_begin rt exampleRegistry ''customer-1'' 9000 of (res, _, reg) \<Rightarrow>
                 (case map_of (conns reg) 0 of None \<Rightarrow> [] | Some conn \<Rightarrow> wq_data (writeQueue (lc_mux conn))))
   in LookupPort exampleRouter 9000 = Some (''customer-1'', ''smb'') \<and>
      map Payload (sent moved) = [bytes_of_string ''db''] \<and> map Payload (sent gone) = [[]]"
  by (simp add: route_defs LookupPort_def RemovePortMapping_def)

definition copy_inv :: "'e copy_state \<Rightarrow> bool" where
  "copy_inv st \<longleftrightarrow>
     (firstErr st \<noteq> None \<or> errCh st \<noteq> [] \<or> clientClosed st \<longrightarrow> ctxDone st) \<and>
     (\<forall>x. toClient st = Cancelled x \<or> toStream st = Cancelled x \<longrightarrow> ctxDone st) \<and>
     copy_result st \<in> {None, Some None} \<and> clientClosed st = streamAborted st \<and>
     length (errCh st) + of_bool (firstErr st \<noteq> None) + of_bool (copy_result st \<noteq> None) =
       of_bool (toClient st = Reported) + of_bool (toStream st = Reported) \<and>
     (copy_result st \<noteq> None \<longrightarrow> firstErr st \<noteq> None)"

lemma copier_step_cases:
  assumes "copier_step e c d ch = (c', d', ch')"
  obtains "c = Copying" "c' = Copied e" "d' = d" "ch' = ch"
  | x where "c = Copied x" "c' = Cancelled x" "d'" "ch' = ch"
  | x where "c = Cancelled x" "c' = Reported" "d' = d" "ch' = ch @ [x]"
  | "c = Reported" "c' = Reported" "d' = d" "ch' = ch"
  using assms by (cases c) auto

lemma copy_inv_step: "copy_inv st \<Longrightarrow> copy_inv (copyBidirectional st a)"
proof (cases a)
  case (CopyClientStep e)
  obtain c d ch where s: "copier_step e (toClient st) (ctxDone st) (errCh st) = (c, d, ch)"
    by (metis prod_cases3)
  assume "copy_inv st"
  with s show ?thesis
    by (cases rule: copier_step_cases [OF s]) (auto simp: copyBidirectional_def CopyClientStep copy_inv_def)
next
  case (CopyStreamStep e)
  obtain c d ch where s: "copier_step e (toStream st) (ctxDone st) (errCh st) = (c, d, ch)"
    by (metis prod_cases3)
  assume "copy_inv st"
  with s show ?thesis
    by (cases rule: copier_step_cases [OF s]) (auto simp: copyBidirectional_def CopyStreamStep copy_inv_def)
next
  case CopyReceive
  assume "copy_inv st"
  then show ?thesis
    by (cases "errCh st"; cases "firstErr st")
       (auto simp: copyBidirectional_def CopyReceive copy_inv_def of_bool_def split: if_splits)
qed (auto simp: copyBidirectional_def copy_inv_def)

lemma copy_inv_run: "copy_inv (copy_run acts)"
proof (induction acts rule: rev_induct)
  case Nil
  show ?case by (simp add: copy_run_def copy_inv_def copy_start_def)
next
  case (snoc a acts)
  from copy_inv_step [OF this, of a] show ?case by (simp add: copy_run_def)
qed

text \<open>Over every schedule of the copy goroutines, the watcher and the caller: when the call
  returns, both goroutines have reported and it returns no error, since each goroutine cancels
  the context before it reports and a cancelled context hides the error; the client connection
  and the stream are torn down together, and only once the context is cancelled.\<close>
theorem copy_reports_no_error:
  "copy_result (copy_run acts) \<in> {None, Some None} \<and>
   clientClosed (copy_run acts) = streamAborted (copy_run acts) \<and>
   (copy_result (copy_run acts) = None \<or>
    toClient (copy_run acts) = Reported \<and> toStream (copy_run acts) = Reported \<and> ctxDone (copy_run acts))"
  using copy_inv_run [of acts] by (auto simp: copy_inv_def of_bool_def split: if_splits)

end
