(* ===== verification/Rate_Limit.thy ===== *)
theory Rate_Limit
  imports Prelude Complex_Main
begin

text \<open>
  Per-address rate limiting: \<^verbatim>\<open>src/pkg/relay/ratelimit.go\<close>.  The token bucket of
  \<^verbatim>\<open>golang.org/x/time/rate\<close> is outside the sources: \<open>newLimiter\<close> and \<open>allow\<close> are arguments,
  the latter a function of the bucket and the time.  Times are nanoseconds.
\<close>

section \<open>The limiter\<close>

abbreviation (input) defaultStaleTimeout :: int where "defaultStaleTimeout \<equiv> 10 * 60 * 10 ^ 9"
abbreviation (input) cleanupInterval :: int where "cleanupInterval \<equiv> 60 * 10 ^ 9"

record 'l ipEntry =
  ip_limiter :: 'l
  ip_lastSeen :: int

record 'l IPRateLimiter =
  rl_rps :: rat
  rl_burst :: int
  rl_entries :: "(string, 'l ipEntry) gomap"
  rl_stopped :: bool

definition NewIPRateLimiter :: "rat \<Rightarrow> int \<Rightarrow> 'l IPRateLimiter" where
  "NewIPRateLimiter rps burst = \<lparr>rl_rps = rps, rl_burst = burst, rl_entries = [], rl_stopped = False\<rparr>"

definition Allow ::
  "(rat \<Rightarrow> int \<Rightarrow> 'l) \<Rightarrow> ('l \<Rightarrow> int \<Rightarrow> bool \<times> 'l) \<Rightarrow> 'l IPRateLimiter \<Rightarrow> string \<Rightarrow> int \<Rightarrow>
   bool \<times> 'l IPRateLimiter" where
  "Allow newLimiter allow rl ip now =
     (let lim = (case map_of (rl_entries rl) ip of
                   None \<Rightarrow> newLimiter (rl_rps rl) (rl_burst rl)
                 | Some e \<Rightarrow> ip_limiter e);
          (ok, lim') = allow lim now
      in (ok, rl\<lparr>rl_entries := AList.update ip \<lparr>ip_limiter = lim', ip_lastSeen = now\<rparr> (rl_entries rl)\<rparr>))"

definition Limiter_Len :: "'l IPRateLimiter \<Rightarrow> int" where
  "Limiter_Len rl = int (length (rl_entries rl))"

text \<open>\<^verbatim>\<open>Stop\<close> closes a channel; closing it a second time panics.\<close>
definition Limiter_Stop :: "'l IPRateLimiter \<Rightarrow> 'l IPRateLimiter option" where
  "Limiter_Stop rl = (if rl_stopped rl then None else Some (rl\<lparr>rl_stopped := True\<rparr>))"

definition sweep :: "'l IPRateLimiter \<Rightarrow> int \<Rightarrow> 'l IPRateLimiter" where
  "sweep rl now =
     (let cutoff = now - defaultStaleTimeout
      in rl\<lparr>rl_entries := filter (\<lambda>(ip, e). \<not> ip_lastSeen e < cutoff) (rl_entries rl)\<rparr>)"

text \<open>One iteration of \<^verbatim>\<open>cleanupLoop\<close>; with both cases ready \<open>pick\<close> decides.  The flag says whether
  the loop goes on.\<close>
definition cleanupLoop_step :: "'l IPRateLimiter \<Rightarrow> bool \<Rightarrow> int \<Rightarrow> bool \<Rightarrow> 'l IPRateLimiter \<times> bool" where
  "cleanupLoop_step rl tick now pick =
     (if rl_stopped rl \<and> \<not> (tick \<and> pick) then (rl, False)
      else if tick then (sweep rl now, True)
      else (rl, True))"

section \<open>Each address has its own bucket\<close>

datatype rate_op = Request string int | Sweep int

definition rate_exec ::
  "(rat \<Rightarrow> int \<Rightarrow> 'l) \<Rightarrow> ('l \<Rightarrow> int \<Rightarrow> bool \<times> 'l) \<Rightarrow> 'l IPRateLimiter \<Rightarrow> rate_op \<Rightarrow>
   (string \<times> bool) list \<times> 'l IPRateLimiter" where
  "rate_exec newLimiter allow rl op =
     (case op of
        Request ip t \<Rightarrow> let (ok, rl') = Allow newLimiter allow rl ip t in ([(ip, ok)], rl')
      | Sweep t \<Rightarrow> ([], sweep rl t))"

fun rate_run ::
  "(rat \<Rightarrow> int \<Rightarrow> 'l) \<Rightarrow> ('l \<Rightarrow> int \<Rightarrow> bool \<times> 'l) \<Rightarrow> 'l IPRateLimiter \<Rightarrow> rate_op list \<Rightarrow>
   (string \<times> bool) list \<times> 'l IPRateLimiter" where
  "rate_run newLimiter allow rl [] = ([], rl)"
| "rate_run newLimiter allow rl (op # ops) =
     (let (vs, rl1) = rate_exec newLimiter allow rl op; (ws, rl2) = rate_run newLimiter allow rl1 ops
      in (vs @ ws, rl2))"

text \<open>The reference: one bucket for one address, dropped by a sweep when idle too long.\<close>
fun one_bucket ::
  "(rat \<Rightarrow> int \<Rightarrow> 'l) \<Rightarrow> ('l \<Rightarrow> int \<Rightarrow> bool \<times> 'l) \<Rightarrow> rat \<Rightarrow> int \<Rightarrow> string \<Rightarrow> 'l ipEntry option \<Rightarrow>
   rate_op list \<Rightarrow> bool list" where
  "one_bucket newLimiter allow rps burst ip st [] = []"
| "one_bucket newLimiter allow rps burst ip st (Request q t # ops) =
     (if q \<noteq> ip then one_bucket newLimiter allow rps burst ip st ops
      else
        (let (ok, lim') = allow (case st of None \<Rightarrow> newLimiter rps burst | Some e \<Rightarrow> ip_limiter e) t
         in ok # one_bucket newLimiter allow rps burst ip (Some \<lparr>ip_limiter = lim', ip_lastSeen = t\<rparr>) ops))"
| "one_bucket newLimiter allow rps burst ip st (Sweep t # ops) =
     one_bucket newLimiter allow rps burst ip
       (case st of None \<Rightarrow> None | Some e \<Rightarrow> if ip_lastSeen e < t - defaultStaleTimeout then None else Some e) ops"

definition verdictsFor :: "string \<Rightarrow> (string \<times> bool) list \<Rightarrow> bool list" where
  "verdictsFor ip vs = map snd (filter (\<lambda>(q, _). q = ip) vs)"

lemma map_of_filter_values:
  "distinct (map fst al) \<Longrightarrow>
   map_of (filter (\<lambda>(k, v). P v) al) k =
     (case map_of al k of None \<Rightarrow> None | Some v \<Rightarrow> if P v then Some v else None)"
proof (induction al)
  case (Cons x al)
  obtain k' v' where x: "x = (k', v')" by fastforce
  have "map_of al k' = None" using Cons.prems x by (simp add: map_of_eq_None_iff)
  then show ?case using Cons x by auto
qed simp

lemma Allow_entries:
  assumes "Allow nl al rl ip t = (ok, rl')"
  shows "rl_rps rl' = rl_rps rl" "rl_burst rl' = rl_burst rl"
    "\<exists>lim'. al (case map_of (rl_entries rl) ip of None \<Rightarrow> nl (rl_rps rl) (rl_burst rl)
               | Some e \<Rightarrow> ip_limiter e) t = (ok, lim') \<and>
       map_of (rl_entries rl') = (map_of (rl_entries rl))(ip \<mapsto> \<lparr>ip_limiter = lim', ip_lastSeen = t\<rparr>)"
    "distinct (map fst (rl_entries rl)) \<Longrightarrow> distinct (map fst (rl_entries rl'))"
  using assms by (auto simp: Allow_def Let_def update_conv' distinct_update split: prod.splits)

lemma sweep_entries:
  assumes "distinct (map fst (rl_entries rl))"
  shows "map_of (rl_entries (sweep rl t)) k =
      (case map_of (rl_entries rl) k of None \<Rightarrow> None
       | Some e \<Rightarrow> if ip_lastSeen e < t - defaultStaleTimeout then None else Some e)"
    "distinct (map fst (rl_entries (sweep rl t)))" "rl_rps (sweep rl t) = rl_rps rl"
    "rl_burst (sweep rl t) = rl_burst rl"
proof -
  show "map_of (rl_entries (sweep rl t)) k =
      (case map_of (rl_entries rl) k of None \<Rightarrow> None
       | Some e \<Rightarrow> if ip_lastSeen e < t - defaultStaleTimeout then None else Some e)"
    using map_of_filter_values [OF assms, of "\<lambda>e. \<not> ip_lastSeen e < t - defaultStaleTimeout" k]
    by (auto simp: sweep_def Let_def split: option.splits)
  show "distinct (map fst (rl_entries (sweep rl t)))"
    using assms by (simp add: sweep_def Let_def distinct_map_filter)
qed (simp_all add: sweep_def Let_def)

lemma rate_run_bucket:
  "distinct (map fst (rl_entries rl)) \<Longrightarrow>
   verdictsFor ip (fst (rate_run nl al rl ops)) =
     one_bucket nl al (rl_rps rl) (rl_burst rl) ip (map_of (rl_entries rl) ip) ops"
proof (induction ops arbitrary: rl)
  case (Cons op ops)
  show ?case
  proof (cases op)
    case (Request q t)
    obtain ok rl1 where a: "Allow nl al rl q t = (ok, rl1)" by fastforce
    note e = Allow_entries [OF a]
    obtain lim' where lim: "al (case map_of (rl_entries rl) q of None \<Rightarrow> nl (rl_rps rl) (rl_burst rl)
               | Some e \<Rightarrow> ip_limiter e) t = (ok, lim')"
      "map_of (rl_entries rl1) = (map_of (rl_entries rl))(q \<mapsto> \<lparr>ip_limiter = lim', ip_lastSeen = t\<rparr>)"
      using e(3) by blast
    show ?thesis
      using Cons.IH [OF e(4) [OF Cons.prems]] e(1,2) lim Request a
      by (auto simp: rate_exec_def verdictsFor_def Let_def split: prod.splits)
  next
    case (Sweep t)
    show ?thesis
      using Cons.IH [OF sweep_entries(2) [OF Cons.prems], of t] sweep_entries(1,3,4) [OF Cons.prems, of t] Sweep
      by (simp add: rate_exec_def Let_def split: prod.splits)
  qed
qed (simp add: verdictsFor_def)

text \<open>C38. Whatever the token bucket does, the verdicts one address gets are those of a single
  bucket that sees only that address's own requests, restarted when a sweep finds it idle for
  more than ten minutes: no address can use up or reset another's allowance.\<close>
theorem rate_limit_per_address:
  "verdictsFor ip (fst (rate_run newLimiter allow (NewIPRateLimiter rps burst) ops)) =
   one_bucket newLimiter allow rps burst ip None ops"
  using rate_run_bucket [of "NewIPRateLimiter rps burst" ip newLimiter allow ops]
  by (simp add: NewIPRateLimiter_def)

end
