(* ===== verification/Go_Text.thy ===== *)
theory Go_Text
  imports Prelude
begin

text \<open>
  The parts of Go's standard library the relay and the agent use on text: decimal numbers,
  prefixes, host and port, and JSON values.  JSON text is represented by the value it denotes;
  strings stand for the valid UTF-8 texts that JSON and YAML decoding produce.
\<close>

section \<open>Decimal numbers\<close>

definition digitChar :: "nat \<Rightarrow> char" where
  "digitChar n = char_of (48 + n)"

fun showNat :: "nat \<Rightarrow> string" where
  "showNat n = (if n < 10 then [digitChar n] else showNat (n div 10) @ [digitChar (n mod 10)])"

declare showNat.simps [simp del]

text \<open>The verb \<^verbatim>\<open>%d\<close>.\<close>
definition showInt :: "int \<Rightarrow> string" where
  "showInt i = (if i < 0 then CHR ''-'' # showNat (nat (- i)) else showNat (nat i))"

definition isDigit :: "char \<Rightarrow> bool" where
  "isDigit c = (48 \<le> (of_char c :: nat) \<and> (of_char c :: nat) \<le> 57)"

definition digitsVal :: "string \<Rightarrow> nat" where
  "digitsVal = foldl (\<lambda>n c. 10 * n + (of_char c - 48)) 0"

text \<open>\<^verbatim>\<open>strconv.Atoi\<close> on a 64-bit platform.\<close>
definition Atoi :: "string \<Rightarrow> int option" where
  "Atoi s =
     (let (neg, ds) = (case s of c # r \<Rightarrow> if c = CHR ''-'' then (True, r) else if c = CHR ''+'' then (False, r)
                                      else (False, s) | [] \<Rightarrow> (False, []))
      in if ds = [] \<or> \<not> list_all isDigit ds then None
         else let v = (if neg then - int (digitsVal ds) else int (digitsVal ds))
              in if - (2 ^ 63) \<le> v \<and> v < 2 ^ 63 then Some v else None)"

lemma of_char_digitChar: "n < 10 \<Longrightarrow> (of_char (digitChar n) :: nat) = 48 + n"
  by (simp add: digitChar_def)

lemma isDigit_digitChar: "n < 10 \<Longrightarrow> isDigit (digitChar n)"
  by (simp add: isDigit_def of_char_digitChar)

lemma showNat_digits: "showNat n \<noteq> [] \<and> list_all isDigit (showNat n) \<and> digitsVal (showNat n) = n"
proof (induction n rule: showNat.induct)
  case (1 n)
  show ?case
  proof (cases "n < 10")
    case True
    then show ?thesis
      by (subst (1 2 3) showNat.simps) (simp add: isDigit_digitChar digitsVal_def of_char_digitChar)
  next
    case False
    with 1 have "showNat (n div 10) \<noteq> []" "list_all isDigit (showNat (n div 10))"
      "digitsVal (showNat (n div 10)) = n div 10" by auto
    then show ?thesis using False
      by (subst (1 2 3) showNat.simps) (simp add: isDigit_digitChar digitsVal_def of_char_digitChar)
  qed
qed

lemma isDigit_neq: "isDigit c \<Longrightarrow> c \<noteq> CHR ''-'' \<and> c \<noteq> CHR ''+'' \<and> c \<noteq> CHR '':'' \<and> c \<noteq> CHR ''['' \<and> c \<noteq> CHR '']'' \<and> c \<noteq> CHR ''/''"
  by (auto simp: isDigit_def)

text \<open>Printing and reading a number of the machine's range are inverse.\<close>
lemma Atoi_showInt: "- (2 ^ 63) \<le> i \<Longrightarrow> i < 2 ^ 63 \<Longrightarrow> Atoi (showInt i) = Some i"
proof (cases "i < 0")
  case True
  assume "- (2 ^ 63) \<le> i" "i < 2 ^ 63"
  then show ?thesis using True showNat_digits [of "nat (- i)"] by (simp add: Atoi_def showInt_def Let_def)
next
  case False
  assume b: "- (2 ^ 63) \<le> i" "i < 2 ^ 63"
  obtain c r where cr: "showNat (nat i) = c # r" using showNat_digits [of "nat i"] by (cases "showNat (nat i)") auto
  then have "isDigit c" "list_all isDigit r" "digitsVal (c # r) = nat i"
    using showNat_digits [of "nat i"] by auto
  then show ?thesis using False b cr isDigit_neq [of c] by (simp add: Atoi_def showInt_def Let_def)
qed

lemma showInt_inj:
  assumes "showInt i = showInt j" "0 \<le> i" "0 \<le> j" shows "i = j"
proof -
  have "showNat (nat i) = showNat (nat j)" using assms by (simp add: showInt_def)
  then have "nat i = nat j" using showNat_digits by metis
  then show ?thesis using assms(2,3) by simp
qed

definition hasPrefix :: "string \<Rightarrow> string \<Rightarrow> bool" where
  "hasPrefix s p = (take (length p) s = p)"

section \<open>Splitting an address\<close>

text \<open>\<^verbatim>\<open>net.SplitHostPort\<close> of the standard library: the host and the port, or nothing when it
  reports an error.\<close>
definition indexByte :: "char \<Rightarrow> string \<Rightarrow> nat option" where
  "indexByte c s = (if c \<in> set s then Some (length (takeWhile (\<lambda>x. x \<noteq> c) s)) else None)"

definition lastIndexByte :: "char \<Rightarrow> string \<Rightarrow> nat option" where
  "lastIndexByte c s =
     (if c \<in> set s then Some (length s - Suc (length (takeWhile (\<lambda>x. x \<noteq> c) (rev s)))) else None)"

definition SplitHostPort :: "string \<Rightarrow> (string \<times> string) option" where
  "SplitHostPort hostport =
     (case lastIndexByte (CHR '':'') hostport of
        None \<Rightarrow> None
      | Some i \<Rightarrow>
          if hd hostport = CHR ''['' then
            (case indexByte (CHR '']'') hostport of
               None \<Rightarrow> None
             | Some e \<Rightarrow>
                 if e + 1 \<noteq> i then None
                 else if CHR ''['' \<in> set (drop 1 hostport) \<or> CHR '']'' \<in> set (drop (e + 1) hostport) then None
                 else Some (take (e - 1) (drop 1 hostport), drop (i + 1) hostport))
          else if CHR '':'' \<in> set (take i hostport) then None
          else if CHR ''['' \<in> set hostport \<or> CHR '']'' \<in> set hostport then None
          else Some (take i hostport, drop (i + 1) hostport))"

lemma lastIndexByte_append:
  assumes "c \<notin> set ys" shows "lastIndexByte c (xs @ c # ys) = Some (length xs)"
proof -
  have "takeWhile (\<lambda>x. x \<noteq> c) (rev ys @ c # rev xs) = rev ys"
    using assms by (subst takeWhile_append2) auto
  then show ?thesis by (simp add: lastIndexByte_def)
qed

text \<open>Splitting undoes joining for a plain host and for a bracketed one.\<close>
lemma SplitHostPort_plain:
  assumes "set host \<inter> {CHR '':'', CHR ''['', CHR '']''} = {}" "set port \<inter> {CHR '':'', CHR ''['', CHR '']''} = {}"
  shows "SplitHostPort (host @ CHR '':'' # port) = Some (host, port)"
proof -
  have l: "lastIndexByte (CHR '':'') (host @ CHR '':'' # port) = Some (length host)"
    using assms(2) by (intro lastIndexByte_append) auto
  have "hd (host @ CHR '':'' # port) \<noteq> CHR ''[''" using assms(1) by (cases host) auto
  then show ?thesis using l assms by (auto simp: SplitHostPort_def)
qed

lemma SplitHostPort_bracketed:
  assumes "set host \<inter> {CHR ''['', CHR '']''} = {}" "set port \<inter> {CHR '':'', CHR ''['', CHR '']''} = {}"
  shows "SplitHostPort (CHR ''['' # host @ CHR '']'' # CHR '':'' # port) = Some (host, port)"
proof -
  let ?s = "CHR ''['' # host @ CHR '']'' # CHR '':'' # port"
  have l: "lastIndexByte (CHR '':'') ((CHR ''['' # host @ [CHR '']'']) @ CHR '':'' # port) =
    Some (length (CHR ''['' # host @ [CHR '']'']))"
    using assms(2) by (intro lastIndexByte_append) auto
  have "takeWhile (\<lambda>x. x \<noteq> CHR '']'') (host @ CHR '']'' # CHR '':'' # port) = host"
    using assms(1) by (subst takeWhile_append2) auto
  then have "indexByte (CHR '']'') ?s = Some (Suc (length host))" by (simp add: indexByte_def)
  then show ?thesis using l assms by (auto simp: SplitHostPort_def)
qed

text \<open>\<^verbatim>\<open>fmt.Sprintf("%s:%d", host, port)\<close>.\<close>
definition hostPort :: "string \<Rightarrow> int \<Rightarrow> string" where
  "hostPort host port = host @ CHR '':'' # showInt port"

lemma SplitHostPort_hostPort:
  assumes "set host \<inter> {CHR '':'', CHR ''['', CHR '']''} = {}" "0 \<le> port"
  shows "SplitHostPort (hostPort host port) = Some (host, showInt port)"
proof -
  have "list_all isDigit (showInt port)" using assms(2) showNat_digits by (simp add: showInt_def)
  then have "set (showInt port) \<inter> {CHR '':'', CHR ''['', CHR '']''} = {}"
    unfolding list_all_iff disjoint_iff using isDigit_neq by blast
  then show ?thesis unfolding hostPort_def using assms(1) by (intro SplitHostPort_plain)
qed

section \<open>IP addresses\<close>

text \<open>Whether \<^verbatim>\<open>net.ParseIP\<close> accepts a text: four decimal fields without leading zeros, or up to eight
  hexadecimal groups of which one run may be left out and the last two written as an IPv4
  address.  Zones are refused.\<close>
definition validField :: "string \<Rightarrow> bool" where
  "validField f \<longleftrightarrow> f \<noteq> [] \<and> list_all isDigit f \<and> (length f > 1 \<longrightarrow> hd f \<noteq> CHR ''0'') \<and> digitsVal f \<le> 255"

definition validIPv4 :: "string \<Rightarrow> bool" where
  "validIPv4 s \<longleftrightarrow> (let fs = goSplit (CHR ''.'') s in length fs = 4 \<and> list_all validField fs)"

definition isHex :: "char \<Rightarrow> bool" where
  "isHex c \<longleftrightarrow> isDigit c \<or> (let n = of_char c :: nat in (65 \<le> n \<and> n \<le> 70) \<or> (97 \<le> n \<and> n \<le> 102))"

text \<open>The group loop with the number of groups still missing and whether a run was left out.\<close>
fun ip6Groups :: "nat \<Rightarrow> bool \<Rightarrow> string \<Rightarrow> bool" where
  "ip6Groups 0 ellipsis s = (s = [] \<and> \<not> ellipsis)"
| "ip6Groups (Suc k) ellipsis s =
     (let h = takeWhile isHex s; r = dropWhile isHex s in
      if h = [] \<or> length h > 4 then False
      else if r = [] then ellipsis = (k > 0)
      else if hd r = CHR ''.'' then
        (if k = 0 \<or> (\<not> ellipsis \<and> k \<noteq> 1) then False else validIPv4 s \<and> ellipsis = (k > 1))
      else if hd r \<noteq> CHR '':'' \<or> tl r = [] then False
      else if hd (tl r) = CHR '':'' then
        (if ellipsis then False
         else if tl (tl r) = [] then k > 0
         else ip6Groups k True (tl (tl r)))
      else ip6Groups k ellipsis (tl r))"

definition validIPv6 :: "string \<Rightarrow> bool" where
  "validIPv6 s =
     (if take 2 s = ''::'' then (drop 2 s = [] \<or> ip6Groups 8 True (drop 2 s)) else ip6Groups 8 False s)"

definition validIP :: "string \<Rightarrow> bool" where
  "validIP s =
     (case filter (\<lambda>c. c = CHR ''.'' \<or> c = CHR '':'' \<or> c = CHR ''%'') s of
        [] \<Rightarrow> False
      | c # _ \<Rightarrow> if c = CHR ''.'' then validIPv4 s else if c = CHR '':'' then validIPv6 s else False)"

section \<open>Maps\<close>

lemma ran_map_of_subset: "ran (map_of xs) \<subseteq> set (map snd xs)"
  by (force simp: ran_def dest: map_of_SomeD)

lemma ran_remove:
  assumes "inj_on m (dom m)" "m p = Some l" shows "ran (m(p := None)) = ran m - {l}"
proof (rule set_eqI)
  fix b
  have "a = p" if "m a = Some l" for a
    using that assms(2) by (intro inj_onD [OF assms(1)]) auto
  with assms(2) show "b \<in> ran (m(p := None)) \<longleftrightarrow> b \<in> ran m - {l}"
    unfolding ran_def fun_upd_apply mem_Collect_eq Diff_iff singleton_iff by (metis option.distinct(1) option.sel)
qed

section \<open>JSON values\<close>

text \<open>\<open>JFrac\<close> is a number literal that is not an integer.\<close>
datatype json = JNull | JBool bool | JInt int | JFrac | JStr string | JArr "json list" | JObj "(string \<times> json) list"

text \<open>Decoding into a field of type string, int or pointer: null leaves the old value, a value of
  another kind is an error.\<close>
fun jsonString :: "string \<Rightarrow> json \<Rightarrow> string option" where
  "jsonString old (JStr s) = Some s"
| "jsonString old JNull = Some old"
| "jsonString old _ = None"

fun jsonInt :: "int \<Rightarrow> json \<Rightarrow> int option" where
  "jsonInt old (JInt i) = (if - (2 ^ 63) \<le> i \<and> i < 2 ^ 63 then Some i else None)"
| "jsonInt old JNull = Some old"
| "jsonInt old _ = None"

definition int64 :: "int \<Rightarrow> bool" where
  "int64 i \<longleftrightarrow> - (2 ^ 63) \<le> i \<and> i < 2 ^ 63"

lemma jsonInt_int64 [simp]: "int64 i \<Longrightarrow> jsonInt old (JInt i) = Some i"
  by (simp add: int64_def)

declare jsonInt.simps(1) [simp del]

definition lowerChar :: "char \<Rightarrow> char" where
  "lowerChar c = (if 65 \<le> (of_char c :: nat) \<and> (of_char c :: nat) \<le> 90 then char_of ((of_char c :: nat) + 32) else c)"

text \<open>An object key names a field when they agree up to the case of letters.\<close>
definition sameKey :: "string \<Rightarrow> string \<Rightarrow> bool" where
  "sameKey k name = (map lowerChar k = map lowerChar name)"

text \<open>The members of an object are assigned in their order; \<open>setField\<close> is None on a type error.\<close>
fun decodeMembers :: "('r \<Rightarrow> string \<Rightarrow> json \<Rightarrow> 'r option) \<Rightarrow> 'r \<Rightarrow> (string \<times> json) list \<Rightarrow> 'r option" where
  "decodeMembers setField r [] = Some r"
| "decodeMembers setField r ((k, v) # ms) =
     (case setField r k v of None \<Rightarrow> None | Some r' \<Rightarrow> decodeMembers setField r' ms)"

lemma decodeMembers_inv:
  assumes step: "\<And>r k v r'. P r \<Longrightarrow> setField r k v = Some r' \<Longrightarrow> P r'"
    and "P r" "decodeMembers setField r ms = Some q"
  shows "P q"
  using assms(2,3)
proof (induction ms arbitrary: r)
  case (Cons m ms)
  obtain k v where m: "m = (k, v)" by fastforce
  then obtain r1 where "setField r k v = Some r1" "decodeMembers setField r1 ms = Some q"
    using Cons.prems(2) by (auto split: option.splits)
  then show ?case using Cons.IH step [OF Cons.prems(1)] by blast
qed simp

lemma jsonInt_range: "jsonInt old v = Some i \<Longrightarrow> int64 old \<Longrightarrow> int64 i"
  by (cases v) (auto simp: int64_def jsonInt.simps(1) split: if_splits)

end
