(* ===== verification/Client_Listener.thy ===== *)
theory Client_Listener
  imports Router Rate_Limit Go_Text
begin

text \<open>
  The client listener: \<^verbatim>\<open>src/pkg/relay/client_listener.go\<close>.  Listeners are objects in a store,
  so that one that is no longer in the listener's map can still be seen to be open.  Whether
  the operating system lets an address be bound is an argument, as is the token bucket.
\<close>

section \<open>The listener\<close>

type_synonym lref = nat

record Listener =
  ln_addr :: string
  ln_open :: bool

record 'l ClientListener =
  rateLimiters :: "(string, 'l IPRateLimiter) gomap"
  listeners :: "(int, lref) gomap"
  lns :: "(lref, Listener) gomap"
  nextLn :: lref

datatype listener_error = ErrBind int | ErrListenerNotFound int

definition NewClientListener :: "'l ClientListener" where
  "NewClientListener = \<lparr>rateLimiters = [], listeners = [], lns = [], nextLn = 0\<rparr>"

definition SetRateLimiter :: "'l ClientListener \<Rightarrow> string \<Rightarrow> rat \<Rightarrow> int \<Rightarrow> 'l ClientListener" where
  "SetRateLimiter cl customerID rps burst =
     (if rps \<le> 0 then cl
      else cl\<lparr>rateLimiters := AList.update customerID (NewIPRateLimiter rps burst) (rateLimiters cl)\<rparr>)"

definition closeLn :: "'l ClientListener \<Rightarrow> lref \<Rightarrow> 'l ClientListener" where
  "closeLn cl l =
     (case map_of (lns cl) l of None \<Rightarrow> cl | Some x \<Rightarrow> cl\<lparr>lns := AList.update l (x\<lparr>ln_open := False\<rparr>) (lns cl)\<rparr>)"

text \<open>\<^verbatim>\<open>StartPortWithListener\<close> up to its accept loop, for the listener just opened.\<close>
definition StartPortWithListener :: "'l ClientListener \<Rightarrow> lref \<Rightarrow> int \<Rightarrow> 'l ClientListener" where
  "StartPortWithListener cl l port = cl\<lparr>listeners := AList.update port l (listeners cl)\<rparr>"

definition StartPort :: "'l ClientListener \<Rightarrow> string \<Rightarrow> int \<Rightarrow> bool \<Rightarrow> listener_error option \<times> 'l ClientListener" where
  "StartPort cl addr port bindOK =
     (if \<not> bindOK then (Some (ErrBind port), cl)
      else
        let l = nextLn cl;
            cl1 = cl\<lparr>lns := AList.update l \<lparr>ln_addr = addr, ln_open = True\<rparr> (lns cl), nextLn := l + 1\<rparr>
        in (None, StartPortWithListener cl1 l port))"

text \<open>One iteration of the accept loop: hand the connection on, stop when the context is done,
  or try again.  \<^verbatim>\<open>Accept\<close> on a closed listener fails whatever arrives.\<close>
datatype accept_result = SpawnClient string | AcceptReturn | AcceptRetry

definition acceptLoop_step :: "Listener \<Rightarrow> string option \<Rightarrow> bool \<Rightarrow> accept_result" where
  "acceptLoop_step lsn incoming finished =
     (case (if ln_open lsn then incoming else None) of
        Some remote \<Rightarrow> SpawnClient remote
      | None \<Rightarrow> if finished then AcceptReturn else AcceptRetry)"

text \<open>The loop over what each \<^verbatim>\<open>Accept\<close> sees: the clients handed on and whether it has returned.\<close>
fun acceptLoop :: "Listener \<Rightarrow> (string option \<times> bool) list \<Rightarrow> string list \<times> bool" where
  "acceptLoop lsn [] = ([], False)"
| "acceptLoop lsn ((incoming, finished) # rest) =
     (case acceptLoop_step lsn incoming finished of
        SpawnClient remote \<Rightarrow> (let (cs, r) = acceptLoop lsn rest in (remote # cs, r))
      | AcceptReturn \<Rightarrow> ([], True)
      | AcceptRetry \<Rightarrow> acceptLoop lsn rest)"

definition StopPort :: "'l ClientListener \<Rightarrow> int \<Rightarrow> listener_error option \<times> 'l ClientListener" where
  "StopPort cl port =
     (case map_of (listeners cl) port of
        None \<Rightarrow> (Some (ErrListenerNotFound port), cl)
      | Some l \<Rightarrow> (None, (closeLn cl l)\<lparr>listeners := AList.delete port (listeners cl)\<rparr>))"

definition ClientListener_Stop :: "'l ClientListener \<Rightarrow> 'l ClientListener" where
  "ClientListener_Stop cl =
     (foldl closeLn cl (map snd (listeners cl)))\<lparr>listeners := [], rateLimiters := []\<rparr>"

definition ClientListener_Addr :: "'l ClientListener \<Rightarrow> int \<Rightarrow> string option" where
  "ClientListener_Addr cl port =
     (case map_of (listeners cl) port of
        None \<Rightarrow> None
      | Some l \<Rightarrow> map_option ln_addr (map_of (lns cl) l))"

section \<open>Admitting a client\<close>

datatype client_outcome =
    ClientNoMapping | ClientRateLimited | ClientRouteFailed route_error | ClientRouted cref u32 ref

text \<open>Whether the accepted connection has been closed when the handler is done with it.\<close>
fun clientConnClosed :: "client_outcome \<Rightarrow> bool" where
  "clientConnClosed ClientNoMapping = True"
| "clientConnClosed ClientRateLimited = True"
| "clientConnClosed (ClientRouteFailed _) = False"
| "clientConnClosed (ClientRouted _ _ _) = False"

definition sourceIP :: "string \<Rightarrow> string" where
  "sourceIP remoteAddr = (case SplitHostPort remoteAddr of None \<Rightarrow> remoteAddr | Some (ip, _) \<Rightarrow> ip)"

definition handleClient ::
  "(rat \<Rightarrow> int \<Rightarrow> 'l) \<Rightarrow> ('l \<Rightarrow> int \<Rightarrow> bool \<times> 'l) \<Rightarrow> 'l ClientListener \<Rightarrow> PortRouter \<Rightarrow> MemoryRegistry \<Rightarrow>
   string \<Rightarrow> int \<Rightarrow> int \<Rightarrow> client_outcome \<times> 'l ClientListener \<times> PortRouter \<times> MemoryRegistry" where
  "handleClient newLimiter allow cl rt reg remoteAddr port now =
     (case LookupPort rt port of
        None \<Rightarrow> (ClientNoMapping, cl, rt, reg)
      | Some (customerID, _) \<Rightarrow>
          let (ok, cl1) =
                (case map_of (rateLimiters cl) customerID of
                   None \<Rightarrow> (True, cl)
                 | Some rl \<Rightarrow>
                     let (v, rl') = Allow newLimiter allow rl (sourceIP remoteAddr) now
                     in (v, cl\<lparr>rateLimiters := AList.update customerID rl' (rateLimiters cl)\<rparr>))
          in
          if \<not> ok then
            (ClientRateLimited, cl1,
             rt\<lparr>rt_metrics := map_option (\<lambda>m. ClientRejected m customerID ''rate_limited'') (rt_metrics rt)\<rparr>, reg)
          else
            (case Route_begin rt reg customerID port of
               (Inl e, rt', reg') \<Rightarrow> (ClientRouteFailed e, cl1, rt', reg')
             | (Inr (c, i, s), rt', reg') \<Rightarrow> (ClientRouted c i s, cl1, rt', reg')))"

section \<open>What admits a client\<close>


text \<open>A bucket that lets one request through, for the examples.\<close>
definition oneShot :: "bool \<Rightarrow> int \<Rightarrow> bool \<times> bool" where
  "oneShot spent now = (\<not> spent, True)"

definition exampleListener :: "bool ClientListener" where
  "exampleListener = SetRateLimiter NewClientListener ''customer-1'' 1 1"

lemmas client_defs = exampleListener_def SetRateLimiter_def NewClientListener_def handleClient_def
  LookupPort_def NewIPRateLimiter_def Allow_def oneShot_def


text \<open>When a customer has no agent the handler logs the failure and returns without closing the
  client's connection, although every other rejection closes it.\<close>
theorem failed_route_keeps_client:
  "fst (handleClient (\<lambda>_ _. False) oneShot exampleListener exampleRouter NewMemoryRegistry
     ''10.0.0.7:4242'' 9000 0) = ClientRouteFailed (RouteNoAgent (ErrAgentNotFound ''customer-1'')) \<and>
   \<not> clientConnClosed (ClientRouteFailed (RouteNoAgent (ErrAgentNotFound ''customer-1'')))"
  by (simp add: client_defs route_defs)

section \<open>Starting and stopping ports\<close>

datatype listener_op = StartOp string int bool | StopOp int

definition listener_exec :: "'l ClientListener \<Rightarrow> listener_op \<Rightarrow> 'l ClientListener" where
  "listener_exec cl op =
     (case op of StartOp a p ok \<Rightarrow> snd (StartPort cl a p ok) | StopOp p \<Rightarrow> snd (StopPort cl p))"

text \<open>A history in which no port is started while it already has a listener.\<close>
fun freshStarts :: "'l ClientListener \<Rightarrow> listener_op list \<Rightarrow> bool" where
  "freshStarts cl [] = True"
| "freshStarts cl (op # ops) \<longleftrightarrow>
     (case op of StartOp a p ok \<Rightarrow> ok \<longrightarrow> map_of (listeners cl) p = None | StopOp p \<Rightarrow> True) \<and>
     freshStarts (listener_exec cl op) ops"

definition openLns :: "'l ClientListener \<Rightarrow> lref set" where
  "openLns cl = {l. \<exists>x. map_of (lns cl) l = Some x \<and> ln_open x}"

definition listener_inv :: "'l ClientListener \<Rightarrow> bool" where
  "listener_inv cl \<longleftrightarrow>
     inj_on (map_of (listeners cl)) (dom (map_of (listeners cl))) \<and>
     ran (map_of (listeners cl)) = openLns cl \<and> (\<forall>l \<in> dom (map_of (lns cl)). l < nextLn cl)"

lemma openLns_closeLn [simp]: "openLns (closeLn cl l) = openLns cl - {l}"
  by (auto simp: openLns_def closeLn_def alist_maps split: option.splits if_splits)

lemma closeLn_fields [simp]:
  "listeners (closeLn cl l) = listeners cl" "nextLn (closeLn cl l) = nextLn cl"
  "dom (map_of (lns (closeLn cl l))) = dom (map_of (lns cl))"
  by (auto simp: closeLn_def alist_maps split: option.splits if_splits)

lemma openLns_foldl_closeLn [simp]: "openLns (foldl closeLn cl ls) = openLns cl - set ls"
  by (induction ls arbitrary: cl) auto

lemma openLns_StopPort:
  assumes "map_of (listeners cl) p = Some l" shows "openLns (snd (StopPort cl p)) = openLns cl - {l}"
  using assms openLns_closeLn [of cl l] by (simp add: StopPort_def openLns_def)

lemma listener_inv_start:
  assumes "listener_inv cl" "map_of (listeners cl) p = None"
  shows "listener_inv (snd (StartPort cl a p True))"
proof -
  let ?l = "nextLn cl"
  let ?cl = "snd (StartPort cl a p True)"
  note inv = assms(1) [unfolded listener_inv_def]
  have new: "?l \<notin> dom (map_of (lns cl))" using inv by auto
  then have notin: "?l \<notin> openLns cl" by (auto simp: openLns_def)
  have ls: "map_of (listeners ?cl) = (map_of (listeners cl))(p \<mapsto> ?l)"
    by (simp add: StartPort_def Let_def StartPortWithListener_def alist_maps)
  have ns: "map_of (lns ?cl) = (map_of (lns cl))(?l \<mapsto> \<lparr>ln_addr = a, ln_open = True\<rparr>)"
    by (simp add: StartPort_def Let_def StartPortWithListener_def alist_maps)
  have "openLns ?cl = insert ?l (openLns cl)" by (auto simp: openLns_def ns)
  moreover have "inj_on (map_of (listeners ?cl)) (dom (map_of (listeners ?cl)))"
    using inv notin unfolding ls by (auto simp: inj_on_def ran_def)
  moreover have "ran (map_of (listeners ?cl)) = insert ?l (ran (map_of (listeners cl)))"
    unfolding ls using assms(2) by simp
  moreover have "nextLn ?cl = Suc ?l" by (simp add: StartPort_def Let_def StartPortWithListener_def)
  moreover have "\<forall>l \<in> dom (map_of (lns cl)). l < Suc ?l" using inv by (auto intro: less_SucI)
  ultimately show ?thesis using inv unfolding listener_inv_def ns by simp
qed

lemma listener_inv_stop:
  assumes "listener_inv cl" shows "listener_inv (snd (StopPort cl p))"
proof (cases "map_of (listeners cl) p")
  case None
  then show ?thesis using assms by (simp add: StopPort_def)
next
  case (Some l)
  note inv = assms [unfolded listener_inv_def]
  let ?cl = "snd (StopPort cl p)"
  have ls: "map_of (listeners ?cl) = (map_of (listeners cl))(p := None)"
    using Some by (simp add: StopPort_def alist_maps)
  have "openLns ?cl = openLns cl - {l}" using Some by (rule openLns_StopPort)
  moreover have "ran (map_of (listeners ?cl)) = ran (map_of (listeners cl)) - {l}"
    unfolding ls using inv Some by (intro ran_remove) blast+
  moreover have "inj_on (map_of (listeners ?cl)) (dom (map_of (listeners ?cl)))"
    using inv unfolding ls by (auto simp: inj_on_def)
  moreover have "nextLn ?cl = nextLn cl" "dom (map_of (lns ?cl)) = dom (map_of (lns cl))"
    using Some by (simp_all add: StopPort_def alist_maps)
  ultimately show ?thesis using inv unfolding listener_inv_def by auto
qed

lemma listener_inv_exec:
  assumes "listener_inv cl" "freshStarts cl (op # ops)"
  shows "listener_inv (listener_exec cl op)"
  using assms listener_inv_start [of cl] listener_inv_stop [of cl]
  by (auto simp: listener_exec_def StartPort_def split: listener_op.splits if_splits)

lemma listener_inv_run:
  assumes "listener_inv cl" "freshStarts cl ops"
  shows "listener_inv (foldl listener_exec cl ops)"
  using assms
proof (induction ops arbitrary: cl)
  case (Cons op ops)
  then show ?case using listener_inv_exec [of cl op ops] by simp
qed simp

lemma listener_inv_New: "listener_inv NewClientListener"
  by (simp add: listener_inv_def NewClientListener_def openLns_def)

lemma openLns_Stop:
  assumes "listener_inv cl" shows "openLns (ClientListener_Stop cl) = {}"
proof -
  have "openLns (ClientListener_Stop cl) = openLns cl - set (map snd (listeners cl))"
    using openLns_foldl_closeLn [of cl "map snd (listeners cl)"] by (simp add: ClientListener_Stop_def openLns_def)
  moreover have "openLns cl \<subseteq> set (map snd (listeners cl))"
    using assms ran_map_of_subset [of "listeners cl"] unfolding listener_inv_def by simp
  ultimately show ?thesis by blast
qed

text \<open>When no port is started twice without being stopped, stopping a port closes the one
  listener it has and leaves the others, and stopping the component leaves no socket open.\<close>
theorem listener_stop_complete:
  assumes "freshStarts (NewClientListener :: 'l ClientListener) ops"
  shows "let cl = foldl listener_exec (NewClientListener :: 'l ClientListener) ops in
    openLns (ClientListener_Stop cl) = {} \<and>
    (\<forall>p l. map_of (listeners cl) p = Some l \<longrightarrow> openLns (snd (StopPort cl p)) = openLns cl - {l} \<and> l \<in> openLns cl)"
proof -
  let ?cl = "foldl listener_exec (NewClientListener :: 'l ClientListener) ops"
  have inv: "listener_inv ?cl" using listener_inv_New assms by (rule listener_inv_run)
  moreover have "openLns (snd (StopPort ?cl p)) = openLns ?cl - {l} \<and> l \<in> openLns ?cl"
    if "map_of (listeners ?cl) p = Some l" for p l
    using openLns_StopPort [OF that] ranI [of "map_of (listeners ?cl)" p l] that inv unfolding listener_inv_def by simp
  ultimately show ?thesis unfolding Let_def using openLns_Stop by blast
qed

theorem listener_stop_complete_witness:
  "let ops = [StartOp ''0.0.0.0:9000'' 9000 True, StartOp ''0.0.0.0:9001'' 9001 True,
              StartOp ''0.0.0.0:9002'' 9002 False, StopOp 9000];
       cl = foldl listener_exec (NewClientListener :: bool ClientListener) ops
   in listeners cl = [(9001, 1)] \<and> openLns (ClientListener_Stop cl) = {}"
proof -
  let ?ops = "[StartOp ''0.0.0.0:9000'' 9000 True, StartOp ''0.0.0.0:9001'' 9001 True,
              StartOp ''0.0.0.0:9002'' 9002 False, StopOp 9000]"
  note run = listener_exec_def StartPort_def StartPortWithListener_def StopPort_def closeLn_def NewClientListener_def
  have "freshStarts (NewClientListener :: bool ClientListener) ?ops" by (simp add: run)
  from listener_stop_complete [OF this] have "openLns (ClientListener_Stop
    (foldl listener_exec (NewClientListener :: bool ClientListener) ?ops)) = {}"
    unfolding Let_def by (rule conjunct1)
  moreover have "listeners (foldl listener_exec (NewClientListener :: bool ClientListener) ?ops) = [(9001, 1)]"
    by (simp add: run)
  ultimately show ?thesis by (simp only: Let_def simp_thms)
qed

text \<open>Stopping a port closes its listener but not the context of its accept loop: however often
  the loop goes round after that, it neither hands on a client nor returns.\<close>
theorem stopped_port_spins:
  assumes "map_of (listeners cl) port = Some l" "map_of (lns cl) l = Some x" "fst (StopPort cl port) = None"
    "\<forall>e \<in> set events. \<not> snd e"
  shows "\<exists>x'. map_of (lns (snd (StopPort cl port))) l = Some x' \<and> acceptLoop x' events = ([], False)"
proof -
  have "acceptLoop y events = ([], False)" if "\<not> ln_open y" for y
    using assms(4) that by (induction events) (auto simp: acceptLoop_step_def)
  then show ?thesis using assms(1-3) by (simp add: StopPort_def closeLn_def alist_maps)
qed

theorem stopped_port_spins_witness:
  "let cl = snd (StartPort (NewClientListener :: bool ClientListener) ''0.0.0.0:9000'' 9000 True)
   in \<exists>x'. map_of (lns (snd (StopPort cl 9000))) 0 = Some x' \<and>
        acceptLoop x' (replicate 3 (None, False)) = ([], False)"
  using stopped_port_spins [of "snd (StartPort (NewClientListener :: bool ClientListener) ''0.0.0.0:9000'' 9000 True)"
    9000 0 "\<lparr>ln_addr = ''0.0.0.0:9000'', ln_open = True\<rparr>" "replicate 3 (None, False)"]
  by (simp add: StartPort_def StartPortWithListener_def StopPort_def NewClientListener_def closeLn_def)

end
