(* ===== verification/Relay_Metrics.thy ===== *)
theory Relay_Metrics
  imports Client_Listener
begin

text \<open>
  The metric vectors of \<^verbatim>\<open>src/pkg/relay/metrics.go\<close>: their declaration by \<^verbatim>\<open>NewMetrics\<close> and the
  calls the relay makes on them.  The recorders themselves stand with the registry.  Prometheus
  is outside the sources: its registerer is the argument \<open>addVec\<close>, which gives \<^const>\<open>None\<close> when
  \<^verbatim>\<open>MustRegister\<close> panics.  \<^verbatim>\<open>WithLabelValues\<close> panics when the number of values differs from the
  number of labels, and a counter has no \<^verbatim>\<open>Dec\<close>; \<open>well_labelled\<close> says that neither is attempted.
\<close>

section \<open>Declaration\<close>

datatype vec_kind = CounterVec | GaugeVec

record vec_desc =
  vd_kind :: vec_kind
  vd_Namespace :: string
  vd_Name :: string
  vd_labels :: "string list"

fun vecDesc :: "string \<Rightarrow> metric_vec \<Rightarrow> vec_desc" where
  "vecDesc prefix StreamsTotal =
     \<lparr>vd_kind = CounterVec, vd_Namespace = prefix, vd_Name = ''streams_total'', vd_labels = [''customer_id'']\<rparr>"
| "vecDesc prefix StreamsActive =
     \<lparr>vd_kind = GaugeVec, vd_Namespace = prefix, vd_Name = ''streams_active'', vd_labels = [''customer_id'']\<rparr>"
| "vecDesc prefix ConnectionsTotal =
     \<lparr>vd_kind = CounterVec, vd_Namespace = prefix, vd_Name = ''connections_total'', vd_labels = [''customer_id'']\<rparr>"
| "vecDesc prefix ConnectionsActive =
     \<lparr>vd_kind = GaugeVec, vd_Namespace = prefix, vd_Name = ''connections_active'', vd_labels = [''customer_id'']\<rparr>"
| "vecDesc prefix ClientsRejected =
     \<lparr>vd_kind = CounterVec, vd_Namespace = prefix, vd_Name = ''clients_rejected_total'',
      vd_labels = [''customer_id'', ''reason'']\<rparr>"

definition registrationOrder :: "metric_vec list" where
  "registrationOrder = [StreamsTotal, StreamsActive, ConnectionsTotal, ConnectionsActive, ClientsRejected]"

fun MustRegister :: "('r \<Rightarrow> vec_desc \<Rightarrow> 'r option) \<Rightarrow> 'r \<Rightarrow> vec_desc list \<Rightarrow> 'r option" where
  "MustRegister addVec reg [] = Some reg"
| "MustRegister addVec reg (d # ds) =
     (case addVec reg d of None \<Rightarrow> None | Some reg' \<Rightarrow> MustRegister addVec reg' ds)"

definition NewMetrics :: "('r \<Rightarrow> vec_desc \<Rightarrow> 'r option) \<Rightarrow> string \<Rightarrow> 'r \<Rightarrow> (Metrics \<times> 'r) option" where
  "NewMetrics addVec prefix reg =
     (case MustRegister addVec reg (map (vecDesc prefix) registrationOrder) of
        None \<Rightarrow> None
      | Some reg' \<Rightarrow> Some ([], reg'))"

text \<open>The name a vector is exported under.\<close>
definition fqName :: "vec_desc \<Rightarrow> string" where
  "fqName d = (if vd_Namespace d = [] then vd_Name d else vd_Namespace d @ ''_'' @ vd_Name d)"

lemma MustRegister_fresh:
  assumes "\<And>r d. fqName d \<notin> names r \<Longrightarrow> \<exists>r'. addVec r d = Some r' \<and> names r' = insert (fqName d) (names r)"
    and "distinct (map fqName ds)" "set (map fqName ds) \<inter> names reg = {}"
  shows "\<exists>r'. MustRegister addVec reg ds = Some r' \<and> names r' = set (map fqName ds) \<union> names reg"
  using assms(2,3)
proof (induction ds arbitrary: reg)
  case (Cons d ds)
  then obtain r where r: "addVec reg d = Some r" "names r = insert (fqName d) (names reg)"
    using assms(1) [of d reg] by auto
  have "set (map fqName ds) \<inter> names r = {}" using Cons.prems r(2) by auto
  with Cons.IH [of r] Cons.prems(1) show ?case by (auto simp: r)
qed simp

lemma metric_names_distinct: "distinct (map (fqName \<circ> vecDesc prefix) registrationOrder)"
  by (simp add: registrationOrder_def fqName_def)

text \<open>A registerer refuses only names it already has, so a relay whose prefix is new to it starts
  with all five vectors exported and no sample recorded.\<close>
theorem new_metrics_registers:
  assumes "\<And>r d. fqName d \<notin> names r \<Longrightarrow> \<exists>r'. addVec r d = Some r' \<and> names r' = insert (fqName d) (names r)"
    and "\<And>v. fqName (vecDesc prefix v) \<notin> names reg"
  shows "\<exists>reg'. NewMetrics addVec prefix reg = Some ([], reg') \<and>
    names reg' = range (\<lambda>v. fqName (vecDesc prefix v)) \<union> names reg"
proof -
  have all: "UNIV = set registrationOrder" by (auto simp: registrationOrder_def intro: metric_vec.exhaust)
  let ?ds = "map (vecDesc prefix) registrationOrder"
  have "distinct (map fqName ?ds)" using metric_names_distinct [of prefix] by (simp add: o_def)
  moreover have "set (map fqName ?ds) \<inter> names reg = {}" using assms(2) by auto
  ultimately obtain r' where "MustRegister addVec reg ?ds = Some r'" "names r' = set (map fqName ?ds) \<union> names reg"
    using MustRegister_fresh [of names addVec ?ds reg] assms(1) by metis
  then show ?thesis by (simp add: NewMetrics_def all image_image)
qed

section \<open>Use\<close>

fun callOK :: "prom_call \<Rightarrow> bool" where
  "callOK (Inc v ls) \<longleftrightarrow> length ls = length (vd_labels (vecDesc [] v))"
| "callOK (Dec v ls) \<longleftrightarrow> vd_kind (vecDesc [] v) = GaugeVec \<and> length ls = length (vd_labels (vecDesc [] v))"

definition well_labelled :: "Metrics option \<Rightarrow> bool" where
  "well_labelled mo = (case mo of None \<Rightarrow> True | Some m \<Rightarrow> list_all callOK m)"

named_theorems recorders

lemma well_labelled_recorders [recorders]:
  "well_labelled mo \<Longrightarrow> well_labelled (map_option (\<lambda>m. StreamOpened m k) mo)"
  "well_labelled mo \<Longrightarrow> well_labelled (map_option (\<lambda>m. StreamClosed m k) mo)"
  "well_labelled mo \<Longrightarrow> well_labelled (map_option (\<lambda>m. ConnectionRegistered m k) mo)"
  "well_labelled mo \<Longrightarrow> well_labelled (map_option (\<lambda>m. ConnectionUnregistered m k) mo)"
  "well_labelled mo \<Longrightarrow> well_labelled (map_option (\<lambda>m. ClientRejected m k why) mo)"
  by (cases mo; simp add: well_labelled_def StreamOpened_def StreamClosed_def ConnectionRegistered_def
      ConnectionUnregistered_def ClientRejected_def)+

lemma registry_labelled:
  "well_labelled (reg_metrics r) \<Longrightarrow> well_labelled (reg_metrics (Register r k c))"
  "well_labelled (reg_metrics r) \<Longrightarrow> well_labelled (reg_metrics (Unregister r k))"
  by (auto simp: Register_def Unregister_def Let_def recorders split: option.splits)

text \<open>Routing leaves the registry's metrics alone and either leaves the router's or counts a refusal.\<close>
lemma Route_begin_metrics:
  assumes "Route_begin rt reg k p = (res, rt', reg')"
  shows "reg_metrics reg' = reg_metrics reg"
    and "rt_metrics rt' = rt_metrics rt \<or> rt_metrics rt' = map_option (\<lambda>m. ClientRejected m k ''stream_limit'') (rt_metrics rt)"
proof -
  show "reg_metrics reg' = reg_metrics reg"
    using assms by (simp add: Route_begin_def Let_def split: option.splits sum.splits if_splits prod.splits) auto
  show "rt_metrics rt' = rt_metrics rt \<or> rt_metrics rt' = map_option (\<lambda>m. ClientRejected m k ''stream_limit'') (rt_metrics rt)"
    using assms by (simp add: Route_begin_def Let_def split: option.splits sum.splits if_splits prod.splits) auto
qed

lemma Route_begin_labelled:
  assumes "well_labelled (rt_metrics rt)" "well_labelled (reg_metrics reg)" "Route_begin rt reg k p = (res, rt', reg')"
  shows "well_labelled (rt_metrics rt') \<and> well_labelled (reg_metrics reg')"
  using Route_begin_metrics [OF assms(3)] assms(1,2) by (auto simp: recorders)

text \<open>A handled client is turned away before routing, with at most a refusal counted, or routed.\<close>
lemma handleClient_metrics:
  assumes "handleClient nl al cl rt reg remote port now = (out, cl', rt', reg')"
  obtains "rt' = rt" "reg' = reg"
  | k where "rt' = rt\<lparr>rt_metrics := map_option (\<lambda>m. ClientRejected m k ''rate_limited'') (rt_metrics rt)\<rparr>" "reg' = reg"
  | k res where "Route_begin rt reg k port = (res, rt', reg')"
proof (cases "LookupPort rt port")
  case None
  then show ?thesis using assms that(1) by (simp add: handleClient_def)
next
  case (Some e)
  obtain k svc where e: "e = (k, svc)" by fastforce
  obtain res rt1 reg1 where r: "Route_begin rt reg k port = (res, rt1, reg1)" by (metis prod_cases3)
  from assms have "(rt' = rt\<lparr>rt_metrics := map_option (\<lambda>m. ClientRejected m k ''rate_limited'') (rt_metrics rt)\<rparr> \<and>
      reg' = reg) \<or> (rt' = rt1 \<and> reg' = reg1)"
    by (simp add: handleClient_def Some e r Let_def case_prod_beta split: if_splits sum.splits)
  then show ?thesis using that(2) that(3) r by metis
qed

text \<open>No call the relay makes on its metric vectors can panic: registering and removing agents,
  admitting, refusing and routing a client, and the end of a stream all pass as many label values
  as the vector declares and decrement gauges only.\<close>
theorem metrics_never_panic:
  assumes "well_labelled (rt_metrics rt)" "well_labelled (reg_metrics reg)"
  shows "well_labelled (reg_metrics (Register reg k c))" "well_labelled (reg_metrics (Unregister reg k))"
    and "well_labelled (rt_metrics (Route_opened rt k))" "well_labelled (rt_metrics (Route_done rt k))"
    and "handleClient nl al cl rt reg remote port now = (out, cl', rt', reg') \<Longrightarrow>
      well_labelled (rt_metrics rt') \<and> well_labelled (reg_metrics reg')"
proof -
  show "well_labelled (reg_metrics (Register reg k c))" "well_labelled (reg_metrics (Unregister reg k))"
    by (rule registry_labelled [OF assms(2)])+
  show "well_labelled (rt_metrics (Route_opened rt k))" "well_labelled (rt_metrics (Route_done rt k))"
    using assms(1) by (simp_all add: Route_opened_def Route_done_def recorders)
  assume h: "handleClient nl al cl rt reg remote port now = (out, cl', rt', reg')"
  from h show "well_labelled (rt_metrics rt') \<and> well_labelled (reg_metrics reg')"
    by (rule handleClient_metrics) (use assms Route_begin_labelled [OF assms] in \<open>simp_all add: recorders\<close>)
qed

text \<open>A counter never goes down.\<close>
lemma counters_monotone:
  assumes "well_labelled (Some (m @ m'))" "vd_kind (vecDesc [] v) = CounterVec"
  shows "promValue v ls m \<le> promValue v ls (m @ m')"
proof -
  have "0 \<le> promValue v ls m'" if "list_all callOK m'" for m'
    using that assms(2) by (induction v ls m' rule: promValue.induct) auto
  with assms(1) show ?thesis by (simp add: well_labelled_def)
qed

end
