(* ===== verification/Audit_Log.thy ===== *)
theory Audit_Log
  imports Prelude
begin

text \<open>
  The audit trail: \<^verbatim>\<open>src/pkg/audit/audit.go\<close> and \<^verbatim>\<open>src/pkg/audit/emitter.go\<close>.  The buffered
  channel is a list with a capacity; what the background goroutine hands to the logger is
  recorded in the order it does so.  \<^verbatim>\<open>Emit\<close> makes two selects, kept apart so that other
  goroutines can run between them.  Sending on a closed channel panics.
\<close>

section \<open>Events\<close>

datatype Action =
    ActionAgentConnected | ActionAgentDisconnected | ActionStreamOpened | ActionStreamClosed
  | ActionStreamReset | ActionAuthSuccess | ActionAuthFailure | ActionCertRotation | ActionGoAway
  | ActionHeartbeatTimeout | ActionAdminPortAdded | ActionAdminPortRemoved | ActionAdminPortUpdated
  | ActionAdminAgentDisconnected | ActionAdminReload

fun Action_string :: "Action \<Rightarrow> string" where
  "Action_string ActionAgentConnected = ''agent.connected''"
| "Action_string ActionAgentDisconnected = ''agent.disconnected''"
| "Action_string ActionStreamOpened = ''stream.opened''"
| "Action_string ActionStreamClosed = ''stream.closed''"
| "Action_string ActionStreamReset = ''stream.reset''"
| "Action_string ActionAuthSuccess = ''auth.success''"
| "Action_string ActionAuthFailure = ''auth.failure''"
| "Action_string ActionCertRotation = ''cert.rotation''"
| "Action_string ActionGoAway = ''connection.goaway''"
| "Action_string ActionHeartbeatTimeout = ''agent.heartbeat_timeout''"
| "Action_string ActionAdminPortAdded = ''admin.port_added''"
| "Action_string ActionAdminPortRemoved = ''admin.port_removed''"
| "Action_string ActionAdminPortUpdated = ''admin.port_updated''"
| "Action_string ActionAdminAgentDisconnected = ''admin.agent_disconnected''"
| "Action_string ActionAdminReload = ''admin.reload''"

text \<open>\<open>ev_Metadata\<close> lists the map in the order an iteration visits it.\<close>
record Event =
  ev_Action :: Action
  ev_Actor :: string
  ev_Target :: string
  ev_Timestamp :: int
  ev_RequestID :: string
  ev_CustomerID :: string
  ev_Metadata :: "(string \<times> string) list"

datatype attr_value = AttrString string | AttrTime int

definition logEvent :: "Event \<Rightarrow> (string \<times> attr_value) list" where
  "logEvent event =
     [(''action'', AttrString (Action_string (ev_Action event))),
      (''actor'', AttrString (ev_Actor event)),
      (''target'', AttrString (ev_Target event)),
      (''event_time'', AttrTime (ev_Timestamp event)),
      (''customer_id'', AttrString (ev_CustomerID event))]
     @ (if ev_RequestID event \<noteq> [] then [(''request_id'', AttrString (ev_RequestID event))] else [])
     @ map (\<lambda>(k, v). (''meta.'' @ k, AttrString v)) (ev_Metadata event)"

section \<open>The emitter\<close>

abbreviation (input) DefaultBufferSize :: int where "DefaultBufferSize \<equiv> 256"

record SlogEmitter =
  eventCh :: "Event list"
  bufferCap :: nat
  eventChClosed :: bool
  emitterClosed :: bool
  drainDone :: bool
  logged :: "Event list"

definition NewSlogEmitter :: "int \<Rightarrow> SlogEmitter" where
  "NewSlogEmitter bufferSize =
     \<lparr>eventCh = [], bufferCap = nat (if bufferSize \<le> 0 then DefaultBufferSize else bufferSize),
      eventChClosed = False, emitterClosed = False, drainDone = False, logged = []\<rparr>"

datatype emit_result = EmitOK | ErrEmitterClosed Action | EmitPanic

text \<open>The first select of \<^verbatim>\<open>Emit\<close>: an error when the emitter is closed, otherwise on to the second.\<close>
definition Emit_check :: "SlogEmitter \<Rightarrow> Event \<Rightarrow> emit_result option" where
  "Emit_check e event = (if emitterClosed e then Some (ErrEmitterClosed (ev_Action event)) else None)"

text \<open>The second select.  A send is ready on a closed channel too, and panics there; when the
  close signal is ready as well \<open>pick\<close> decides.\<close>
definition Emit_select :: "SlogEmitter \<Rightarrow> Event \<Rightarrow> bool \<Rightarrow> emit_result attempt \<times> SlogEmitter" where
  "Emit_select e event pick =
     (let sendReady = eventChClosed e \<or> length (eventCh e) < bufferCap e in
      if sendReady \<and> (\<not> emitterClosed e \<or> pick) then
        (if eventChClosed e then (Returned EmitPanic, e)
         else (Returned EmitOK, e\<lparr>eventCh := eventCh e @ [event]\<rparr>))
      else if emitterClosed e then (Returned (ErrEmitterClosed (ev_Action event)), e)
      else (Blocked, e))"

text \<open>\<^verbatim>\<open>Close\<close> inside its \<^verbatim>\<open>sync.Once\<close>, up to the wait for the drain loop, and the wait itself.\<close>
definition Emitter_Close :: "SlogEmitter \<Rightarrow> SlogEmitter" where
  "Emitter_Close e = (if emitterClosed e then e else e\<lparr>emitterClosed := True, eventChClosed := True\<rparr>)"

definition Emitter_Close_wait :: "SlogEmitter \<Rightarrow> unit attempt" where
  "Emitter_Close_wait e = (if drainDone e then Returned () else Blocked)"

text \<open>One iteration of \<^verbatim>\<open>drainLoop\<close>.\<close>
definition drainLoop_step :: "SlogEmitter \<Rightarrow> SlogEmitter" where
  "drainLoop_step e =
     (if drainDone e then e
      else
        (case eventCh e of
           event # rest \<Rightarrow> e\<lparr>eventCh := rest, logged := logged e @ [event]\<rparr>
         | [] \<Rightarrow> if eventChClosed e then e\<lparr>drainDone := True\<rparr> else e))"

section \<open>Schedules\<close>

text \<open>Calls of \<^verbatim>\<open>Emit\<close> that have passed their first select wait in \<open>pending\<close>; \<open>accepted\<close> are the
  events whose call returned without an error, \<open>panics\<close> counts those that panicked.\<close>
record audit_world =
  emitter :: SlogEmitter
  pending :: "Event list"
  acceptedEvents :: "Event list"
  panics :: nat

datatype audit_action = EmitCall Event | EmitGo nat bool | CloseCall | DrainStep

definition audit_exec :: "audit_world \<Rightarrow> audit_action \<Rightarrow> audit_world" where
  "audit_exec w a =
     (case a of
        EmitCall ev \<Rightarrow>
          (case Emit_check (emitter w) ev of Some _ \<Rightarrow> w | None \<Rightarrow> w\<lparr>pending := pending w @ [ev]\<rparr>)
      | EmitGo n pick \<Rightarrow>
          if n < length (pending w) then
            let ev = pending w ! n; (r, e') = Emit_select (emitter w) ev pick;
                w' = w\<lparr>emitter := e', pending := take n (pending w) @ drop (Suc n) (pending w)\<rparr>
            in (case r of
                  Blocked \<Rightarrow> w
                | Returned EmitOK \<Rightarrow> w'\<lparr>acceptedEvents := acceptedEvents w @ [ev]\<rparr>
                | Returned EmitPanic \<Rightarrow> w'\<lparr>panics := panics w + 1\<rparr>
                | Returned (ErrEmitterClosed _) \<Rightarrow> w')
          else w
      | CloseCall \<Rightarrow> w\<lparr>emitter := Emitter_Close (emitter w)\<rparr>
      | DrainStep \<Rightarrow> w\<lparr>emitter := drainLoop_step (emitter w)\<rparr>)"

definition audit_run :: "int \<Rightarrow> audit_action list \<Rightarrow> audit_world" where
  "audit_run bufferSize =
     foldl audit_exec \<lparr>emitter = NewSlogEmitter bufferSize, pending = [], acceptedEvents = [], panics = 0\<rparr>"

definition audit_inv :: "audit_world \<Rightarrow> bool" where
  "audit_inv w \<longleftrightarrow>
     logged (emitter w) @ eventCh (emitter w) = acceptedEvents w \<and>
     length (eventCh (emitter w)) \<le> bufferCap (emitter w) \<and> bufferCap (emitter w) > 0 \<and>
     emitterClosed (emitter w) = eventChClosed (emitter w) \<and>
     (drainDone (emitter w) \<longrightarrow> eventCh (emitter w) = [] \<and> eventChClosed (emitter w)) \<and>
     (panics w > 0 \<longrightarrow> emitterClosed (emitter w))"

lemma audit_inv_emit:
  assumes "audit_inv w" shows "audit_inv (audit_exec w (EmitGo n pick))"
  using assms
  by (auto simp: audit_inv_def audit_exec_def Emit_select_def Let_def split: if_splits)

lemma audit_inv_exec:
  assumes "audit_inv w" shows "audit_inv (audit_exec w a)"
proof (cases a)
  case (EmitGo n pick)
  then show ?thesis using audit_inv_emit [OF assms] by simp
qed (use assms in \<open>auto simp: audit_inv_def audit_exec_def Emit_check_def Emitter_Close_def drainLoop_step_def
    split: list.splits\<close>)

lemma audit_inv_run: "audit_inv (audit_run bufferSize actions)"
proof -
  have "audit_inv w \<Longrightarrow> audit_inv (foldl audit_exec w actions)" for w
    by (induction actions arbitrary: w) (simp_all add: audit_inv_exec)
  moreover have "audit_inv \<lparr>emitter = NewSlogEmitter bufferSize, pending = [], acceptedEvents = [], panics = 0\<rparr>"
    by (simp add: audit_inv_def NewSlogEmitter_def)
  ultimately show ?thesis unfolding audit_run_def by blast
qed

text \<open>With the channel closed the loop finishes within as many iterations as it holds events.\<close>
lemma drainLoop_finishes:
  assumes "eventChClosed e" "\<not> drainDone e"
  shows "drainDone ((drainLoop_step ^^ Suc (length (eventCh e))) e) \<and>
         logged ((drainLoop_step ^^ Suc (length (eventCh e))) e) = logged e @ eventCh e"
  using assms
proof (induction "eventCh e" arbitrary: e)
  case Nil
  then show ?case by (simp add: drainLoop_step_def)
next
  case (Cons ev rest)
  let ?e = "drainLoop_step e"
  have ec: "eventCh e = ev # rest" using Cons.hyps(2) by simp
  have f: "eventCh ?e = rest" "logged ?e = logged e @ [ev]" "eventChClosed ?e" "\<not> drainDone ?e"
    using ec Cons.prems by (simp_all add: drainLoop_step_def)
  have "(drainLoop_step ^^ Suc (length (eventCh e))) e = (drainLoop_step ^^ Suc (length rest)) ?e"
    unfolding ec by (simp only: list.size funpow_Suc_right o_apply add_0_right add_Suc_right One_nat_def)
  with Cons.hyps(1) [of ?e] f ec show ?case by (simp del: funpow.simps)
qed


text \<open>An Emit that passed its first select before Close can find both the close signal and the
  closed event channel ready in its second one, and when it takes the send it panics.\<close>
theorem emit_close_race_panics:
  "panics (audit_run 8 [EmitCall ev, CloseCall, EmitGo 0 True]) = 1 \<and>
   panics (audit_run 8 [EmitCall ev, CloseCall, EmitGo 0 False]) = 0"
  by (simp add: audit_run_def audit_exec_def NewSlogEmitter_def Emit_check_def Emit_select_def Emitter_Close_def)

end
