(* ===== verification/Auth.thy ===== *)
theory Auth
  imports Go_Text
begin

text \<open>
  Identities and certificates: \<^verbatim>\<open>src/pkg/auth/identity.go\<close>, \<^verbatim>\<open>certs_impl.go\<close> and \<^verbatim>\<open>mtls.go\<close>.
  Cryptography is an argument: \<open>sha\<close> the hash, \<open>keyPair\<close> the parser of a certificate and its key,
  \<open>parsePool\<close> the parser of a CA bundle, \<open>pemDecode\<close> the PEM reader.  A file that cannot be read
  has content None.
\<close>

section \<open>Hexadecimal fingerprints\<close>

definition hexDigit :: "nat \<Rightarrow> char" where
  "hexDigit n = ''0123456789abcdef'' ! n"

definition hexEncode :: "bytes \<Rightarrow> string" where
  "hexEncode bs = concat (map (\<lambda>b. [hexDigit (unat b div 16), hexDigit (unat b mod 16)]) bs)"

definition CertFingerprint :: "(bytes \<Rightarrow> bytes) \<Rightarrow> bytes \<Rightarrow> string" where
  "CertFingerprint sha raw = hexEncode (sha raw)"

lemma hexDigit_inj: "m < 16 \<Longrightarrow> n < 16 \<Longrightarrow> hexDigit m = hexDigit n \<Longrightarrow> m = n"
proof -
  have "distinct ''0123456789abcdef''" by simp
  moreover have "length ''0123456789abcdef'' = 16" by simp
  ultimately show "m < 16 \<Longrightarrow> n < 16 \<Longrightarrow> hexDigit m = hexDigit n \<Longrightarrow> m = n"
    unfolding hexDigit_def by (metis nth_eq_iff_index_eq)
qed

lemma hexEncode_inj: "hexEncode xs = hexEncode ys \<Longrightarrow> xs = ys"
proof (induction xs arbitrary: ys)
  case Nil
  then show ?case by (cases ys) (simp_all add: hexEncode_def)
next
  case (Cons x xs)
  then obtain y zs where ys: "ys = y # zs" by (cases ys) (auto simp: hexEncode_def)
  have bound: "unat b div 16 < 16" for b :: byte using unat_byte_less [of b] by auto
  have d: "unat x div 16 = unat y div 16" "unat x mod 16 = unat y mod 16" and rest: "hexEncode xs = hexEncode zs"
    using Cons.prems bound unfolding ys by (auto simp: hexEncode_def intro: hexDigit_inj)
  from d have "unat x = unat y" by (metis div_mult_mod_eq)
  then show ?case using Cons.IH [OF rest] ys by (simp add: word_unat_eq_iff)
qed

section \<open>The identity in a certificate\<close>

record Identity =
  id_CustomerID :: string
  id_RelayID :: string
  id_CertFingerprint :: string
  id_NotBefore :: int
  id_NotAfter :: int

record peer_cert =
  CommonName :: string
  Raw :: bytes
  pcert_NotBefore :: int
  pcert_NotAfter :: int

datatype identity_error = ErrNoPeerCertificates | ErrUnexpectedCN string

definition ExtractIdentity :: "(bytes \<Rightarrow> bytes) \<Rightarrow> peer_cert list \<Rightarrow> identity_error + Identity" where
  "ExtractIdentity sha PeerCertificates =
     (case PeerCertificates of
        [] \<Rightarrow> Inl ErrNoPeerCertificates
      | cert # _ \<Rightarrow>
          let cn = CommonName cert;
              i = \<lparr>id_CustomerID = [], id_RelayID = [], id_CertFingerprint = hexEncode (sha (Raw cert)),
                   id_NotBefore = pcert_NotBefore cert, id_NotAfter = pcert_NotAfter cert\<rparr>
          in if hasPrefix cn ''customer-'' then Inr (i\<lparr>id_CustomerID := cn\<rparr>)
             else if hasPrefix cn ''relay'' then Inr (i\<lparr>id_RelayID := cn\<rparr>)
             else Inl (ErrUnexpectedCN cn))"

text \<open>An identity is a customer's or a relay's, never both, and only the first certificate counts.\<close>
lemma ExtractIdentity_cases:
  assumes "ExtractIdentity sha certs = Inr i"
  obtains cert rest where "certs = cert # rest" "id_NotAfter i = pcert_NotAfter cert"
    "id_CertFingerprint i = CertFingerprint sha (Raw cert)"
    "(hasPrefix (CommonName cert) ''customer-'' \<and> id_CustomerID i = CommonName cert \<and> id_RelayID i = []) \<or>
     (hasPrefix (CommonName cert) ''relay'' \<and> id_RelayID i = CommonName cert \<and> id_CustomerID i = [])"
  using assms by (auto simp: ExtractIdentity_def Let_def CertFingerprint_def split: list.splits if_splits)

section \<open>Certificate files\<close>

datatype cert_error = ErrLoadCertificate | ErrReadCA | ErrNoValidCA

definition LoadCertificate :: "(string \<Rightarrow> string \<Rightarrow> 'c option) \<Rightarrow> string \<Rightarrow> string \<Rightarrow> cert_error + 'c" where
  "LoadCertificate keyPair certPath keyPath =
     (case keyPair certPath keyPath of None \<Rightarrow> Inl ErrLoadCertificate | Some c \<Rightarrow> Inr c)"

definition LoadCertificateAuthority ::
  "(string \<Rightarrow> bytes option) \<Rightarrow> (bytes \<Rightarrow> 'p option) \<Rightarrow> string \<Rightarrow> cert_error + 'p" where
  "LoadCertificateAuthority readFile parsePool path =
     (case readFile path of
        None \<Rightarrow> Inl ErrReadCA
      | Some pemData \<Rightarrow> (case parsePool pemData of None \<Rightarrow> Inl ErrNoValidCA | Some pool \<Rightarrow> Inr pool))"

datatype chain_error = ErrChainRead | ErrChainNone | ErrChainBareLeaf

text \<open>The counting loop; not returning is None.\<close>
partial_function (option) countCerts ::
  "(bytes \<Rightarrow> (string \<times> bytes) option) \<Rightarrow> bytes \<Rightarrow> nat \<Rightarrow> nat option" where
  "countCerts pemDecode rest count =
     (case pemDecode rest of
        None \<Rightarrow> Some count
      | Some (t, rest') \<Rightarrow> countCerts pemDecode rest' (if t = ''CERTIFICATE'' then count + 1 else count))"

definition ValidateChainCertFile ::
  "(string \<Rightarrow> bytes option) \<Rightarrow> (bytes \<Rightarrow> (string \<times> bytes) option) \<Rightarrow> string \<Rightarrow> (chain_error option) option" where
  "ValidateChainCertFile readFile pemDecode path =
     (case readFile path of
        None \<Rightarrow> Some (Some ErrChainRead)
      | Some data \<Rightarrow>
          (case countCerts pemDecode data 0 of
             None \<Rightarrow> None
           | Some count \<Rightarrow>
               Some (if count = 0 then Some ErrChainNone
                     else if count = 1 then Some ErrChainBareLeaf
                     else None)))"

text \<open>The types of the blocks a file holds, reading at most \<open>n\<close> of them.\<close>
fun pemTypes :: "nat \<Rightarrow> (bytes \<Rightarrow> (string \<times> bytes) option) \<Rightarrow> bytes \<Rightarrow> string list" where
  "pemTypes 0 dec d = []"
| "pemTypes (Suc n) dec d = (case dec d of None \<Rightarrow> [] | Some (t, r) \<Rightarrow> t # pemTypes n dec r)"

lemma countCerts_total:
  assumes consumes: "\<And>d t r. dec d = Some (t, r) \<Longrightarrow> length r < length d" and "length d \<le> n"
  shows "countCerts dec d k = Some (k + count_list (pemTypes (Suc n) dec d) ''CERTIFICATE'')"
  using assms(2)
proof (induction n arbitrary: d k)
  case 0
  then have "dec d = None" using consumes [of d] by (cases "dec d") auto
  then show ?case by (simp add: countCerts.simps)
next
  case (Suc n)
  show ?case
  proof (cases "dec d")
    case None
    then show ?thesis by (simp add: countCerts.simps)
  next
    case (Some p)
    obtain t r where p: "p = (t, r)" by fastforce
    have "length r \<le> n" using consumes [of d t r] Some p Suc.prems by simp
    note IH = Suc.IH [OF this]
    show ?thesis by (subst countCerts.simps) (simp add: Some p IH)
  qed
qed

text \<open>The chain check always returns, provided the PEM reader consumes input with every block it
  finds: it accepts exactly the readable files with at least two certificates, whatever other
  blocks are among them.\<close>
theorem chain_check_terminates:
  assumes "\<And>d t r. pemDecode d = Some (t, r) \<Longrightarrow> length r < length d"
  shows "\<exists>res. ValidateChainCertFile readFile pemDecode path = Some res \<and>
    (res = None \<longleftrightarrow> (\<exists>data. readFile path = Some data \<and>
       2 \<le> count_list (pemTypes (Suc (length data)) pemDecode data) ''CERTIFICATE''))"
proof (cases "readFile path")
  case (Some data)
  have "countCerts pemDecode data 0 =
    Some (count_list (pemTypes (Suc (length data)) pemDecode data) ''CERTIFICATE'')"
    using countCerts_total [of pemDecode data "length data" 0] assms by simp
  then show ?thesis using Some by (auto simp: ValidateChainCertFile_def)
qed (simp add: ValidateChainCertFile_def)

text \<open>A reader that takes each byte for a block, a certificate when it is 1, for the example.\<close>
definition byteBlocks :: "bytes \<Rightarrow> (string \<times> bytes) option" where
  "byteBlocks d = (case d of [] \<Rightarrow> None | b # r \<Rightarrow> Some (if b = 1 then ''CERTIFICATE'' else ''KEY'', r))"

theorem chain_check_terminates_witness:
  "\<exists>res. ValidateChainCertFile (\<lambda>_. Some [1, 2, 1]) byteBlocks ''chain.crt'' = Some res \<and> res = None"
proof -
  have "\<And>d t r. byteBlocks d = Some (t, r) \<Longrightarrow> length r < length d"
    by (auto simp: byteBlocks_def split: list.splits)
  from chain_check_terminates [where pemDecode = byteBlocks and readFile = "\<lambda>_. Some [1, 2, 1]" and path = "''chain.crt''", OF this] show ?thesis
    by (auto simp: byteBlocks_def)
qed

section \<open>TLS configurations\<close>

record tlsOptions =
  opt_MinVersion :: "16 word"
  opt_SessionCache :: "int option"

datatype TLSOption = WithSessionCache int | WithMinVersion "16 word"

abbreviation (input) VersionTLS13 :: "16 word" where "VersionTLS13 \<equiv> 0x0304"

fun applyTLSOption :: "tlsOptions \<Rightarrow> TLSOption \<Rightarrow> tlsOptions" where
  "applyTLSOption o1 (WithSessionCache capacity) = o1\<lparr>opt_SessionCache := Some capacity\<rparr>"
| "applyTLSOption o1 (WithMinVersion version) = o1\<lparr>opt_MinVersion := version\<rparr>"

record TLSFiles =
  tf_CertFile :: string
  tf_KeyFile :: string
  tf_CAFile :: string
  tf_ClientCAFile :: string
  tf_ServerName :: string

record 'c Configurator =
  cf_paths :: TLSFiles
  currentCert :: "'c option"

datatype ClientAuthType = NoClientCert | RequireAndVerifyClientCert

record 'p tls_config =
  MinVersion :: "16 word"
  ClientAuth :: ClientAuthType
  ClientCAs :: "'p option"
  RootCAs :: "'p option"
  tc_ServerName :: string
  ClientSessionCache :: "int option"

definition NewConfigurator :: "TLSFiles \<Rightarrow> 'c Configurator" where
  "NewConfigurator paths = \<lparr>cf_paths = paths, currentCert = None\<rparr>"

definition Configurator_Reload :: "'c Configurator \<Rightarrow> 'c \<Rightarrow> 'c Configurator" where
  "Configurator_Reload cf cert = cf\<lparr>currentCert := Some cert\<rparr>"

text \<open>The callback of both configurations: what is served is read at handshake time.\<close>
definition GetCertificate :: "'c Configurator \<Rightarrow> 'c option" where
  "GetCertificate cf = currentCert cf"

datatype tls_error = ErrTLSCert cert_error | ErrTLSAuthority cert_error

definition ServerTLSConfig ::
  "(string \<Rightarrow> string \<Rightarrow> 'c option) \<Rightarrow> (string \<Rightarrow> bytes option) \<Rightarrow> (bytes \<Rightarrow> 'p option) \<Rightarrow>
   'c Configurator \<Rightarrow> TLSOption list \<Rightarrow> (tls_error + 'p tls_config) \<times> 'c Configurator" where
  "ServerTLSConfig keyPair readFile parsePool cf opts =
     (let os = foldl applyTLSOption \<lparr>opt_MinVersion = VersionTLS13, opt_SessionCache = None\<rparr> opts in
      (case LoadCertificate keyPair (tf_CertFile (cf_paths cf)) (tf_KeyFile (cf_paths cf)) of
         Inl e \<Rightarrow> (Inl (ErrTLSCert e), cf)
       | Inr cert \<Rightarrow>
           let cf1 = cf\<lparr>currentCert := Some cert\<rparr> in
           (case LoadCertificateAuthority readFile parsePool (tf_ClientCAFile (cf_paths cf)) of
              Inl e \<Rightarrow> (Inl (ErrTLSAuthority e), cf1)
            | Inr pool \<Rightarrow>
                (Inr \<lparr>MinVersion = opt_MinVersion os, ClientAuth = RequireAndVerifyClientCert,
                      ClientCAs = Some pool, RootCAs = None, tc_ServerName = [], ClientSessionCache = None\<rparr>, cf1))))"

definition ClientTLSConfig ::
  "(string \<Rightarrow> string \<Rightarrow> 'c option) \<Rightarrow> (string \<Rightarrow> bytes option) \<Rightarrow> (bytes \<Rightarrow> 'p option) \<Rightarrow>
   'c Configurator \<Rightarrow> TLSOption list \<Rightarrow> (tls_error + 'p tls_config) \<times> 'c Configurator" where
  "ClientTLSConfig keyPair readFile parsePool cf opts =
     (let os = foldl applyTLSOption \<lparr>opt_MinVersion = VersionTLS13, opt_SessionCache = None\<rparr> opts in
      (case LoadCertificate keyPair (tf_CertFile (cf_paths cf)) (tf_KeyFile (cf_paths cf)) of
         Inl e \<Rightarrow> (Inl (ErrTLSCert e), cf)
       | Inr cert \<Rightarrow>
           let cf1 = cf\<lparr>currentCert := Some cert\<rparr> in
           (case LoadCertificateAuthority readFile parsePool (tf_CAFile (cf_paths cf)) of
              Inl e \<Rightarrow> (Inl (ErrTLSAuthority e), cf1)
            | Inr pool \<Rightarrow>
                (Inr \<lparr>MinVersion = opt_MinVersion os, ClientAuth = NoClientCert, ClientCAs = None,
                      RootCAs = Some pool, tc_ServerName = tf_ServerName (cf_paths cf),
                      ClientSessionCache = opt_SessionCache os\<rparr>, cf1))))"

lemma options_keep_version:
  assumes "\<forall>v. WithMinVersion v \<notin> set opts"
  shows "opt_MinVersion (foldl applyTLSOption os opts) = opt_MinVersion os"
  using assms
proof (induction opts arbitrary: os)
  case (Cons a opts)
  then show ?case by (cases a) auto
qed simp

text \<open>Both sides verify the other: the relay demands a client certificate under its client CA, the
  agent checks the relay under its own CA and name, and TLS 1.3 is the floor unless an option
  says otherwise.\<close>
lemma tls_configs_verify_peer:
  assumes "ServerTLSConfig keyPair readFile parsePool cf opts = (Inr s, cf1)"
    and "ClientTLSConfig keyPair readFile parsePool cf' opts' = (Inr c, cf1')"
    and "\<forall>v. WithMinVersion v \<notin> set (opts @ opts')"
  shows "MinVersion s = VersionTLS13 \<and> MinVersion c = VersionTLS13 \<and>
    ClientAuth s = RequireAndVerifyClientCert \<and>
    ClientCAs s = Option.bind (readFile (tf_ClientCAFile (cf_paths cf))) parsePool \<and>
    RootCAs c = Option.bind (readFile (tf_CAFile (cf_paths cf'))) parsePool \<and>
    tc_ServerName c = tf_ServerName (cf_paths cf') \<and>
    GetCertificate cf1 = keyPair (tf_CertFile (cf_paths cf)) (tf_KeyFile (cf_paths cf))"
  using assms options_keep_version [of opts] options_keep_version [of opts']
  by (auto simp: ServerTLSConfig_def ClientTLSConfig_def LoadCertificate_def LoadCertificateAuthority_def
      GetCertificate_def Let_def split: sum.splits option.splits)

section \<open>Rotation\<close>

abbreviation (input) DefaultCheckInterval :: int where "DefaultCheckInterval \<equiv> 24 * 60 * 60 * 10 ^ 9"

record FileStore = checkInterval :: int

datatype FileStoreOption = WithCheckInterval int | WithLogger

definition NewFileStore :: "FileStoreOption list \<Rightarrow> FileStore" where
  "NewFileStore opts =
     foldl (\<lambda>s opt. case opt of WithCheckInterval d \<Rightarrow> s\<lparr>checkInterval := d\<rparr> | WithLogger \<Rightarrow> s)
       \<lparr>checkInterval = DefaultCheckInterval\<rparr> opts"

definition certFingerprint :: "(bytes \<Rightarrow> bytes) \<Rightarrow> bytes option \<Rightarrow> string option" where
  "certFingerprint sha content = map_option (\<lambda>data. hexEncode (sha data)) content"

text \<open>The start of \<^verbatim>\<open>WatchForRotation\<close> and one tick of it, with what the certificate file holds and
  how loading the pair ends at that moment.\<close>
definition Watch_begin :: "(bytes \<Rightarrow> bytes) \<Rightarrow> bytes option \<Rightarrow> string option" where
  "Watch_begin sha content = certFingerprint sha content"

definition Watch_tick ::
  "(bytes \<Rightarrow> bytes) \<Rightarrow> string \<Rightarrow> bytes option \<Rightarrow> 'c option \<Rightarrow> string \<times> 'c option" where
  "Watch_tick sha lastFingerprint content pair =
     (case certFingerprint sha content of
        None \<Rightarrow> (lastFingerprint, None)
      | Some fp \<Rightarrow>
          if fp = lastFingerprint then (lastFingerprint, None)
          else (case pair of None \<Rightarrow> (lastFingerprint, None) | Some cert \<Rightarrow> (fp, Some cert)))"

text \<open>The watcher wired to \<^verbatim>\<open>Reload\<close>, over a list of ticks.\<close>
fun watch_run ::
  "(bytes \<Rightarrow> bytes) \<Rightarrow> string \<times> 'c Configurator \<Rightarrow> (bytes option \<times> 'c option) list \<Rightarrow> string \<times> 'c Configurator" where
  "watch_run sha (fp, cf) [] = (fp, cf)"
| "watch_run sha (fp, cf) ((content, pair) # ticks) =
     (case Watch_tick sha fp content pair of
        (fp', None) \<Rightarrow> watch_run sha (fp', cf) ticks
      | (fp', Some cert) \<Rightarrow> watch_run sha (fp', Configurator_Reload cf cert) ticks)"

text \<open>What should be served: the pair loaded at the first tick that saw the content last adopted,
  where a content is adopted when it is readable, new and loads.\<close>
fun adopted :: "bytes \<times> 'c option \<Rightarrow> (bytes option \<times> 'c option) list \<Rightarrow> bytes \<times> 'c option" where
  "adopted (d, c) [] = (d, c)"
| "adopted (d, c) ((content, pair) # ticks) =
     (case (content, pair) of
        (Some d', Some c') \<Rightarrow> if d' \<noteq> d then adopted (d', Some c') ticks else adopted (d, c) ticks
      | _ \<Rightarrow> adopted (d, c) ticks)"

lemma watch_run_adopted:
  assumes "inj_on sha S" "d \<in> S" "\<forall>t \<in> set ticks. \<forall>d'. fst t = Some d' \<longrightarrow> d' \<in> S"
  shows "watch_run sha (hexEncode (sha d), cf) ticks =
    (hexEncode (sha (fst (adopted (d, currentCert cf) ticks))),
     cf\<lparr>currentCert := snd (adopted (d, currentCert cf) ticks)\<rparr>)"
  using assms(2,3)
proof (induction ticks arbitrary: d cf)
  case (Cons t ticks)
  obtain content pair where t: "t = (content, pair)" by fastforce
  have eq: "hexEncode (sha d') = hexEncode (sha d) \<longleftrightarrow> d' = d" if "content = Some d'" for d'
    using that Cons.prems t inj_onD [OF assms(1), of d' d] by (auto dest: hexEncode_inj)
  show ?case
  proof (cases "\<exists>d' c'. content = Some d' \<and> pair = Some c' \<and> d' \<noteq> d")
    case True
    then obtain d' c' where dc: "content = Some d'" "pair = Some c'" "d' \<noteq> d" by blast
    then show ?thesis using Cons.IH [of d' "Configurator_Reload cf c'"] Cons.prems eq [of d'] t
      by (simp add: Watch_tick_def certFingerprint_def Configurator_Reload_def)
  next
    case False
    then have "watch_run sha (hexEncode (sha d), cf) (t # ticks) = watch_run sha (hexEncode (sha d), cf) ticks"
      using eq t by (auto simp: Watch_tick_def certFingerprint_def split: option.splits)
    moreover have "adopted (d, currentCert cf) (t # ticks) = adopted (d, currentCert cf) ticks"
      using False t by (auto split: option.splits)
    ultimately show ?thesis using Cons by simp
  qed
qed simp

text \<open>Watching fingerprints adopts the same certificates as comparing whole files would, as long
  as the hash does not collide on the contents seen: an unreadable file or a pair that does not
  load leaves the served certificate alone and is tried again, and every new pair that loads is
  served from the next handshake on.\<close>
theorem rotation_follows_files:
  assumes "inj_on sha ({d0} \<union> {d. Some d \<in> fst ` set ticks})" "Watch_begin sha (Some d0) = Some fp"
  shows "GetCertificate (snd (watch_run sha (fp, cf) ticks)) = snd (adopted (d0, GetCertificate cf) ticks)"
  using watch_run_adopted [OF assms(1), of d0 ticks cf] assms(2)
  by (force simp: Watch_begin_def certFingerprint_def GetCertificate_def)

definition exampleFiles :: TLSFiles where
  "exampleFiles = \<lparr>tf_CertFile = ''relay.crt'', tf_KeyFile = ''relay.key'', tf_CAFile = [],
     tf_ClientCAFile = ''customer-ca.crt'', tf_ServerName = []\<rparr>"

theorem rotation_follows_files_witness:
  "GetCertificate (snd (watch_run (\<lambda>d. d) (hexEncode [1], NewConfigurator exampleFiles)
     [(Some [2], None), (None, Some ''x''), (Some [2], Some ''new''), (Some [2], Some ''newer'')])) = Some ''new''"
  using rotation_follows_files [of "\<lambda>d. d" "[1]"
    "[(Some [2], None), (None, Some ''x''), (Some [2], Some ''new''), (Some [2], Some ''newer'')]"
    "hexEncode [1]" "NewConfigurator exampleFiles"]
  by (simp add: Watch_begin_def certFingerprint_def)

end
