(* ===== verification/Config.thy ===== *)
theory Config
  imports Prelude Complex_Main
begin

text \<open>
  Configuration: \<^verbatim>\<open>src/pkg/config/config.go\<close>, \<^verbatim>\<open>loader.go\<close>.  Records follow the structs,
  with a prefix per struct since field names recur.  Reading a file, parsing YAML and the
  environment are arguments of the loaders.  Durations are integers (nanoseconds) and a
  \<^verbatim>\<open>float64\<close> is the rational it denotes.
\<close>

section \<open>Configuration data\<close>

record ServerConfig =
  sc_ListenAddr :: string
  sc_AdminAddr :: string
  sc_AdminSocket :: string
  sc_AgentListenAddr :: string
  sc_MaxAgents :: int
  sc_MaxStreamsPerAgent :: int
  sc_IdleTimeout :: int
  sc_ShutdownGracePeriod :: int
  sc_StorePath :: string

record TLSPaths =
  CertFile :: string
  KeyFile :: string
  CAFile :: string
  ClientCAFile :: string

record RateLimitConfig =
  RequestsPerSecond :: rat
  Burst :: int

record PortConfig =
  pc_Port :: int
  pc_Service :: string
  pc_Description :: string
  pc_ListenAddr :: string

record CustomerConfig =
  cc_ID :: string
  cc_Ports :: "PortConfig list"
  cc_MaxConnections :: int
  cc_MaxStreams :: int
  cc_MaxBandwidthMbps :: int
  cc_RateLimit :: RateLimitConfig

record LogConfig =
  log_Level :: string
  log_Format :: string
  log_Output :: string

record MetricsConfig =
  met_Enabled :: bool
  met_ListenAddr :: string

record RelayConfig =
  Server :: ServerConfig
  relay_TLS :: TLSPaths
  Customers :: "CustomerConfig list"
  relay_Logging :: LogConfig
  relay_Metrics :: MetricsConfig

record RelayConnection =
  rc_Addr :: string
  rc_ServerName :: string
  rc_InsecureSkipVerify :: bool
  rc_ReconnectInterval :: int
  rc_MaxReconnectBackoff :: int
  rc_KeepaliveInterval :: int
  rc_KeepaliveTimeout :: int

record UpdateConfig =
  upd_Enabled :: bool
  upd_CheckInterval :: int
  upd_ManifestURL :: string
  upd_PublicKeyPath :: string

record ServiceMapping =
  sm_Name :: string
  sm_Protocol :: string
  sm_LocalAddr :: string
  sm_RelayPort :: int

record AgentConfig =
  ac_Relay :: RelayConnection
  ac_TLS :: TLSPaths
  ac_Services :: "ServiceMapping list"
  ac_Logging :: LogConfig
  ac_Update :: UpdateConfig

section \<open>Loading\<close>

datatype config_error =
    ErrConfigRead string | ErrConfigParse string | ErrRequired string | ErrNoCustomers
  | ErrCustomerID nat

text \<open>\<^verbatim>\<open>if v := os.Getenv(name); v != ""\<close>: the variable when set, else the present value.\<close>
definition override :: "(string \<Rightarrow> string) \<Rightarrow> string \<Rightarrow> string \<Rightarrow> string" where
  "override getenv name v = (if getenv name \<noteq> [] then getenv name else v)"

definition applyAgentEnvOverrides :: "(string \<Rightarrow> string) \<Rightarrow> AgentConfig \<Rightarrow> AgentConfig" where
  "applyAgentEnvOverrides getenv cfg =
     cfg\<lparr>ac_Relay := (ac_Relay cfg)\<lparr>rc_Addr := override getenv ''ATLAX_RELAY_ADDR'' (rc_Addr (ac_Relay cfg))\<rparr>,
         ac_TLS := (ac_TLS cfg)
           \<lparr>CertFile := override getenv ''ATLAX_TLS_CERT'' (CertFile (ac_TLS cfg)),
            KeyFile := override getenv ''ATLAX_TLS_KEY'' (KeyFile (ac_TLS cfg)),
            CAFile := override getenv ''ATLAX_TLS_CA'' (CAFile (ac_TLS cfg))\<rparr>,
         ac_Logging := (ac_Logging cfg)\<lparr>log_Level := override getenv ''ATLAX_LOG_LEVEL'' (log_Level (ac_Logging cfg))\<rparr>\<rparr>"

definition validateAgentConfig :: "AgentConfig \<Rightarrow> config_error option" where
  "validateAgentConfig cfg =
     (if rc_Addr (ac_Relay cfg) = [] then Some (ErrRequired ''relay.addr'')
      else if CertFile (ac_TLS cfg) = [] then Some (ErrRequired ''tls.cert_file'')
      else if KeyFile (ac_TLS cfg) = [] then Some (ErrRequired ''tls.key_file'')
      else if CAFile (ac_TLS cfg) = [] then Some (ErrRequired ''tls.ca_file'')
      else None)"

definition applyRelayEnvOverrides :: "(string \<Rightarrow> string) \<Rightarrow> RelayConfig \<Rightarrow> RelayConfig" where
  "applyRelayEnvOverrides getenv cfg =
     cfg\<lparr>Server := (Server cfg)
           \<lparr>sc_ListenAddr := override getenv ''ATLAX_LISTEN_ADDR'' (sc_ListenAddr (Server cfg)),
            sc_AgentListenAddr := override getenv ''ATLAX_AGENT_LISTEN_ADDR'' (sc_AgentListenAddr (Server cfg))\<rparr>,
         relay_TLS := (relay_TLS cfg)
           \<lparr>CertFile := override getenv ''ATLAX_TLS_CERT'' (CertFile (relay_TLS cfg)),
            KeyFile := override getenv ''ATLAX_TLS_KEY'' (KeyFile (relay_TLS cfg)),
            CAFile := override getenv ''ATLAX_TLS_CA'' (CAFile (relay_TLS cfg)),
            ClientCAFile := override getenv ''ATLAX_TLS_CLIENT_CA'' (ClientCAFile (relay_TLS cfg))\<rparr>,
         relay_Logging := (relay_Logging cfg)\<lparr>log_Level := override getenv ''ATLAX_LOG_LEVEL'' (log_Level (relay_Logging cfg))\<rparr>\<rparr>"

text \<open>The loop over \<^verbatim>\<open>cfg.Customers\<close>, from index \<open>i\<close>.\<close>
fun validateCustomers :: "nat \<Rightarrow> CustomerConfig list \<Rightarrow> config_error option" where
  "validateCustomers i [] = None"
| "validateCustomers i (c # cs) =
     (if cc_ID c = [] then Some (ErrCustomerID i) else validateCustomers (i + 1) cs)"

definition validateRelayConfig :: "RelayConfig \<Rightarrow> config_error option" where
  "validateRelayConfig cfg =
     (if sc_ListenAddr (Server cfg) = [] then Some (ErrRequired ''server.listen_addr'')
      else if CertFile (relay_TLS cfg) = [] then Some (ErrRequired ''tls.cert_file'')
      else if KeyFile (relay_TLS cfg) = [] then Some (ErrRequired ''tls.key_file'')
      else if ClientCAFile (relay_TLS cfg) = [] then Some (ErrRequired ''tls.client_ca_file'')
      else if Customers cfg = [] then Some ErrNoCustomers
      else validateCustomers 0 (Customers cfg))"

definition LoadAgentConfig ::
  "(string \<Rightarrow> 'b option) \<Rightarrow> ('b \<Rightarrow> AgentConfig option) \<Rightarrow> (string \<Rightarrow> string) \<Rightarrow> string \<Rightarrow>
   config_error + AgentConfig" where
  "LoadAgentConfig readFile unmarshal getenv path =
     (case readFile path of
        None \<Rightarrow> Inl (ErrConfigRead path)
      | Some b \<Rightarrow>
          (case unmarshal b of
             None \<Rightarrow> Inl (ErrConfigParse path)
           | Some cfg0 \<Rightarrow>
               let cfg = applyAgentEnvOverrides getenv cfg0 in
               (case validateAgentConfig cfg of Some e \<Rightarrow> Inl e | None \<Rightarrow> Inr cfg)))"

definition LoadRelayConfig ::
  "(string \<Rightarrow> 'b option) \<Rightarrow> ('b \<Rightarrow> RelayConfig option) \<Rightarrow> (string \<Rightarrow> string) \<Rightarrow> string \<Rightarrow>
   config_error + RelayConfig" where
  "LoadRelayConfig readFile unmarshal getenv path =
     (case readFile path of
        None \<Rightarrow> Inl (ErrConfigRead path)
      | Some b \<Rightarrow>
          (case unmarshal b of
             None \<Rightarrow> Inl (ErrConfigParse path)
           | Some cfg0 \<Rightarrow>
               let cfg = applyRelayEnvOverrides getenv cfg0 in
               (case validateRelayConfig cfg of Some e \<Rightarrow> Inl e | None \<Rightarrow> Inr cfg)))"

definition DefaultAgentConfig :: AgentConfig where
  "DefaultAgentConfig =
     \<lparr>ac_Relay = \<lparr>rc_Addr = [], rc_ServerName = [], rc_InsecureSkipVerify = False, rc_ReconnectInterval = 0,
        rc_MaxReconnectBackoff = 0, rc_KeepaliveInterval = 0, rc_KeepaliveTimeout = 0\<rparr>,
      ac_TLS = \<lparr>CertFile = [], KeyFile = [], CAFile = [], ClientCAFile = []\<rparr>,
      ac_Services = [], ac_Logging = \<lparr>log_Level = ''info'', log_Format = ''json'', log_Output = []\<rparr>,
      ac_Update = \<lparr>upd_Enabled = False, upd_CheckInterval = 6 * 3600 * 10 ^ 9, upd_ManifestURL = [],
        upd_PublicKeyPath = []\<rparr>\<rparr>"

section \<open>The port index\<close>

record PortIndexEntry =
  pie_CustomerID :: string
  pie_Service :: string
  pie_MaxStreams :: int
  pie_ListenAddr :: string
  pie_RateLimit :: RateLimitConfig

type_synonym PortIndex = "(int, PortIndexEntry) gomap"

datatype index_error = ErrPortConflict int string string

definition portIndexEntry :: "CustomerConfig \<Rightarrow> PortConfig \<Rightarrow> PortIndexEntry" where
  "portIndexEntry c p =
     \<lparr>pie_CustomerID = cc_ID c, pie_Service = pc_Service p, pie_MaxStreams = cc_MaxStreams c,
      pie_ListenAddr = (if pc_ListenAddr p = [] then ''0.0.0.0'' else pc_ListenAddr p),
      pie_RateLimit = cc_RateLimit c\<rparr>"

text \<open>The inner and the outer loop of \<^verbatim>\<open>BuildPortIndex\<close>.\<close>
fun addPortEntries :: "CustomerConfig \<Rightarrow> PortConfig list \<Rightarrow> PortIndex \<Rightarrow> index_error + PortIndex" where
  "addPortEntries c [] idx = Inr idx"
| "addPortEntries c (p # ps) idx =
     (case map_of idx (pc_Port p) of
        Some existing \<Rightarrow> Inl (ErrPortConflict (pc_Port p) (pie_CustomerID existing) (cc_ID c))
      | None \<Rightarrow> addPortEntries c ps (AList.update (pc_Port p) (portIndexEntry c p) idx))"

fun addCustomerEntries :: "CustomerConfig list \<Rightarrow> PortIndex \<Rightarrow> index_error + PortIndex" where
  "addCustomerEntries [] idx = Inr idx"
| "addCustomerEntries (c # cs) idx =
     (case addPortEntries c (cc_Ports c) idx of Inl e \<Rightarrow> Inl e | Inr idx' \<Rightarrow> addCustomerEntries cs idx')"

definition BuildPortIndex :: "CustomerConfig list \<Rightarrow> index_error + PortIndex" where
  "BuildPortIndex customers = addCustomerEntries customers []"

section \<open>Properties\<close>

text \<open>The port entries of the configuration in file order.\<close>
definition customerPorts :: "CustomerConfig \<Rightarrow> (int \<times> PortIndexEntry) list" where
  "customerPorts c = map (\<lambda>p. (pc_Port p, portIndexEntry c p)) (cc_Ports c)"

definition configuredPorts :: "CustomerConfig list \<Rightarrow> (int \<times> PortIndexEntry) list" where
  "configuredPorts cs = concat (map customerPorts cs)"

text \<open>Entries \<open>es\<close> hold port \<open>p\<close> twice, for customers \<open>a\<close> and then \<open>b\<close>.\<close>
definition conflictIn :: "(int \<times> PortIndexEntry) list \<Rightarrow> int \<Rightarrow> string \<Rightarrow> string \<Rightarrow> bool" where
  "conflictIn es p a b \<longleftrightarrow>
     (\<exists>xs ys zs e1 e2. es = xs @ (p, e1) # ys @ (p, e2) # zs \<and> pie_CustomerID e1 = a \<and> pie_CustomerID e2 = b)"

lemma update_fresh: "map_of al k = None \<Longrightarrow> AList.update k v al = al @ [(k, v)]"
  by (induction al) (auto split: if_splits)

lemma conflictIn_append: "conflictIn es p a b \<Longrightarrow> conflictIn (es @ rest) p a b"
  unfolding conflictIn_def by (metis append.assoc append_Cons)

lemma conflict_not_distinct: "conflictIn es p a b \<Longrightarrow> \<not> distinct (map fst es)"
  by (auto simp: conflictIn_def)

text \<open>What either loop leaves: exactly the entries \<open>es\<close>, or a conflict among them.\<close>
definition indexed :: "(int \<times> PortIndexEntry) list \<Rightarrow> index_error + PortIndex \<Rightarrow> bool" where
  "indexed es res =
     (case res of
        Inr idx \<Rightarrow> idx = es \<and> distinct (map fst es)
      | Inl (ErrPortConflict p a b) \<Rightarrow> conflictIn es p a b)"

lemma indexed_simps [simp]:
  "indexed es (Inr idx) \<longleftrightarrow> idx = es \<and> distinct (map fst es)"
  "indexed es (Inl (ErrPortConflict p a b)) \<longleftrightarrow> conflictIn es p a b"
  by (simp_all add: indexed_def)

lemma addPortEntries_spec:
  "distinct (map fst idx) \<Longrightarrow>
   indexed (idx @ map (\<lambda>p. (pc_Port p, portIndexEntry c p)) ps) (addPortEntries c ps idx)"
proof (induction ps arbitrary: idx)
  case (Cons p ps)
  let ?e = "portIndexEntry c p"
  let ?es = "map (\<lambda>p. (pc_Port p, portIndexEntry c p)) ps"
  show ?case
  proof (cases "map_of idx (pc_Port p)")
    case None
    then have "pc_Port p \<notin> fst ` set idx" by (simp add: map_of_eq_None_iff)
    then have "distinct (map fst (idx @ [(pc_Port p, ?e)]))" using Cons.prems by simp
    from Cons.IH [OF this] None show ?thesis by (simp add: update_fresh)
  next
    case (Some e)
    then obtain xs ys where "idx = xs @ (pc_Port p, e) # ys" by (meson map_of_SomeD split_list)
    then have "conflictIn (idx @ (pc_Port p, ?e) # ?es) (pc_Port p) (pie_CustomerID e) (cc_ID c)"
      unfolding conflictIn_def
      by (intro exI [of _ xs] exI [of _ ys] exI [of _ ?es] exI [of _ e] exI [of _ ?e])
         (simp add: portIndexEntry_def)
    with Some show ?thesis by simp
  qed
qed simp

lemma addCustomerEntries_spec:
  "distinct (map fst idx) \<Longrightarrow> indexed (idx @ configuredPorts cs) (addCustomerEntries cs idx)"
proof (induction cs arbitrary: idx)
  case (Cons c cs)
  have cons: "configuredPorts (c # cs) = customerPorts c @ configuredPorts cs"
    by (simp add: configuredPorts_def)
  note spec = addPortEntries_spec [OF Cons.prems, of c "cc_Ports c", folded customerPorts_def]
  show ?case
  proof (cases "addPortEntries c (cc_Ports c) idx")
    case (Inl e)
    obtain p a b where e: "e = ErrPortConflict p a b" by (cases e)
    have "conflictIn (idx @ customerPorts c) p a b" using spec unfolding Inl e by simp
    from conflictIn_append [OF this] show ?thesis by (simp add: cons Inl e)
  next
    case (Inr idx1)
    have "idx1 = idx @ customerPorts c" "distinct (map fst idx1)" using spec unfolding Inr by simp_all
    with Cons.IH [of idx1] show ?thesis by (simp add: cons Inr)
  qed
qed (simp add: configuredPorts_def)

text \<open>C37. The port index holds exactly the configured ports, each with its own customer, service,
  limits and bind address, when no port is configured twice; otherwise building it fails and
  names a port that occurs twice and the customers of the two occurrences.\<close>
theorem port_index_exact:
  "case BuildPortIndex cs of
     Inr idx \<Rightarrow> idx = configuredPorts cs \<and> distinct (map fst (configuredPorts cs))
   | Inl (ErrPortConflict p a b) \<Rightarrow>
       conflictIn (configuredPorts cs) p a b \<and> \<not> distinct (map fst (configuredPorts cs))"
  using addCustomerEntries_spec [of "[]" cs] conflict_not_distinct [of "configuredPorts cs"]
  by (simp add: BuildPortIndex_def indexed_def split: sum.splits index_error.splits)

lemma validateCustomers_None: "(validateCustomers i cs = None) = (\<forall>c \<in> set cs. cc_ID c \<noteq> [])"
  by (induction cs arbitrary: i) auto

text \<open>A relay configuration that loads has a listen address, certificate, key and client CA
  and at least one customer, each with an identifier; every environment variable that is set
  has taken precedence over the file, and nothing else of the file has changed.\<close>
theorem relay_config_valid:
  assumes "LoadRelayConfig readFile unmarshal getenv path = Inr cfg"
  shows "sc_ListenAddr (Server cfg) \<noteq> [] \<and> CertFile (relay_TLS cfg) \<noteq> [] \<and>
    KeyFile (relay_TLS cfg) \<noteq> [] \<and> ClientCAFile (relay_TLS cfg) \<noteq> [] \<and> Customers cfg \<noteq> [] \<and>
    (\<forall>c \<in> set (Customers cfg). cc_ID c \<noteq> []) \<and>
    (getenv ''ATLAX_LISTEN_ADDR'' \<noteq> [] \<longrightarrow> sc_ListenAddr (Server cfg) = getenv ''ATLAX_LISTEN_ADDR'') \<and>
    (\<exists>b cfg0. readFile path = Some b \<and> unmarshal b = Some cfg0 \<and> Customers cfg = Customers cfg0 \<and>
       relay_Metrics cfg = relay_Metrics cfg0 \<and> sc_StorePath (Server cfg) = sc_StorePath (Server cfg0))"
proof -
  obtain b cfg0 where l: "readFile path = Some b" "unmarshal b = Some cfg0"
    "cfg = applyRelayEnvOverrides getenv cfg0" "validateRelayConfig cfg = None"
    using assms by (auto simp: LoadRelayConfig_def Let_def split: option.splits)
  have v: "sc_ListenAddr (Server cfg) \<noteq> []" "CertFile (relay_TLS cfg) \<noteq> []" "KeyFile (relay_TLS cfg) \<noteq> []"
    "ClientCAFile (relay_TLS cfg) \<noteq> []" "Customers cfg \<noteq> []" "\<forall>c \<in> set (Customers cfg). cc_ID c \<noteq> []"
    using l(4) unfolding validateRelayConfig_def validateCustomers_None [symmetric, of _ 0]
    by (simp_all split: if_splits)
  have "getenv ''ATLAX_LISTEN_ADDR'' \<noteq> [] \<longrightarrow> sc_ListenAddr (Server cfg) = getenv ''ATLAX_LISTEN_ADDR''"
    "Customers cfg = Customers cfg0" "relay_Metrics cfg = relay_Metrics cfg0"
    "sc_StorePath (Server cfg) = sc_StorePath (Server cfg0)"
    unfolding l(3) applyRelayEnvOverrides_def override_def by simp_all
  with v l(1,2) show ?thesis by blast
qed

definition exampleRelayConfig :: RelayConfig where
  "exampleRelayConfig =
     \<lparr>Server = \<lparr>sc_ListenAddr = '':8080'', sc_AdminAddr = [], sc_AdminSocket = [], sc_AgentListenAddr = '':8443'',
        sc_MaxAgents = 0, sc_MaxStreamsPerAgent = 0, sc_IdleTimeout = 0, sc_ShutdownGracePeriod = 0,
        sc_StorePath = []\<rparr>,
      relay_TLS = \<lparr>CertFile = ''c'', KeyFile = ''k'', CAFile = [], ClientCAFile = ''a''\<rparr>,
      Customers = [\<lparr>cc_ID = ''customer-1'',
        cc_Ports = [\<lparr>pc_Port = 9000, pc_Service = ''smb'', pc_Description = [], pc_ListenAddr = []\<rparr>],
        cc_MaxConnections = 0, cc_MaxStreams = 5, cc_MaxBandwidthMbps = 0,
        cc_RateLimit = \<lparr>RequestsPerSecond = 0, Burst = 0\<rparr>\<rparr>],
      relay_Logging = \<lparr>log_Level = [], log_Format = [], log_Output = []\<rparr>,
      relay_Metrics = \<lparr>met_Enabled = False, met_ListenAddr = []\<rparr>\<rparr>"

theorem relay_config_valid_witness:
  "\<exists>cfg. LoadRelayConfig (\<lambda>_. Some ()) (\<lambda>_. Some exampleRelayConfig)
      (\<lambda>n. if n = ''ATLAX_LISTEN_ADDR'' then '':9090'' else []) ''relay.yaml'' = Inr cfg \<and>
     sc_ListenAddr (Server cfg) = '':9090'' \<and> Customers cfg = Customers exampleRelayConfig"
proof -
  let ?env = "\<lambda>n. if n = ''ATLAX_LISTEN_ADDR'' then '':9090'' else []"
  have "LoadRelayConfig (\<lambda>_. Some ()) (\<lambda>_. Some exampleRelayConfig) ?env ''relay.yaml'' =
    Inr (applyRelayEnvOverrides ?env exampleRelayConfig)"
    by (simp add: LoadRelayConfig_def applyRelayEnvOverrides_def override_def validateRelayConfig_def
          exampleRelayConfig_def)
  note r = relay_config_valid [OF this]
  have "sc_ListenAddr (Server (applyRelayEnvOverrides ?env exampleRelayConfig)) = '':9090''" using r by simp
  moreover have "Customers (applyRelayEnvOverrides ?env exampleRelayConfig) = Customers exampleRelayConfig"
    using r by (metis option.inject)
  ultimately show ?thesis using \<open>LoadRelayConfig _ _ _ _ = _\<close> by blast
qed

end
