(* ===== verification/Relay_Server.thy ===== *)
theory Relay_Server
  imports Client_Listener Mux_Peer Audit_Log Auth Config
begin

text \<open>
  The agent listener and the relay: \<^verbatim>\<open>src/pkg/relay/listener.go\<close> and \<^verbatim>\<open>server_impl.go\<close>.  An accepted
  connection is described by what the network and the TLS stack make of it; the frames the
  agent sends before it is registered are handled by the session's read loop.  Connections are
  numbered in the order they arrive, and the number names the connection object.
\<close>

section \<open>The agent listener\<close>

record AgentListener =
  maxAgents :: int
  maxStreamsPerAgent :: int

definition NewAgentListener :: "int \<Rightarrow> int \<Rightarrow> AgentListener" where
  "NewAgentListener cfgMaxAgents cfgMaxStreams =
     \<lparr>maxAgents = (if cfgMaxAgents \<le> 0 then 1000 else cfgMaxAgents),
      maxStreamsPerAgent = (if cfgMaxStreams \<le> 0 then 50 else cfgMaxStreams)\<rparr>"

record agent_conn =
  an_tls :: bool
  an_handshake :: bool
  an_certs :: "peer_cert list"
  an_remote :: string
  an_transport :: Writer
  an_early :: "Frame list"

datatype connection_outcome =
    NotTLS | HandshakeFailed | IdentityFailed identity_error | NotCustomer string | AgentRegistered string

definition listenerAudit :: "int \<Rightarrow> Action \<Rightarrow> string \<Rightarrow> string \<Rightarrow> Event" where
  "listenerAudit now action target customerID =
     \<lparr>ev_Action = action, ev_Actor = ''relay'', ev_Target = target, ev_Timestamp = now, ev_RequestID = [],
      ev_CustomerID = customerID, ev_Metadata = []\<rparr>"

definition agentMuxConfig :: "AgentListener \<Rightarrow> MuxConfig" where
  "agentMuxConfig l =
     \<lparr>MaxConcurrentStreams = maxStreamsPerAgent l, InitialStreamWindow = 262144, ConnectionWindow = 1048576,
      PingInterval = 30 * 10 ^ 9, PingTimeout = 5 * 10 ^ 9, IdleTimeout = 60 * 10 ^ 9\<rparr>"

text \<open>The connection object that is registered.  When the service list has arrived and the timer
  has fired too, \<open>pick\<close> decides which case of the select runs.\<close>
definition agentLive :: "AgentListener \<Rightarrow> string \<Rightarrow> agent_conn \<Rightarrow> int \<Rightarrow> bool \<Rightarrow> LiveConnection" where
  "agentLive l customerID conn now pick =
     (let mux = mux_run (NewMuxSession (an_transport conn) RoleRelay (agentMuxConfig l)) (map (\<lambda>f. ActFrame f True) (an_early conn));
          live0 = NewLiveConnection customerID mux (an_remote conn) now;
          live1 = (case an_certs conn of [] \<Rightarrow> live0 | cert # _ \<Rightarrow> SetCertNotAfter live0 (pcert_NotAfter cert))
      in (case serviceListCh mux of
            Some services \<Rightarrow>
              if pick then SetServices (live1\<lparr>lc_mux := mux\<lparr>serviceListCh := None\<rparr>\<rparr>) services else live1
          | None \<Rightarrow> live1))"

definition handleConnection ::
  "(bytes \<Rightarrow> bytes) \<Rightarrow> AgentListener \<Rightarrow> MemoryRegistry \<Rightarrow> cref \<Rightarrow> agent_conn \<Rightarrow> int \<Rightarrow> bool \<Rightarrow>
   connection_outcome \<times> Event list \<times> MemoryRegistry" where
  "handleConnection sha l reg n conn now pick =
     (if \<not> an_tls conn then (NotTLS, [], reg)
      else if \<not> an_handshake conn then
        (HandshakeFailed, [listenerAudit now ActionAuthFailure (an_remote conn) []], reg)
      else
        (case ExtractIdentity sha (an_certs conn) of
           Inl e \<Rightarrow> (IdentityFailed e, [listenerAudit now ActionAuthFailure (an_remote conn) []], reg)
         | Inr i \<Rightarrow>
             let customerID = id_CustomerID i in
             if customerID = [] then (NotCustomer (id_RelayID i), [], reg)
             else
               (AgentRegistered customerID,
                [listenerAudit now ActionAuthSuccess (an_remote conn) customerID,
                 listenerAudit now ActionAgentConnected (an_remote conn) customerID],
                connect reg customerID n (agentLive l customerID conn now pick))))"

text \<open>One iteration of the agent listener's accept loop, which is that of a client port.\<close>
definition agentAccept_step :: "Listener \<Rightarrow> string option \<Rightarrow> bool \<Rightarrow> accept_result" where
  "agentAccept_step lsn incoming finished =
     (case (if ln_open lsn then incoming else None) of
        None \<Rightarrow> if finished then AcceptReturn else AcceptRetry
      | Some remote \<Rightarrow> SpawnClient remote)"

section \<open>The relay\<close>

record 'l Relay =
  agentListener :: AgentListener
  clientListener :: "'l ClientListener"
  relay_router :: PortRouter
  relay_registry :: MemoryRegistry
  relay_portIndex :: PortIndex

definition NewRelay ::
  "AgentListener \<Rightarrow> 'l ClientListener \<Rightarrow> PortRouter \<Rightarrow> MemoryRegistry \<Rightarrow> PortIndex \<Rightarrow> 'l Relay" where
  "NewRelay al cl rt reg idx =
     \<lparr>agentListener = al, clientListener = cl, relay_router = rt, relay_registry = reg, relay_portIndex = idx\<rparr>"

definition mapEntry :: "PortRouter \<Rightarrow> int \<times> PortIndexEntry \<Rightarrow> PortRouter" where
  "mapEntry rt pe =
     AddPortMapping rt (pie_CustomerID (snd pe)) (fst pe) (pie_Service (snd pe)) (pie_ListenAddr (snd pe))
       (pie_MaxStreams (snd pe))"

definition startEntry :: "(int \<Rightarrow> bool) \<Rightarrow> 'l ClientListener \<Rightarrow> int \<times> PortIndexEntry \<Rightarrow> 'l ClientListener" where
  "startEntry bind cl pe =
     snd (StartPort cl (hostPort (pie_ListenAddr (snd pe)) (fst pe)) (fst pe) (bind (fst pe)))"

text \<open>\<^verbatim>\<open>Start\<close> until it blocks in the agent listener: \<open>order\<close> is the order in which the map of entries
  is visited and \<open>spawned\<close> that in which the goroutines get to bind their ports.\<close>
definition Relay_Start ::
  "(int \<Rightarrow> bool) \<Rightarrow> (int \<times> PortIndexEntry) list \<Rightarrow> (int \<times> PortIndexEntry) list \<Rightarrow> 'l Relay \<Rightarrow> 'l Relay" where
  "Relay_Start bind order spawned s =
     s\<lparr>relay_router := foldl mapEntry (relay_router s) order,
       clientListener := foldl (startEntry bind) (clientListener s) spawned\<rparr>"

definition sendGoAway :: "MemoryRegistry \<Rightarrow> string \<Rightarrow> MemoryRegistry" where
  "sendGoAway reg customerID =
     (case Lookup reg customerID of
        Inl _ \<Rightarrow> reg
      | Inr c \<Rightarrow> onConn reg c (\<lambda>x. x\<lparr>lc_mux := GoAway (lc_mux x) 0\<rparr>))"

definition Relay_Stop :: "'l Relay \<Rightarrow> 'l Relay" where
  "Relay_Stop s =
     (let ids = map ai_CustomerID (ListConnectedAgents (relay_registry s));
          reg1 = foldl sendGoAway (relay_registry s) ids
      in s\<lparr>clientListener := ClientListener_Stop (clientListener s),
           relay_registry := foldl Unregister reg1 ids\<rparr>)"

section \<open>Who an agent is\<close>

datatype relay_op = Arrive agent_conn int bool | Remove string

text \<open>A history of the relay with the connections that have arrived so far.\<close>
definition relay_exec ::
  "(bytes \<Rightarrow> bytes) \<Rightarrow> AgentListener \<Rightarrow> MemoryRegistry \<times> agent_conn list \<Rightarrow> relay_op \<Rightarrow>
   MemoryRegistry \<times> agent_conn list" where
  "relay_exec sha l w op =
     (case op of
        Arrive conn now pick \<Rightarrow>
          (snd (snd (handleConnection sha l (fst w) (length (snd w)) conn now pick)), snd w @ [conn])
      | Remove k \<Rightarrow> (Unregister (fst w) k, snd w))"

definition relay_history ::
  "(bytes \<Rightarrow> bytes) \<Rightarrow> AgentListener \<Rightarrow> MemoryRegistry \<Rightarrow> relay_op list \<Rightarrow> MemoryRegistry \<times> agent_conn list" where
  "relay_history sha l reg ops = foldl (relay_exec sha l) (reg, []) ops"

definition genuine :: "agent_conn \<Rightarrow> string \<Rightarrow> bool" where
  "genuine conn k \<longleftrightarrow> an_tls conn \<and> an_handshake conn \<and> hasPrefix k ''customer-'' \<and>
     (\<exists>cert rest. an_certs conn = cert # rest \<and> CommonName cert = k)"

definition genuine_inv :: "MemoryRegistry \<times> agent_conn list \<Rightarrow> bool" where
  "genuine_inv w \<longleftrightarrow> owner_inv (fst w) (length (snd w)) \<and>
     (\<forall>k c. map_of (agents (fst w)) k = Some c \<longrightarrow> genuine (snd w ! c) k)"

lemma agentLive_customer [simp]: "lc_customerID (agentLive l k conn now pick) = k"
  by (simp add: agentLive_def Let_def SetServices_def SetCertNotAfter_def NewLiveConnection_def
      split: list.splits option.splits)

text \<open>A handled connection either changes nothing or registers its own certificate's customer.\<close>
lemma handleConnection_cases:
  assumes "handleConnection sha l reg n conn now pick = (out, evs, reg')"
  obtains "reg' = reg" "\<And>k. out \<noteq> AgentRegistered k"
  | k where "out = AgentRegistered k" "genuine conn k" "k \<noteq> []"
      "reg' = connect reg k n (agentLive l k conn now pick)"
proof (cases "\<exists>k. out = AgentRegistered k")
  case False
  then show ?thesis using assms that(1)
    by (auto simp: handleConnection_def Let_def split: if_splits sum.splits)
next
  case True
  then obtain i where i: "an_tls conn" "an_handshake conn" "ExtractIdentity sha (an_certs conn) = Inr i"
    "id_CustomerID i \<noteq> []" "out = AgentRegistered (id_CustomerID i)"
    "reg' = connect reg (id_CustomerID i) n (agentLive l (id_CustomerID i) conn now pick)"
    using assms by (auto simp: handleConnection_def Let_def split: if_splits sum.splits)
  from i(3) have "genuine conn (id_CustomerID i)"
    by (rule ExtractIdentity_cases) (use i in \<open>auto simp: genuine_def\<close>)
  then show ?thesis using i that(2) by blast
qed

lemma owner_inv_mono: "owner_inv r n \<Longrightarrow> n \<le> m \<Longrightarrow> owner_inv r m"
  by (fastforce simp: owner_inv_def)

lemma genuine_inv_exec:
  assumes "genuine_inv w" shows "genuine_inv (relay_exec sha l w op)"
proof (cases op)
  case (Remove k)
  then show ?thesis using assms
    by (auto simp: genuine_inv_def relay_exec_def owner_inv_Unregister delete_conv' split: if_splits)
next
  case (Arrive conn now pick)
  let ?n = "length (snd w)"
  obtain out evs reg' where h: "handleConnection sha l (fst w) ?n conn now pick = (out, evs, reg')"
    by (metis prod_cases3)
  have own: "owner_inv (fst w) ?n" and gen: "\<And>k c. map_of (agents (fst w)) k = Some c \<Longrightarrow> genuine (snd w ! c) k"
    using assms by (auto simp: genuine_inv_def)
  have old: "genuine ((snd w @ [conn]) ! c) k" if "map_of (agents (fst w)) k = Some c" for k c
    using that own gen by (auto simp: owner_inv_def nth_append)
  from h show ?thesis
  proof (cases rule: handleConnection_cases)
    case 1
    then show ?thesis using own old owner_inv_mono [OF own, of "Suc ?n"]
      by (simp add: Arrive relay_exec_def h genuine_inv_def)
  next
    case (2 k)
    have "agents reg' = AList.update k ?n (agents (fst w))" unfolding 2(4) by (simp add: connect_def)
    then show ?thesis using old 2(2) owner_inv_connect [OF own, of "agentLive l k conn now pick" k]
      by (simp add: Arrive relay_exec_def h genuine_inv_def update_conv' 2(4))
  qed
qed

lemma genuine_inv_history:
  assumes "agents reg = []" shows "genuine_inv (relay_history sha l reg ops)"
proof -
  have "genuine_inv w \<Longrightarrow> genuine_inv (foldl (relay_exec sha l) w ops)" for w
    by (induction ops arbitrary: w) (simp_all add: genuine_inv_exec)
  moreover have "genuine_inv (reg, [])" using assms by (simp add: genuine_inv_def owner_inv_def)
  ultimately show ?thesis unfolding relay_history_def by blast
qed

text \<open>Whatever connections arrive and are removed, the connection a customer's traffic is routed
  to was made by a peer that completed the TLS handshake with a certificate whose common name
  is that customer's identifier.\<close>
theorem agents_are_their_certificates:
  assumes "agents reg = []" "relay_history sha l reg ops = (reg', arrived)" "Lookup reg' k = Inr c"
  shows "c < length arrived \<and> an_handshake (arrived ! c) \<and> hasPrefix k ''customer-'' \<and>
    (\<exists>cert rest. an_certs (arrived ! c) = cert # rest \<and> CommonName cert = k) \<and>
    (\<exists>x. map_of (conns reg') c = Some x \<and> lc_customerID x = k)"
proof -
  have inv: "genuine_inv (reg', arrived)" using genuine_inv_history [OF assms(1), of sha l ops] assms(2) by simp
  have k: "map_of (agents reg') k = Some c" using assms(3) by (simp add: Lookup_def split: option.splits)
  show ?thesis using inv k unfolding genuine_inv_def genuine_def owner_inv_def by auto
qed

definition exampleAgentConn :: "string \<Rightarrow> agent_conn" where
  "exampleAgentConn cn =
     \<lparr>an_tls = True, an_handshake = True,
      an_certs = [\<lparr>CommonName = cn, Raw = [1], pcert_NotBefore = 0, pcert_NotAfter = 99\<rparr>],
      an_remote = ''10.0.0.1:5000'', an_transport = \<lparr>written = [], room = None\<rparr>, an_early = []\<rparr>"

definition exampleHistory :: "relay_op list" where
  "exampleHistory = [Arrive (exampleAgentConn ''customer-1'') 0 True, Arrive (exampleAgentConn ''intruder'') 1 True,
     Arrive (exampleAgentConn ''customer-2'') 2 True, Remove ''customer-2'']"

lemmas history_defs = exampleHistory_def relay_history_def relay_exec_def handleConnection_def
  exampleAgentConn_def ExtractIdentity_def hasPrefix_def Lookup_def connect_def Register_def Unregister_def
  onConn_def limitOf_def NewMemoryRegistry_def Let_def

theorem agents_are_their_certificates_witness:
  "Lookup (fst (relay_history (\<lambda>d. d) (NewAgentListener 0 0) NewMemoryRegistry exampleHistory)) ''customer-1'' = Inr 0 \<and>
   CommonName (hd (an_certs (snd (relay_history (\<lambda>d. d) (NewAgentListener 0 0) NewMemoryRegistry exampleHistory) ! 0)))
     = ''customer-1''"
proof -
  let ?h = "relay_history (\<lambda>d. d) (NewAgentListener 0 0) NewMemoryRegistry exampleHistory"
  have l: "Lookup (fst ?h) ''customer-1'' = Inr 0" by (simp add: history_defs)
  have "agents NewMemoryRegistry = []" by (simp add: NewMemoryRegistry_def)
  from agents_are_their_certificates [OF this prod.collapse [symmetric] l] l show ?thesis by auto
qed

section \<open>Starting from a configuration\<close>

definition entryOf :: "PortIndexEntry \<Rightarrow> portEntry" where
  "entryOf e = \<lparr>pe_customerID = pie_CustomerID e, pe_service = pie_Service e, pe_maxStreams = pie_MaxStreams e,
     pe_listenAddr = pie_ListenAddr e\<rparr>"

lemma mapEntry_map: "map_of (portMap (mapEntry rt pe)) = (map_of (portMap rt))(fst pe \<mapsto> entryOf (snd pe))"
  by (simp add: mapEntry_def AddPortMapping_def entryOf_def alist_maps)

lemma mapEntry_foldl:
  "distinct (map fst order) \<Longrightarrow>
   map_of (portMap (foldl mapEntry rt order)) p =
     (case map_of order p of None \<Rightarrow> map_of (portMap rt) p | Some e \<Rightarrow> Some (entryOf e))"
proof (induction order arbitrary: rt)
  case (Cons pe order)
  have "map_of order (fst pe) = None" using Cons.prems by (simp add: map_of_eq_None_iff)
  with Cons show ?case by (cases pe) (auto simp: mapEntry_map split: option.splits)
qed simp

lemma startEntry_addr:
  assumes "listener_inv cl"
  shows "ClientListener_Addr (startEntry bind cl pe) p =
     (if p = fst pe \<and> bind p then Some (hostPort (pie_ListenAddr (snd pe)) p) else ClientListener_Addr cl p)"
proof -
  have "map_of (listeners cl) p \<noteq> Some (nextLn cl)"
  proof
    assume "map_of (listeners cl) p = Some (nextLn cl)"
    then have "nextLn cl \<in> openLns cl" using assms by (auto simp: listener_inv_def ran_def)
    then show False using assms by (auto simp: listener_inv_def openLns_def)
  qed
  then show ?thesis
    by (auto simp: startEntry_def StartPort_def Let_def StartPortWithListener_def ClientListener_Addr_def alist_maps
        split: option.splits)
qed

lemma startEntry_foldl:
  assumes "listener_inv cl" "distinct (map fst order)" "\<forall>p \<in> fst ` set order. map_of (listeners cl) p = None"
  shows "ClientListener_Addr (foldl (startEntry bind) cl order) p =
     (case map_of order p of
        Some e \<Rightarrow> if bind p then Some (hostPort (pie_ListenAddr e) p) else ClientListener_Addr cl p
      | None \<Rightarrow> ClientListener_Addr cl p)"
  using assms
proof (induction order arbitrary: cl)
  case (Cons pe order)
  let ?cl = "startEntry bind cl pe"
  have "listener_inv ?cl"
    using Cons.prems listener_inv_start [of cl "fst pe"]
    by (cases "bind (fst pe)") (simp_all add: startEntry_def StartPort_def)
  moreover have "\<forall>p \<in> fst ` set order. map_of (listeners ?cl) p = None"
  proof (intro ballI)
    fix q
    assume q: "q \<in> fst ` set order"
    then have "q \<noteq> fst pe" using Cons.prems(2) unfolding list.map distinct.simps set_map by blast
    moreover have "map_of (listeners cl) q = None" using q Cons.prems(3) by auto
    ultimately show "map_of (listeners ?cl) q = None"
      by (simp add: startEntry_def StartPort_def Let_def StartPortWithListener_def alist_maps)
  qed
  ultimately have IH: "ClientListener_Addr (foldl (startEntry bind) ?cl order) p =
     (case map_of order p of
        Some e \<Rightarrow> if bind p then Some (hostPort (pie_ListenAddr e) p) else ClientListener_Addr ?cl p
      | None \<Rightarrow> ClientListener_Addr ?cl p)"
    using Cons by simp
  have "map_of order (fst pe) = None" using Cons.prems(2) by (simp add: map_of_eq_None_iff)
  then show ?case using IH startEntry_addr [OF Cons.prems(1), of bind pe p]
    by (cases pe) (auto split: option.splits)
qed simp

lemma map_of_perm:
  "distinct (map fst xs) \<Longrightarrow> distinct (map fst ys) \<Longrightarrow> set xs = set ys \<Longrightarrow> map_of xs = map_of ys"
  by (rule map_of_inject_set [THEN iffD2])

text \<open>C19. A relay started on a loaded configuration routes each configured port to its customer and
  service under its stream limit and listens for it on the configured address when the port
  can be bound, and does nothing for any other port, in whatever order the map of ports is
  visited and the goroutines run.\<close>
theorem relay_serves_configuration:
  assumes "BuildPortIndex cs = Inr idx" "set order = set idx" "distinct (map fst order)"
    "set spawned = set idx" "distinct (map fst spawned)"
  shows "let s = Relay_Start bind order spawned (NewRelay al NewClientListener NewPortRouter reg idx);
             entry = map_of (configuredPorts cs) p
    in LookupPort (relay_router s) p = map_option (\<lambda>e. (pie_CustomerID e, pie_Service e)) entry \<and>
       map_option pi_MaxStreams (GetPort (relay_router s) p) = map_option pie_MaxStreams entry \<and>
       ClientListener_Addr (clientListener s) p =
         (if bind p then map_option (\<lambda>e. hostPort (pie_ListenAddr e) p) entry else None)"
proof -
  have idx: "idx = configuredPorts cs" "distinct (map fst idx)"
    using addCustomerEntries_spec [of "[]" cs] assms(1) by (auto simp: BuildPortIndex_def indexed_def)
  have o: "map_of order = map_of (configuredPorts cs)" "map_of spawned = map_of (configuredPorts cs)"
    using map_of_perm [OF assms(3) idx(2) assms(2)] map_of_perm [OF assms(5) idx(2) assms(4)] idx(1) by simp_all
  have "listener_inv (NewClientListener :: 'a ClientListener)" by (rule listener_inv_New)
  note st = startEntry_foldl [OF this assms(5), of bind p]
  show ?thesis using mapEntry_foldl [OF assms(3), of NewPortRouter p] st
    unfolding o
    by (auto simp: Relay_Start_def NewRelay_def LookupPort_def GetPort_def NewPortRouter_def NewClientListener_def
        ClientListener_Addr_def entryOf_def portInfo_def split: option.splits)
qed

theorem relay_serves_configuration_witness:
  "\<exists>idx. BuildPortIndex (Customers exampleRelayConfig) = Inr idx \<and>
     (let s = Relay_Start (\<lambda>_. True) (rev idx) idx
        (NewRelay (NewAgentListener 0 0) (NewClientListener :: bool ClientListener) NewPortRouter NewMemoryRegistry idx)
      in LookupPort (relay_router s) 9000 = Some (''customer-1'', ''smb'') \<and>
         ClientListener_Addr (clientListener s) 9000 = Some ''0.0.0.0:9000'')"
proof -
  let ?cs = "Customers exampleRelayConfig"
  let ?idx = "configuredPorts ?cs"
  have b: "BuildPortIndex ?cs = Inr ?idx"
    by (simp add: BuildPortIndex_def exampleRelayConfig_def configuredPorts_def customerPorts_def portIndexEntry_def)
  have d: "distinct (map fst ?idx)" "map_of ?idx 9000 = Some \<lparr>pie_CustomerID = ''customer-1'', pie_Service = ''smb'',
      pie_MaxStreams = 5, pie_ListenAddr = ''0.0.0.0'', pie_RateLimit = \<lparr>RequestsPerSecond = 0, Burst = 0\<rparr>\<rparr>"
    by (simp_all add: exampleRelayConfig_def configuredPorts_def customerPorts_def portIndexEntry_def)
  have h: "hostPort ''0.0.0.0'' 9000 = ''0.0.0.0:9000''"
    by (simp add: hostPort_def showInt_def showNat.simps digitChar_def) code_simp
  from relay_serves_configuration [where 'a = bool, OF b, of "rev ?idx" ?idx "\<lambda>_. True" "NewAgentListener 0 0" NewMemoryRegistry 9000] d b
  show ?thesis by (intro exI [of _ ?idx]) (simp add: rev_map [symmetric] h Let_def)
qed

section \<open>Stopping\<close>

lemma closeCh_GoAway [simp]: "closeCh (GoAway m e) = closeCh m"
  by (simp add: GoAway_def Let_def enqueue_def)

lemma customerID_sendGoAway:
  "map_of (conns (sendGoAway r k)) c = Some y \<Longrightarrow>
   \<exists>x. map_of (conns r) c = Some x \<and> lc_customerID y = lc_customerID x \<and> connClosed y = connClosed x"
  by (auto simp: sendGoAway_def conns_onConn connClosed_def split: sum.splits if_splits)

lemma agents_sendGoAway [simp]: "agents (foldl sendGoAway r ks) = agents r"
proof -
  have "agents (sendGoAway x k) = agents x" for x k by (simp add: sendGoAway_def split: sum.splits)
  then show ?thesis by (induction ks arbitrary: r) simp_all
qed

lemma noLeak_sendGoAway: "noLeak r \<Longrightarrow> noLeak (foldl sendGoAway r ks)"
proof (induction ks arbitrary: r)
  case (Cons k ks)
  have "noLeak (sendGoAway r k)"
    unfolding noLeak_def using Cons.prems customerID_sendGoAway [of r k] agents_sendGoAway [of r "[k]"]
    by (fastforce simp: noLeak_def)
  then show ?case using Cons.IH by simp
qed simp

lemma Unregister_foldl:
  "map_of (agents (foldl Unregister r ks)) j = (if j \<in> set ks then None else map_of (agents r) j)"
  by (induction ks arbitrary: r) (auto simp: delete_conv')

lemma noLeak_foldl_Unregister: "noLeak r \<Longrightarrow> noLeak (foldl Unregister r ks)"
  by (induction ks arbitrary: r) (simp_all add: noLeak_Unregister)

lemma listed_customers:
  assumes "owner_inv r n" "map_of (agents r) k = Some c"
  shows "k \<in> set (map ai_CustomerID (ListConnectedAgents r))"
proof -
  obtain x where x: "map_of (conns r) c = Some x" "lc_customerID x = k"
    using assms by (auto simp: owner_inv_def)
  then have "agentInfo x \<in> set (ListConnectedAgents r)"
    using map_of_SomeD [OF assms(2)] unfolding ListConnectedAgents_def by force
  then show ?thesis using x(2) by (force simp: agentInfo_def)
qed

lemma limits_connect: "customerLimits (connect r k n x) = customerLimits r"
  by (simp add: connect_def)

lemma noLeak_exec:
  assumes "noLeak (fst w)" "customerLimits (fst w) = []" "genuine_inv w"
  shows "noLeak (fst (relay_exec sha l w op)) \<and> customerLimits (fst (relay_exec sha l w op)) = []"
proof (cases op)
  case (Remove k)
  then show ?thesis using assms noLeak_Unregister by (simp add: relay_exec_def)
next
  case (Arrive conn now pick)
  let ?n = "length (snd w)"
  obtain out evs reg' where h: "handleConnection sha l (fst w) ?n conn now pick = (out, evs, reg')"
    by (metis prod_cases3)
  have "map_of (agents (fst w)) k \<noteq> Some ?n" "limitOf (fst w) k = 1" for k
    using assms by (auto simp: genuine_inv_def owner_inv_def limitOf_def)
  note ok = noLeak_connect [OF assms(1) this(2,1)]
  have "noLeak reg' \<and> customerLimits reg' = []"
    using h by (cases rule: handleConnection_cases) (simp_all add: assms ok limits_connect)
  then show ?thesis by (simp add: Arrive relay_exec_def h)
qed

text \<open>Once the agents are told to go away and are removed, no customer is left and every session
  that was ever stored is closed.\<close>
lemma stop_closes_all:
  assumes "owner_inv reg n" "noLeak reg"
    "final = foldl Unregister (foldl sendGoAway reg (map ai_CustomerID (ListConnectedAgents reg)))
       (map ai_CustomerID (ListConnectedAgents reg))"
  shows "Lookup final k = Inl (ErrAgentNotFound k)" "map_of (conns final) c = Some x \<Longrightarrow> connClosed x"
proof -
  have none: "map_of (agents final) k = None" for k
    using listed_customers [OF assms(1), of k] unfolding assms(3)
    by (cases "map_of (agents reg) k") (simp_all add: Unregister_foldl del: set_map)
  then show "Lookup final k = Inl (ErrAgentNotFound k)" by (simp add: Lookup_def)
  have "noLeak final" unfolding assms(3) using assms(2) by (intro noLeak_foldl_Unregister noLeak_sendGoAway)
  then show "map_of (conns final) c = Some x \<Longrightarrow> connClosed x" using none unfolding noLeak_def by auto
qed

lemma history_noLeak:
  assumes "conns reg = []" "agents reg = []" "customerLimits reg = []"
  shows "noLeak (fst (relay_history sha l reg ops))"
proof -
  have "noLeak (fst w) \<and> customerLimits (fst w) = [] \<and> genuine_inv w \<Longrightarrow>
      noLeak (fst (foldl (relay_exec sha l) w ops))" for w
    by (induction ops arbitrary: w) (simp_all add: genuine_inv_exec noLeak_exec)
  moreover have "noLeak reg" "genuine_inv (reg, [])"
    using assms by (simp_all add: noLeak_def genuine_inv_def owner_inv_def)
  ultimately show ?thesis unfolding relay_history_def using assms(3) by force
qed

text \<open>Stopping a relay leaves nothing behind: whatever agents connected, replaced each other or
  were removed, and whatever ports were started and stopped, afterwards no customer is
  registered, every session ever created is closed and no listening socket is open.\<close>
theorem relay_stop_releases:
  assumes "conns reg = []" "agents reg = []" "customerLimits reg = []"
    "freshStarts (NewClientListener :: 'l ClientListener) lops"
    "s = NewRelay al (foldl listener_exec (NewClientListener :: 'l ClientListener) lops) rt
           (fst (relay_history sha al reg ops)) idx"
  shows "(\<forall>k. Lookup (relay_registry (Relay_Stop s)) k = Inl (ErrAgentNotFound k)) \<and>
    (\<forall>c x. map_of (conns (relay_registry (Relay_Stop s))) c = Some x \<longrightarrow> connClosed x) \<and>
    openLns (clientListener (Relay_Stop s)) = {}"
proof -
  let ?reg = "fst (relay_history sha al reg ops)"
  let ?ids = "map ai_CustomerID (ListConnectedAgents ?reg)"
  have s: "relay_registry (Relay_Stop s) = foldl Unregister (foldl sendGoAway ?reg ?ids) ?ids"
    "clientListener (Relay_Stop s) = ClientListener_Stop (foldl listener_exec NewClientListener lops)"
    by (simp_all add: assms(5) Relay_Stop_def NewRelay_def Let_def)
  have "owner_inv ?reg (length (snd (relay_history sha al reg ops)))"
    using genuine_inv_history [OF assms(2), of sha al ops] by (simp add: genuine_inv_def)
  note all = stop_closes_all [OF this history_noLeak [OF assms(1-3)] s(1)]
  show ?thesis
    using all openLns_Stop [OF listener_inv_run [OF listener_inv_New assms(4)]] unfolding s(2) by blast
qed

theorem relay_stop_releases_witness:
  "let s = NewRelay (NewAgentListener 0 0) (foldl listener_exec (NewClientListener :: bool ClientListener)
              [StartOp ''0.0.0.0:9000'' 9000 True]) NewPortRouter
              (fst (relay_history (\<lambda>d. d) (NewAgentListener 0 0) NewMemoryRegistry exampleHistory)) []
   in openLns (clientListener (Relay_Stop s)) = {} \<and>
      Lookup (relay_registry (Relay_Stop s)) ''customer-1'' = Inl (ErrAgentNotFound ''customer-1'')"
proof -
  have "conns NewMemoryRegistry = []" "agents NewMemoryRegistry = []" "customerLimits NewMemoryRegistry = []"
    "freshStarts (NewClientListener :: bool ClientListener) [StartOp ''0.0.0.0:9000'' 9000 True]"
    by (simp_all add: NewMemoryRegistry_def NewClientListener_def)
  from relay_stop_releases [OF this refl, of "NewAgentListener 0 0" NewPortRouter "\<lambda>d. d" exampleHistory "[]"]
  show ?thesis unfolding Let_def by blast
qed

end
