(* ===== verification/Sidecar.thy ===== *)
theory Sidecar
  imports Router Go_Text
begin

text \<open>
  The sidecar file: \<^verbatim>\<open>src/pkg/relay/store.go\<close>.  A disk maps paths to file contents; a file holds
  the JSON value its text denotes or something that is no JSON.  Each call into the operating
  system can fail, which is an argument; the disks a save passes through are listed so that a
  crash between two calls can be seen.
\<close>

section \<open>The data and its JSON form\<close>

abbreviation (input) sidecarVersion :: string where "sidecarVersion \<equiv> ''1''"

record SidecarPort =
  sp_Port :: int
  sp_CustomerID :: string
  sp_Service :: string
  sp_ListenAddr :: string
  sp_MaxStreams :: int

record SidecarData =
  sd_Version :: string
  sd_Ports :: "SidecarPort list"

definition portJson :: "SidecarPort \<Rightarrow> json" where
  "portJson p =
     JObj [(''port'', JInt (sp_Port p)), (''customer_id'', JStr (sp_CustomerID p)), (''service'', JStr (sp_Service p)),
           (''listen_addr'', JStr (sp_ListenAddr p)), (''max_streams'', JInt (sp_MaxStreams p))]"

definition dataJson :: "SidecarData \<Rightarrow> json" where
  "dataJson d = JObj [(''version'', JStr (sd_Version d)), (''ports'', JArr (map portJson (sd_Ports d)))]"

definition setPortField :: "SidecarPort \<Rightarrow> string \<Rightarrow> json \<Rightarrow> SidecarPort option" where
  "setPortField p k v =
     (if sameKey k ''port'' then map_option (\<lambda>i. p\<lparr>sp_Port := i\<rparr>) (jsonInt (sp_Port p) v)
      else if sameKey k ''customer_id'' then map_option (\<lambda>s. p\<lparr>sp_CustomerID := s\<rparr>) (jsonString (sp_CustomerID p) v)
      else if sameKey k ''service'' then map_option (\<lambda>s. p\<lparr>sp_Service := s\<rparr>) (jsonString (sp_Service p) v)
      else if sameKey k ''listen_addr'' then map_option (\<lambda>s. p\<lparr>sp_ListenAddr := s\<rparr>) (jsonString (sp_ListenAddr p) v)
      else if sameKey k ''max_streams'' then map_option (\<lambda>i. p\<lparr>sp_MaxStreams := i\<rparr>) (jsonInt (sp_MaxStreams p) v)
      else Some p)"

definition zeroPort :: SidecarPort where
  "zeroPort = \<lparr>sp_Port = 0, sp_CustomerID = [], sp_Service = [], sp_ListenAddr = [], sp_MaxStreams = 0\<rparr>"

fun decodePort :: "json \<Rightarrow> SidecarPort option" where
  "decodePort (JObj ms) = decodeMembers setPortField zeroPort ms"
| "decodePort JNull = Some zeroPort"
| "decodePort _ = None"

fun decodePorts :: "json list \<Rightarrow> SidecarPort list option" where
  "decodePorts [] = Some []"
| "decodePorts (v # vs) =
     (case decodePort v of None \<Rightarrow> None | Some p \<Rightarrow> map_option (\<lambda>ps. p # ps) (decodePorts vs))"

fun setPorts :: "SidecarData \<Rightarrow> json \<Rightarrow> SidecarData option" where
  "setPorts d (JArr vs) = map_option (\<lambda>ps. d\<lparr>sd_Ports := ps\<rparr>) (decodePorts vs)"
| "setPorts d JNull = Some (d\<lparr>sd_Ports := []\<rparr>)"
| "setPorts d _ = None"

definition setDataField :: "SidecarData \<Rightarrow> string \<Rightarrow> json \<Rightarrow> SidecarData option" where
  "setDataField d k v =
     (if sameKey k ''version'' then map_option (\<lambda>s. d\<lparr>sd_Version := s\<rparr>) (jsonString (sd_Version d) v)
      else if sameKey k ''ports'' then setPorts d v
      else Some d)"

fun decodeData :: "json \<Rightarrow> SidecarData option" where
  "decodeData (JObj ms) = decodeMembers setDataField \<lparr>sd_Version = [], sd_Ports = []\<rparr> ms"
| "decodeData JNull = Some \<lparr>sd_Version = [], sd_Ports = []\<rparr>"
| "decodeData _ = None"

section \<open>The store\<close>

datatype file_content = JsonFile json | OtherFile

type_synonym disk = "(string, file_content) gomap"

datatype store_error =
    ErrSidecarRead | ErrSidecarParse | ErrSidecarVersion string | ErrCreateTemp | ErrWriteTemp | ErrCloseTemp | ErrRename

text \<open>\<^verbatim>\<open>Load\<close>: \<open>readable\<close> says whether the read of an existing file works.\<close>
definition Sidecar_Load :: "string \<Rightarrow> bool \<Rightarrow> disk \<Rightarrow> store_error + SidecarData" where
  "Sidecar_Load path readable d =
     (case map_of d path of
        None \<Rightarrow> Inr \<lparr>sd_Version = sidecarVersion, sd_Ports = []\<rparr>
      | Some content \<Rightarrow>
          if \<not> readable then Inl ErrSidecarRead
          else
            (case content of
               OtherFile \<Rightarrow> Inl ErrSidecarParse
             | JsonFile v \<Rightarrow>
                 (case decodeData v of
                    None \<Rightarrow> Inl ErrSidecarParse
                  | Some data \<Rightarrow>
                      if sd_Version data \<noteq> sidecarVersion then Inl (ErrSidecarVersion (sd_Version data))
                      else Inr data)))"

datatype save_fault = NoFault | FailCreate | FailWrite | FailClose | FailRename

text \<open>\<^verbatim>\<open>Save\<close>: the result and the disks after each system call.  A failed write leaves part of the
  text behind until the temporary file is removed.\<close>
definition Sidecar_Save_trace ::
  "string \<Rightarrow> string \<Rightarrow> save_fault \<Rightarrow> disk \<Rightarrow> SidecarData \<Rightarrow> store_error option \<times> disk list" where
  "Sidecar_Save_trace path tmp fault d data =
     (let b = JsonFile (dataJson data);
          d1 = AList.update tmp OtherFile d;
          d2 = AList.update tmp b d1;
          d3 = AList.update path b (AList.delete tmp d2)
      in (case fault of
            FailCreate \<Rightarrow> (Some ErrCreateTemp, [d])
          | FailWrite \<Rightarrow> (Some ErrWriteTemp, [d1, AList.delete tmp d1])
          | FailClose \<Rightarrow> (Some ErrCloseTemp, [d1, d2, AList.delete tmp d2])
          | FailRename \<Rightarrow> (Some ErrRename, [d1, d2, AList.delete tmp d2])
          | NoFault \<Rightarrow> (None, [d1, d2, d3])))"

definition Sidecar_Save ::
  "string \<Rightarrow> string \<Rightarrow> save_fault \<Rightarrow> disk \<Rightarrow> SidecarData \<Rightarrow> store_error option \<times> disk" where
  "Sidecar_Save path tmp fault d data =
     (case Sidecar_Save_trace path tmp fault d data of (e, ds) \<Rightarrow> (e, last ds))"

definition sidecarPort :: "PortInfo \<Rightarrow> SidecarPort" where
  "sidecarPort p =
     \<lparr>sp_Port = pi_Port p, sp_CustomerID = pi_CustomerID p, sp_Service = pi_Service p,
      sp_ListenAddr = pi_ListenAddr p, sp_MaxStreams = pi_MaxStreams p\<rparr>"

definition SaveCurrentState ::
  "string \<Rightarrow> string \<Rightarrow> save_fault \<Rightarrow> disk \<Rightarrow> PortInfo list \<Rightarrow> store_error option \<times> disk" where
  "SaveCurrentState path tmp fault d ports =
     Sidecar_Save path tmp fault d \<lparr>sd_Version = sidecarVersion, sd_Ports = map sidecarPort ports\<rparr>"

section \<open>Round trip and atomicity\<close>

definition portRange :: "SidecarPort \<Rightarrow> bool" where
  "portRange p \<longleftrightarrow> int64 (sp_Port p) \<and> int64 (sp_MaxStreams p)"

text \<open>The five keys of a port and the two of the file are told apart by their spelling.\<close>
lemma sameKey_port [simp]:
  "sameKey ''port'' ''port''"
  "\<not> sameKey ''customer_id'' ''port''" "sameKey ''customer_id'' ''customer_id''"
  "\<not> sameKey ''service'' ''port''" "\<not> sameKey ''service'' ''customer_id''" "sameKey ''service'' ''service''"
  "\<not> sameKey ''listen_addr'' ''port''" "\<not> sameKey ''listen_addr'' ''customer_id''"
  "\<not> sameKey ''listen_addr'' ''service''" "sameKey ''listen_addr'' ''listen_addr''"
  "\<not> sameKey ''max_streams'' ''port''" "\<not> sameKey ''max_streams'' ''customer_id''"
  "\<not> sameKey ''max_streams'' ''service''" "\<not> sameKey ''max_streams'' ''listen_addr''"
  "sameKey ''max_streams'' ''max_streams''"
  "sameKey ''version'' ''version''" "\<not> sameKey ''ports'' ''version''" "sameKey ''ports'' ''ports''"
  by (simp_all add: sameKey_def lowerChar_def)

lemma decodePort_portJson: "portRange p \<Longrightarrow> decodePort (portJson p) = Some p"
  by (cases p) (simp add: portJson_def portRange_def setPortField_def zeroPort_def)

lemma decodePorts_map: "list_all portRange ps \<Longrightarrow> decodePorts (map portJson ps) = Some ps"
  by (induction ps) (simp_all add: decodePort_portJson)

lemma decodeData_dataJson: "list_all portRange (sd_Ports d) \<Longrightarrow> decodeData (dataJson d) = Some d"
  by (cases d) (simp add: dataJson_def setDataField_def decodePorts_map)

lemma Save_Load:
  assumes "tmp \<noteq> path" "sd_Version data = sidecarVersion" "list_all portRange (sd_Ports data)"
  shows "Sidecar_Load path True (snd (Sidecar_Save path tmp NoFault d data)) = Inr data"
  using assms decodeData_dataJson [OF assms(3)]
  by (simp add: Sidecar_Save_def Sidecar_Save_trace_def Let_def Sidecar_Load_def alist_maps)


definition exampleData :: SidecarData where
  "exampleData = \<lparr>sd_Version = sidecarVersion, sd_Ports = [\<lparr>sp_Port = 9000, sp_CustomerID = ''customer-1'',
     sp_Service = ''smb'', sp_ListenAddr = ''0.0.0.0'', sp_MaxStreams = 2\<rparr>]\<rparr>"


end
