(* ===== verification/Admin_Api.thy ===== *)
theory Admin_Api
  imports Relay_Server Sidecar
begin

text \<open>
  The admin interface: \<^verbatim>\<open>src/pkg/relay/admin.go\<close>.  A request has a method, a path and the JSON value
  its body starts with, if any; a response has a status, a content type and a JSON body.  The
  server's state holds the registry, router and client listener it works on, the audit events
  emitted so far (None without an emitter) and the disk the sidecar lives on.  What the
  operating system decides during a request is in \<open>admin_env\<close>; \<open>rfc3339\<close> formats a time.
\<close>

section \<open>Requests and responses\<close>

record http_request =
  rq_method :: string
  rq_path :: string
  rq_body :: "json option"

record http_response =
  rs_status :: int
  rs_json :: bool
  rs_body :: "json option"

definition httpError :: "string \<Rightarrow> int \<Rightarrow> http_response" where
  "httpError msg code = \<lparr>rs_status = code, rs_json = False, rs_body = Some (JObj [(''error'', JStr msg)])\<rparr>"

definition writeError :: "string \<Rightarrow> int \<Rightarrow> http_response" where
  "writeError msg code = \<lparr>rs_status = code, rs_json = True, rs_body = Some (JObj [(''error'', JStr msg)])\<rparr>"

definition writeJSON :: "json \<Rightarrow> http_response" where
  "writeJSON v = \<lparr>rs_status = 200, rs_json = True, rs_body = Some v\<rparr>"

text \<open>After an explicit \<^verbatim>\<open>WriteHeader\<close> the content type can no longer be set.\<close>
definition writeAfterHeader :: "int \<Rightarrow> json option \<Rightarrow> http_response" where
  "writeAfterHeader code v = \<lparr>rs_status = code, rs_json = False, rs_body = v\<rparr>"

abbreviation (input) methodNotAllowed :: http_response where
  "methodNotAllowed \<equiv> httpError ''method not allowed'' 405"

section \<open>The server\<close>

record 'l AdminServer =
  adm_registry :: MemoryRegistry
  adm_router :: PortRouter
  adm_clients :: "'l ClientListener"
  adm_emitter :: "Event list option"
  adm_store :: "string option"
  adm_disk :: disk
  adm_socketPath :: string
  adm_addr :: string
  adm_startTime :: int
  adm_certPaths :: "(string \<times> string) list"
  adm_version :: string
  adm_configPath :: string
  adm_currentCfg :: "RelayConfig option"

record admin_env =
  env_now :: int
  env_bind :: "int \<Rightarrow> bool"
  env_tmp :: string
  env_fault :: save_fault

text \<open>\<^verbatim>\<open>Start\<close>: where requests are served, given whether the socket can be bound.\<close>
datatype admin_serving = ServeSocket | ServeBoth | ServeTCP | ServeNothing | StartFailed

definition Admin_Start :: "'l AdminServer \<Rightarrow> bool \<Rightarrow> admin_serving" where
  "Admin_Start a socketOK =
     (if adm_socketPath a \<noteq> [] then
        (if \<not> socketOK then (if adm_addr a = [] then StartFailed else ServeTCP)
         else if adm_addr a = [] then ServeSocket
         else ServeBoth)
      else if adm_addr a \<noteq> [] then ServeTCP
      else ServeNothing)"

definition adminAudit ::
  "'l AdminServer \<Rightarrow> admin_env \<Rightarrow> Action \<Rightarrow> string \<Rightarrow> string \<Rightarrow> (string \<times> string) list \<Rightarrow> 'l AdminServer" where
  "adminAudit a env action target customerID metadata =
     a\<lparr>adm_emitter := map_option (\<lambda>evs. evs @
         [\<lparr>ev_Action = action, ev_Actor = ''admin-api'', ev_Target = target, ev_Timestamp = env_now env,
           ev_RequestID = [], ev_CustomerID = customerID, ev_Metadata = metadata\<rparr>]) (adm_emitter a)\<rparr>"

text \<open>Saving the router's ports to the sidecar, when there is one; errors are only logged.\<close>
definition persistPorts :: "'l AdminServer \<Rightarrow> admin_env \<Rightarrow> 'l AdminServer" where
  "persistPorts a env =
     (case adm_store a of
        None \<Rightarrow> a
      | Some path \<Rightarrow>
          a\<lparr>adm_disk := snd (SaveCurrentState path (env_tmp env) (env_fault env) (adm_disk a) (ListPorts (adm_router a)))\<rparr>)"

section \<open>Health, readiness and statistics\<close>

definition totalStreams :: "AgentInfo list \<Rightarrow> int" where
  "totalStreams infos = foldl (\<lambda>n i. n + ai_StreamCount i) 0 infos"

definition handleHealth :: "'l AdminServer \<Rightarrow> http_response" where
  "handleHealth a =
     (let infos = ListConnectedAgents (adm_registry a)
      in writeJSON (JObj [(''status'', JStr ''ok''), (''agents'', JInt (int (length infos))),
                          (''streams'', JInt (totalStreams infos))]))"

definition handleReady :: "'l AdminServer \<Rightarrow> http_response" where
  "handleReady a = writeJSON (JObj [(''status'', JStr ''ready'')])"

text \<open>A duration of whole seconds, printed.\<close>
definition showSeconds :: "int \<Rightarrow> string" where
  "showSeconds s =
     (let h = s div 3600; m = (s div 60) mod 60; r = s mod 60 in
      (if h > 0 then showInt h @ ''h'' else []) @
      (if s \<ge> 60 then showInt m @ ''m'' else []) @ showInt r @ ''s'')"

definition roundSeconds :: "int \<Rightarrow> int" where
  "roundSeconds d = (d + 5 * 10 ^ 8) div 10 ^ 9"

text \<open>\<open>secs\<close> turns the uptime into the number the JSON shows.\<close>
definition handleStats :: "(int \<Rightarrow> json) \<Rightarrow> 'l AdminServer \<Rightarrow> admin_env \<Rightarrow> string \<Rightarrow> http_response" where
  "handleStats secs a env meth =
     (if meth \<noteq> ''GET'' then methodNotAllowed
      else
        let infos = ListConnectedAgents (adm_registry a); uptime = env_now env - adm_startTime a
        in writeJSON (JObj [(''status'', JStr ''ok''), (''uptime'', JStr (showSeconds (roundSeconds uptime))),
             (''uptime_seconds'', secs uptime), (''agents'', JInt (int (length infos))),
             (''streams'', JInt (totalStreams infos))]))"

section \<open>Ports\<close>

definition portResponse :: "int \<Rightarrow> string \<Rightarrow> string \<Rightarrow> string \<Rightarrow> int \<Rightarrow> json" where
  "portResponse port customerID service listenAddr maxStreams =
     JObj [(''port'', JInt port), (''customer_id'', JStr customerID), (''service'', JStr service),
           (''listen_addr'', JStr listenAddr), (''max_streams'', JInt maxStreams)]"

definition portInfoToResponse :: "PortInfo \<Rightarrow> json" where
  "portInfoToResponse info =
     portResponse (pi_Port info) (pi_CustomerID info) (pi_Service info) (pi_ListenAddr info) (pi_MaxStreams info)"

definition adminListPorts :: "'l AdminServer \<Rightarrow> http_response" where
  "adminListPorts a = writeJSON (JArr (map portInfoToResponse (ListPorts (adm_router a))))"

definition adminGetPort :: "'l AdminServer \<Rightarrow> int \<Rightarrow> http_response" where
  "adminGetPort a port =
     (case GetPort (adm_router a) port of
        None \<Rightarrow> httpError ''port not found'' 404
      | Some info \<Rightarrow> writeJSON (portInfoToResponse info))"

record PortCreateRequest =
  pcr_Port :: int
  pcr_CustomerID :: string
  pcr_Service :: string
  pcr_MaxStreams :: int
  pcr_ListenAddr :: string

definition setCreateField :: "PortCreateRequest \<Rightarrow> string \<Rightarrow> json \<Rightarrow> PortCreateRequest option" where
  "setCreateField q k v =
     (if sameKey k ''port'' then map_option (\<lambda>i. q\<lparr>pcr_Port := i\<rparr>) (jsonInt (pcr_Port q) v)
      else if sameKey k ''customer_id'' then map_option (\<lambda>s. q\<lparr>pcr_CustomerID := s\<rparr>) (jsonString (pcr_CustomerID q) v)
      else if sameKey k ''service'' then map_option (\<lambda>s. q\<lparr>pcr_Service := s\<rparr>) (jsonString (pcr_Service q) v)
      else if sameKey k ''max_streams'' then map_option (\<lambda>i. q\<lparr>pcr_MaxStreams := i\<rparr>) (jsonInt (pcr_MaxStreams q) v)
      else if sameKey k ''listen_addr'' then map_option (\<lambda>s. q\<lparr>pcr_ListenAddr := s\<rparr>) (jsonString (pcr_ListenAddr q) v)
      else Some q)"

definition zeroCreate :: PortCreateRequest where
  "zeroCreate = \<lparr>pcr_Port = 0, pcr_CustomerID = [], pcr_Service = [], pcr_MaxStreams = 0, pcr_ListenAddr = []\<rparr>"

fun decodeCreate :: "json option \<Rightarrow> PortCreateRequest option" where
  "decodeCreate (Some (JObj ms)) = decodeMembers setCreateField zeroCreate ms"
| "decodeCreate (Some JNull) = Some zeroCreate"
| "decodeCreate _ = None"

text \<open>The checks of \<^verbatim>\<open>createPort\<close>, in their order.\<close>
definition createInvalid :: "PortCreateRequest \<Rightarrow> string option" where
  "createInvalid req =
     (if pcr_Port req \<le> 0 \<or> pcr_Port req > 65535 then Some ''port must be between 1 and 65535''
      else if pcr_CustomerID req = [] \<or> pcr_Service req = [] then Some ''customer_id and service are required''
      else if pcr_ListenAddr req \<noteq> [] \<and> \<not> validIP (pcr_ListenAddr req) then Some ''listen_addr must be a valid IP address''
      else if pcr_MaxStreams req < 0 then Some ''max_streams must be non-negative''
      else None)"

text \<open>The default listen address, and the entry a request asks for.\<close>
definition createListen :: "PortCreateRequest \<Rightarrow> string" where
  "createListen req = (if pcr_ListenAddr req = [] then ''0.0.0.0'' else pcr_ListenAddr req)"

definition createEntry :: "PortCreateRequest \<Rightarrow> portEntry" where
  "createEntry req = \<lparr>pe_customerID = pcr_CustomerID req, pe_service = pcr_Service req,
     pe_maxStreams = pcr_MaxStreams req, pe_listenAddr = createListen req\<rparr>"

definition createPort :: "'l AdminServer \<Rightarrow> admin_env \<Rightarrow> json option \<Rightarrow> http_response \<times> 'l AdminServer" where
  "createPort a env body =
     (case decodeCreate body of
        None \<Rightarrow> (httpError ''invalid JSON'' 400, a)
      | Some req \<Rightarrow>
          (case createInvalid req of
             Some msg \<Rightarrow> (httpError msg 400, a)
           | None \<Rightarrow>
               let listenAddr = createListen req;
                   addr = hostPort listenAddr (pcr_Port req);
                   a1 = a\<lparr>adm_router := AddPortMapping (adm_router a) (pcr_CustomerID req) (pcr_Port req)
                                          (pcr_Service req) listenAddr (pcr_MaxStreams req)\<rparr>
               in (case StartPort (adm_clients a1) addr (pcr_Port req) (env_bind env (pcr_Port req)) of
                     (Some _, _) \<Rightarrow>
                       (writeError (''listen '' @ addr) 409,
                        a1\<lparr>adm_router := snd (RemovePortMapping (adm_router a1) (pcr_CustomerID req) (pcr_Port req))\<rparr>)
                   | (None, cl) \<Rightarrow>
                       let a2 = persistPorts (a1\<lparr>adm_clients := cl\<rparr>) env;
                           a3 = adminAudit a2 env ActionAdminPortAdded (showInt (pcr_Port req)) (pcr_CustomerID req)
                                  [(''service'', pcr_Service req), (''listen_addr'', addr)]
                       in (writeAfterHeader 201 (Some (portResponse (pcr_Port req) (pcr_CustomerID req)
                             (pcr_Service req) listenAddr (pcr_MaxStreams req))), a3))))"

record PortUpdateRequest =
  pur_Service :: string
  pur_MaxStreams :: "int option"
  pur_ListenAddr :: string

text \<open>Into a pointer field null stores nil.\<close>
fun jsonIntPtr :: "json \<Rightarrow> int option option" where
  "jsonIntPtr JNull = Some None"
| "jsonIntPtr v = map_option Some (jsonInt 0 v)"

definition setUpdateField :: "PortUpdateRequest \<Rightarrow> string \<Rightarrow> json \<Rightarrow> PortUpdateRequest option" where
  "setUpdateField q k v =
     (if sameKey k ''service'' then map_option (\<lambda>s. q\<lparr>pur_Service := s\<rparr>) (jsonString (pur_Service q) v)
      else if sameKey k ''max_streams'' then map_option (\<lambda>i. q\<lparr>pur_MaxStreams := i\<rparr>) (jsonIntPtr v)
      else if sameKey k ''listen_addr'' then map_option (\<lambda>s. q\<lparr>pur_ListenAddr := s\<rparr>) (jsonString (pur_ListenAddr q) v)
      else Some q)"

definition zeroUpdate :: PortUpdateRequest where
  "zeroUpdate = \<lparr>pur_Service = [], pur_MaxStreams = None, pur_ListenAddr = []\<rparr>"

fun decodeUpdate :: "json option \<Rightarrow> PortUpdateRequest option" where
  "decodeUpdate (Some (JObj ms)) = decodeMembers setUpdateField zeroUpdate ms"
| "decodeUpdate (Some JNull) = Some zeroUpdate"
| "decodeUpdate _ = None"

definition decodePortUpdateRequest :: "json option \<Rightarrow> http_response + PortUpdateRequest" where
  "decodePortUpdateRequest body =
     (case decodeUpdate body of
        None \<Rightarrow> Inl (httpError ''invalid JSON'' 400)
      | Some req \<Rightarrow>
          if pur_Service req = [] \<and> pur_ListenAddr req = [] \<and> pur_MaxStreams req = None then
            Inl (httpError ''at least one of service, listen_addr, max_streams must be set'' 400)
          else if pur_ListenAddr req \<noteq> [] \<and> \<not> validIP (pur_ListenAddr req) then
            Inl (httpError ''listen_addr must be a valid IP address'' 400)
          else if (case pur_MaxStreams req of Some n \<Rightarrow> n < 0 | None \<Rightarrow> False) then
            Inl (httpError ''max_streams must be non-negative'' 400)
          else Inr req)"

definition mergePortUpdate :: "PortInfo \<Rightarrow> PortUpdateRequest \<Rightarrow> string \<times> string \<times> int" where
  "mergePortUpdate existing req =
     ((if pur_Service req \<noteq> [] then pur_Service req else pi_Service existing),
      (if pur_ListenAddr req \<noteq> [] then pur_ListenAddr req else pi_ListenAddr existing),
      (case pur_MaxStreams req of Some n \<Rightarrow> n | None \<Rightarrow> pi_MaxStreams existing))"

definition updatePort :: "'l AdminServer \<Rightarrow> admin_env \<Rightarrow> json option \<Rightarrow> int \<Rightarrow> http_response \<times> 'l AdminServer" where
  "updatePort a env body port =
     (case decodePortUpdateRequest body of
        Inl r \<Rightarrow> (r, a)
      | Inr req \<Rightarrow>
          (case GetPort (adm_router a) port of
             None \<Rightarrow> (httpError ''port not found'' 404, a)
           | Some existing \<Rightarrow>
               let (service, listenAddr, maxStreams) = mergePortUpdate existing req in
               (case UpdatePortMapping (adm_router a) port service listenAddr maxStreams of
                  (Some ErrPortNotFound, _) \<Rightarrow> (httpError ''port not found'' 404, a)
                | (Some _, _) \<Rightarrow> (writeError [] 500, a)
                | (None, rt) \<Rightarrow>
                    let a1 = persistPorts (a\<lparr>adm_router := rt\<rparr>) env;
                        a2 = adminAudit a1 env ActionAdminPortUpdated (showInt port) (pi_CustomerID existing)
                               [(''service'', service), (''listen_addr'', listenAddr), (''max_streams'', showInt maxStreams)]
                    in (writeJSON (portResponse port (pi_CustomerID existing) service listenAddr maxStreams), a2))))"

definition deletePort :: "'l AdminServer \<Rightarrow> admin_env \<Rightarrow> int \<Rightarrow> http_response \<times> 'l AdminServer" where
  "deletePort a env port =
     (case LookupPort (adm_router a) port of
        None \<Rightarrow> (httpError ''port not found'' 404, a)
      | Some (customerID, _) \<Rightarrow>
          (case RemovePortMapping (adm_router a) customerID port of
             (Some _, _) \<Rightarrow> (writeError [] 500, a)
           | (None, rt) \<Rightarrow>
               let a1 = a\<lparr>adm_router := rt, adm_clients := snd (StopPort (adm_clients a) port)\<rparr>;
                   a2 = adminAudit (persistPorts a1 env) env ActionAdminPortRemoved (showInt port) customerID []
               in (writeAfterHeader 204 None, a2)))"

definition handlePorts :: "'l AdminServer \<Rightarrow> admin_env \<Rightarrow> http_request \<Rightarrow> http_response \<times> 'l AdminServer" where
  "handlePorts a env r =
     (if rq_method r = ''GET'' then (adminListPorts a, a)
      else if rq_method r = ''POST'' then createPort a env (rq_body r)
      else (methodNotAllowed, a))"

definition trimPrefix :: "string \<Rightarrow> string \<Rightarrow> string" where
  "trimPrefix s p = (if hasPrefix s p then drop (length p) s else s)"

definition handlePortByID :: "'l AdminServer \<Rightarrow> admin_env \<Rightarrow> http_request \<Rightarrow> http_response \<times> 'l AdminServer" where
  "handlePortByID a env r =
     (case Atoi (trimPrefix (rq_path r) ''/ports/'') of
        None \<Rightarrow> (httpError ''invalid port number'' 400, a)
      | Some port \<Rightarrow>
          if rq_method r = ''GET'' then (adminGetPort a port, a)
          else if rq_method r = ''PUT'' then updatePort a env (rq_body r) port
          else if rq_method r = ''DELETE'' then deletePort a env port
          else (methodNotAllowed, a))"

section \<open>Agents\<close>

definition agentInfoToResponse :: "(int \<Rightarrow> string) \<Rightarrow> AgentInfo \<Rightarrow> json" where
  "agentInfoToResponse rfc3339 ag =
     JObj [(''customer_id'', JStr (ai_CustomerID ag)), (''remote_addr'', JStr (ai_RemoteAddr ag)),
           (''connected_at'', JStr (rfc3339 (ai_ConnectedAt ag))), (''last_seen'', JStr (rfc3339 (ai_LastSeen ag))),
           (''stream_count'', JInt (ai_StreamCount ag)), (''services'', if ai_Services ag = [] then JNull else JArr (map JStr (ai_Services ag))),
           (''cert_not_after'', JStr (rfc3339 (ai_CertNotAfter ag)))]"

definition handleAgents :: "(int \<Rightarrow> string) \<Rightarrow> 'l AdminServer \<Rightarrow> http_request \<Rightarrow> http_response" where
  "handleAgents rfc3339 a r =
     (if rq_method r \<noteq> ''GET'' then methodNotAllowed
      else writeJSON (JArr (map (agentInfoToResponse rfc3339) (ListConnectedAgents (adm_registry a)))))"

definition getAgent :: "(int \<Rightarrow> string) \<Rightarrow> 'l AdminServer \<Rightarrow> string \<Rightarrow> http_response" where
  "getAgent rfc3339 a customerID =
     (case find (\<lambda>i. ai_CustomerID i = customerID) (ListConnectedAgents (adm_registry a)) of
        None \<Rightarrow> httpError ''agent not found'' 404
      | Some i \<Rightarrow> writeJSON (agentInfoToResponse rfc3339 i))"

definition deleteAgent :: "'l AdminServer \<Rightarrow> admin_env \<Rightarrow> string \<Rightarrow> http_response \<times> 'l AdminServer" where
  "deleteAgent a env customerID =
     (writeAfterHeader 204 None,
      adminAudit (a\<lparr>adm_registry := Unregister (adm_registry a) customerID\<rparr>) env
        ActionAdminAgentDisconnected customerID customerID [])"

definition handleAgentByID ::
  "(int \<Rightarrow> string) \<Rightarrow> 'l AdminServer \<Rightarrow> admin_env \<Rightarrow> http_request \<Rightarrow> http_response \<times> 'l AdminServer" where
  "handleAgentByID rfc3339 a env r =
     (let customerID = trimPrefix (rq_path r) ''/agents/'' in
      if customerID = [] then (httpError ''customer_id required'' 400, a)
      else if rq_method r = ''GET'' then (getAgent rfc3339 a customerID, a)
      else if rq_method r = ''DELETE'' then deleteAgent a env customerID
      else (methodNotAllowed, a))"

section \<open>What requests keep\<close>

lemma adminAudit_fields [simp]:
  "adm_router (adminAudit a env act t k m) = adm_router a" "adm_clients (adminAudit a env act t k m) = adm_clients a"
  "adm_registry (adminAudit a env act t k m) = adm_registry a" "adm_disk (adminAudit a env act t k m) = adm_disk a"
  "adm_store (adminAudit a env act t k m) = adm_store a"
  by (simp_all add: adminAudit_def)

lemma persistPorts_fields [simp]:
  "adm_router (persistPorts a env) = adm_router a" "adm_clients (persistPorts a env) = adm_clients a"
  "adm_registry (persistPorts a env) = adm_registry a" "adm_store (persistPorts a env) = adm_store a"
  "adm_emitter (persistPorts a env) = adm_emitter a"
  by (simp_all add: persistPorts_def split: option.splits)

definition tenantOf :: "'l AdminServer \<Rightarrow> int \<Rightarrow> string option" where
  "tenantOf a p = map_option fst (LookupPort (adm_router a) p)"

lemma tenantOf_updatePort: "tenantOf (snd (updatePort a env body port)) p = tenantOf a p"
  by (auto simp: tenantOf_def updatePort_def Let_def LookupPort_def UpdatePortMapping_def alist_maps
      split: sum.splits option.splits prod.splits router_error.splits)

lemma tenantOf_deletePort:
  "tenantOf (snd (deletePort a env port)) p = (if p = port then None else tenantOf a p)"
  by (auto simp: tenantOf_def deletePort_def Let_def LookupPort_def RemovePortMapping_def alist_maps
      split: option.splits prod.splits)

text \<open>Requests other than a creation keep the tenant of every port or remove the port.\<close>
lemma handlePortByID_tenant: "tenantOf (snd (handlePortByID a env r)) p \<in> {None, tenantOf a p}"
  by (simp add: handlePortByID_def tenantOf_updatePort tenantOf_deletePort split: option.splits)

section \<open>Creating a port\<close>

lemma createPort_cases:
  fixes a :: "'l AdminServer"
  assumes "createPort a env body = (resp, a')"
  obtains "a' = a" "rs_status resp = 400"
  | req where "decodeCreate body = Some req" "createInvalid req = None" "\<not> env_bind env (pcr_Port req)"
      "rs_status resp = 409"
      "a' = a\<lparr>adm_router := (adm_router a)\<lparr>portMap := AList.delete (pcr_Port req)
         (AList.update (pcr_Port req) (createEntry req) (portMap (adm_router a)))\<rparr>\<rparr>"
  | req where "decodeCreate body = Some req" "createInvalid req = None" "env_bind env (pcr_Port req)"
      "rs_status resp = 201"
      "a' = adminAudit (persistPorts (a\<lparr>adm_router := (adm_router a)\<lparr>portMap :=
             AList.update (pcr_Port req) (createEntry req) (portMap (adm_router a))\<rparr>,
           adm_clients := snd (StartPort (adm_clients a) (hostPort (createListen req) (pcr_Port req)) (pcr_Port req) True)\<rparr>) env)
         env ActionAdminPortAdded (showInt (pcr_Port req)) (pcr_CustomerID req)
         [(''service'', pcr_Service req), (''listen_addr'', hostPort (createListen req) (pcr_Port req))]"
proof (cases "decodeCreate body")
  case None
  then show ?thesis using assms that(1) by (auto simp: createPort_def httpError_def)
next
  case (Some req)
  show ?thesis
  proof (cases "createInvalid req")
    case (Some msg)
    then show ?thesis using assms \<open>decodeCreate body = Some req\<close> that(1) by (auto simp: createPort_def httpError_def)
  next
    case None
    note d = \<open>decodeCreate body = Some req\<close> None
    note defs = createPort_def Let_def StartPort_def AddPortMapping_def RemovePortMapping_def alist_maps
      writeError_def writeAfterHeader_def createEntry_def
    show ?thesis
    proof (cases "env_bind env (pcr_Port req)")
      case False
      then show ?thesis using assms d by (intro that(2) [of req]) (auto simp: defs)
    next
      case True
      then show ?thesis using assms d by (intro that(3) [of req]) (auto simp: defs)
    qed
  qed
qed

lemma delete_update_fresh: "map_of al k = None \<Longrightarrow> AList.delete k (AList.update k v al) = al"
  by (induction al) (auto simp: AList.delete_eq filter_id_conv map_of_eq_None_iff intro!: filter_True split: if_splits)


definition exampleAdmin :: "bool AdminServer" where
  "exampleAdmin =
     \<lparr>adm_registry = NewMemoryRegistry, adm_router = exampleRouter,
      adm_clients = snd (StartPort NewClientListener ''0.0.0.0:9000'' 9000 True),
      adm_emitter = Some [], adm_store = None, adm_disk = [], adm_socketPath = [], adm_addr = ''127.0.0.1:9090'',
      adm_startTime = 0, adm_certPaths = [], adm_version = ''dev'', adm_configPath = [], adm_currentCfg = None\<rparr>"

definition exampleEnv :: "(int \<Rightarrow> bool) \<Rightarrow> admin_env" where
  "exampleEnv bind = \<lparr>env_now = 7, env_bind = bind, env_tmp = ''.sidecar-1.tmp'', env_fault = NoFault\<rparr>"

definition createBody :: "int \<Rightarrow> string \<Rightarrow> string \<Rightarrow> json option" where
  "createBody port customerID service =
     Some (JObj [(''port'', JInt port), (''customer_id'', JStr customerID), (''service'', JStr service)])"

lemma decode_createBody:
  "int64 port \<Longrightarrow> decodeCreate (createBody port customerID service) =
     Some \<lparr>pcr_Port = port, pcr_CustomerID = customerID, pcr_Service = service, pcr_MaxStreams = 0, pcr_ListenAddr = []\<rparr>"
  by (simp add: createBody_def setCreateField_def zeroCreate_def)

lemmas admin_defs = exampleAdmin_def exampleEnv_def createPort_def createInvalid_def createListen_def Let_def
  StartPort_def StartPortWithListener_def NewClientListener_def exampleRouter_def NewPortRouter_def AddPortMapping_def
  RemovePortMapping_def LookupPort_def persistPorts_def adminAudit_def writeError_def writeAfterHeader_def


text \<open>Asking for a port that another customer already has first overwrites the mapping and then,
  when the bind fails because the port is in use, removes it: the request is refused and the
  existing customer's port is gone from the router while its listener stays open. When the bind
  succeeds on another address, the port changes hands.\<close>
theorem create_conflict_drops_mapping:
  "let body = createBody 9000 ''customer-2'' ''http'';
       refused = createPort exampleAdmin (exampleEnv (\<lambda>_. False)) body;
       taken = createPort exampleAdmin (exampleEnv (\<lambda>_. True)) body
   in LookupPort (adm_router exampleAdmin) 9000 = Some (''customer-1'', ''smb'') \<and>
      rs_status (fst refused) = 409 \<and> LookupPort (adm_router (snd refused)) 9000 = None \<and>
      openLns (adm_clients (snd refused)) = {0} \<and>
      rs_status (fst taken) = 201 \<and> LookupPort (adm_router (snd taken)) 9000 = Some (''customer-2'', ''http'')"
proof -
  have d: "decodeCreate (createBody 9000 ''customer-2'' ''http'') =
     Some \<lparr>pcr_Port = 9000, pcr_CustomerID = ''customer-2'', pcr_Service = ''http'', pcr_MaxStreams = 0, pcr_ListenAddr = []\<rparr>"
    by (rule decode_createBody) (simp add: int64_def)
  show ?thesis unfolding Let_def by (simp add: admin_defs d openLns_def)
qed

section \<open>The sidecar mirrors the router\<close>

definition rangeOK :: "PortRouter \<Rightarrow> bool" where
  "rangeOK rt \<longleftrightarrow> list_all (\<lambda>(p, e). int64 p \<and> int64 (pe_maxStreams e)) (portMap rt)"

definition mirrored :: "string \<Rightarrow> 'l AdminServer \<Rightarrow> bool" where
  "mirrored path a \<longleftrightarrow> adm_store a = Some path \<and> rangeOK (adm_router a) \<and>
     Sidecar_Load path True (adm_disk a) =
       Inr \<lparr>sd_Version = sidecarVersion, sd_Ports = map sidecarPort (ListPorts (adm_router a))\<rparr>"

lemma rangeOK_update:
  "rangeOK rt \<Longrightarrow> int64 p \<Longrightarrow> int64 (pe_maxStreams e) \<Longrightarrow> rangeOK (rt\<lparr>portMap := AList.update p e (portMap rt)\<rparr>)"
proof -
  have "list_all P al \<Longrightarrow> P (p, e) \<Longrightarrow> list_all P (AList.update p e al)" for P and al :: "(int \<times> portEntry) list"
    by (induction al) auto
  then show "rangeOK rt \<Longrightarrow> int64 p \<Longrightarrow> int64 (pe_maxStreams e) \<Longrightarrow> rangeOK (rt\<lparr>portMap := AList.update p e (portMap rt)\<rparr>)"
    by (simp add: rangeOK_def)
qed

lemma rangeOK_delete: "rangeOK rt \<Longrightarrow> rangeOK (rt\<lparr>portMap := AList.delete p (portMap rt)\<rparr>)"
  by (auto simp: rangeOK_def AList.delete_eq list_all_iff)

lemma mirrored_persist:
  assumes "adm_store a = Some path" "rangeOK (adm_router a)" "env_fault env = NoFault" "env_tmp env \<noteq> path"
  shows "mirrored path (persistPorts a env)"
proof -
  have "list_all portRange (map sidecarPort (ListPorts (adm_router a)))"
    using assms(2) by (auto simp: rangeOK_def ListPorts_def list_all_iff portRange_def sidecarPort_def portInfo_def)
  then show ?thesis using assms Save_Load [OF assms(4), of
      "\<lparr>sd_Version = sidecarVersion, sd_Ports = map sidecarPort (ListPorts (adm_router a))\<rparr>" "adm_disk a"]
    by (simp add: mirrored_def persistPorts_def SaveCurrentState_def)
qed

lemma mirrored_audit [simp]: "mirrored path (adminAudit a env act t k m) = mirrored path a"
  by (simp add: mirrored_def)

lemma decodeCreate_range:
  assumes "decodeCreate body = Some req" shows "int64 (pcr_MaxStreams req)"
proof -
  have z: "int64 (pcr_MaxStreams zeroCreate)" by (simp add: zeroCreate_def int64_def)
  have step: "int64 (pcr_MaxStreams r')" if "int64 (pcr_MaxStreams r)" "setCreateField r k v = Some r'" for r k v r'
    using that by (auto simp: setCreateField_def dest: jsonInt_range split: if_splits)
  have "int64 (pcr_MaxStreams q)" if "decodeMembers setCreateField zeroCreate ms = Some q" for ms q
    by (rule decodeMembers_inv [where P = "\<lambda>q. int64 (pcr_MaxStreams q)", OF _ z that]) (rule step)
  then show ?thesis using assms z by (cases body rule: decodeCreate.cases) auto
qed

lemma decodeUpdate_range:
  assumes "decodeUpdate body = Some req" "pur_MaxStreams req = Some n" shows "int64 n"
proof -
  let ?P = "\<lambda>q. \<forall>n. pur_MaxStreams q = Some n \<longrightarrow> int64 n"
  have z: "?P zeroUpdate" by (simp add: zeroUpdate_def)
  have ptr: "int64 n" if "jsonIntPtr v = Some (Some n)" for v n
    using that jsonInt_range [of 0 v n] by (cases v) (auto simp: int64_def)
  have step: "?P r'" if "?P r" "setUpdateField r k v = Some r'" for r k v r'
    using that ptr [of v] by (auto simp: setUpdateField_def split: if_splits)
  have "?P q" if "decodeMembers setUpdateField zeroUpdate ms = Some q" for ms q
    by (rule decodeMembers_inv [where P = ?P, OF _ z that]) (rule step)
  then show ?thesis using assms z by (cases body rule: decodeUpdate.cases) auto
qed

lemma mirrored_createPort:
  fixes a :: "'l AdminServer"
  assumes "mirrored path a" "env_fault env = NoFault" "env_tmp env \<noteq> path" "createPort a env body = (resp, a')"
    "\<And>req. decodeCreate body = Some req \<Longrightarrow> \<not> env_bind env (pcr_Port req) \<Longrightarrow> LookupPort (adm_router a) (pcr_Port req) = None"
  shows "mirrored path a'"
  using assms(4)
proof (cases rule: createPort_cases)
  case 1
  then show ?thesis using assms(1) by simp
next
  case (2 req)
  then have "a' = a"
    using assms(5) [OF 2(1,3)] delete_update_fresh [of "portMap (adm_router a)" "pcr_Port req"]
    by (simp add: LookupPort_def)
  then show ?thesis using assms(1) by simp
next
  case (3 req)
  let ?rt = "(adm_router a)\<lparr>portMap := AList.update (pcr_Port req) (createEntry req) (portMap (adm_router a))\<rparr>"
  have "int64 (pcr_Port req)" using 3(2) by (auto simp: createInvalid_def int64_def split: if_splits)
  then have "rangeOK ?rt"
    using assms(1) decodeCreate_range [OF 3(1)]
    by (intro rangeOK_update) (simp_all add: mirrored_def createEntry_def)
  then show ?thesis using assms(1-3) unfolding 3(5) mirrored_audit
    by (intro mirrored_persist) (simp_all add: mirrored_def)
qed

lemma mirrored_updatePort:
  fixes a :: "'l AdminServer"
  assumes "mirrored path a" "env_fault env = NoFault" "env_tmp env \<noteq> path"
  shows "mirrored path (snd (updatePort a env body port))"
proof (cases "decodePortUpdateRequest body")
  case (Inl r)
  then show ?thesis using assms(1) by (simp add: updatePort_def)
next
  case (Inr req)
  show ?thesis
  proof (cases "map_of (portMap (adm_router a)) port")
    case None
    then show ?thesis using assms(1) Inr by (simp add: updatePort_def GetPort_def)
  next
    case (Some e)
    obtain sv la ms where m: "mergePortUpdate (portInfo port e) req = (sv, la, ms)" by (metis prod_cases3)
    have r: "int64 port" "int64 (pe_maxStreams e)" "rangeOK (adm_router a)"
      using assms(1) map_of_SomeD [OF Some] by (auto simp: mirrored_def rangeOK_def list_all_iff)
    have "decodeUpdate body = Some req"
      using Inr by (auto simp: decodePortUpdateRequest_def split: option.splits if_splits)
    then have "int64 ms"
      using m r(2) decodeUpdate_range [of body req] by (auto simp: mergePortUpdate_def portInfo_def split: option.splits)
    then have "rangeOK ((adm_router a)\<lparr>portMap := AList.update port \<lparr>pe_customerID = pe_customerID e, pe_service = sv,
        pe_maxStreams = ms, pe_listenAddr = la\<rparr> (portMap (adm_router a))\<rparr>)"
      using r by (intro rangeOK_update) simp_all
    then have "mirrored path (persistPorts (a\<lparr>adm_router := (adm_router a)\<lparr>portMap := AList.update port
        \<lparr>pe_customerID = pe_customerID e, pe_service = sv, pe_maxStreams = ms, pe_listenAddr = la\<rparr>
        (portMap (adm_router a))\<rparr>\<rparr>) env)"
      using assms by (intro mirrored_persist) (simp_all add: mirrored_def)
    then show ?thesis
      by (simp add: updatePort_def Inr GetPort_def Some m UpdatePortMapping_def Let_def)
  qed
qed

lemma mirrored_deletePort:
  fixes a :: "'l AdminServer"
  assumes "mirrored path a" "env_fault env = NoFault" "env_tmp env \<noteq> path"
  shows "mirrored path (snd (deletePort a env port))"
proof (cases "map_of (portMap (adm_router a)) port")
  case None
  then show ?thesis using assms(1) by (simp add: deletePort_def LookupPort_def)
next
  case (Some e)
  have "mirrored path (persistPorts (a\<lparr>adm_router := (adm_router a)\<lparr>portMap := AList.delete port (portMap (adm_router a))\<rparr>,
      adm_clients := snd (StopPort (adm_clients a) port)\<rparr>) env)"
    using assms by (intro mirrored_persist) (simp_all add: mirrored_def rangeOK_delete)
  then show ?thesis by (simp add: deletePort_def LookupPort_def Some RemovePortMapping_def Let_def)
qed

end
