(* ===== verification/Admin_Status.thy ===== *)
theory Admin_Status
  imports Admin_Api
begin

text \<open>
  The status page: \<^verbatim>\<open>src/pkg/relay/admin_status.go\<close>.  Reading files, decoding PEM and parsing
  certificates are arguments; times are nanoseconds and the zero time is 0.
\<close>

record CertExpiry =
  ce_Name :: string
  ce_ExpiresAt :: int
  ce_DaysLeft :: int

definition dayNanos :: int where
  "dayNanos = 24 * 60 * 60 * 10 ^ 9"

text \<open>\<^verbatim>\<open>int(d.Hours() / 24)\<close>: conversion to an integer truncates towards zero.\<close>
definition daysLeft :: "int \<Rightarrow> int" where
  "daysLeft d = sgn d * (\<bar>d\<bar> div dayNanos)"

datatype expiry_error = ErrCertRead | ErrCertNoBlock | ErrCertBlockType string | ErrCertParse

text \<open>\<open>pemBlock\<close> gives the type and bytes of the first PEM block, \<open>parseCert\<close> the expiry of a certificate.\<close>
definition parseCertExpiry ::
  "(string \<Rightarrow> bytes option) \<Rightarrow> (bytes \<Rightarrow> (string \<times> bytes) option) \<Rightarrow> (bytes \<Rightarrow> int option) \<Rightarrow> int \<Rightarrow>
   string \<Rightarrow> string \<Rightarrow> expiry_error + CertExpiry" where
  "parseCertExpiry readFile pemBlock parseCert now name path =
     (case readFile path of
        None \<Rightarrow> Inl ErrCertRead
      | Some data \<Rightarrow>
          (case pemBlock data of
             None \<Rightarrow> Inl ErrCertNoBlock
           | Some (t, b) \<Rightarrow>
               if t \<noteq> ''CERTIFICATE'' then Inl (ErrCertBlockType t)
               else
                 (case parseCert b of
                    None \<Rightarrow> Inl ErrCertParse
                  | Some notAfter \<Rightarrow>
                      Inr \<lparr>ce_Name = name, ce_ExpiresAt = notAfter, ce_DaysLeft = daysLeft (notAfter - now)\<rparr>)))"

definition collectRelayCerts ::
  "(string \<Rightarrow> bytes option) \<Rightarrow> (bytes \<Rightarrow> (string \<times> bytes) option) \<Rightarrow> (bytes \<Rightarrow> int option) \<Rightarrow> int \<Rightarrow>
   (string \<times> string) list \<Rightarrow> CertExpiry list" where
  "collectRelayCerts readFile pemBlock parseCert now certPaths =
     concat (map (\<lambda>(name, path). case parseCertExpiry readFile pemBlock parseCert now name path of
                     Inl _ \<Rightarrow> [] | Inr entry \<Rightarrow> [entry]) certPaths)"

definition collectAgentCerts :: "int \<Rightarrow> AgentInfo list \<Rightarrow> CertExpiry list" where
  "collectAgentCerts now infos =
     concat (map (\<lambda>ag. if ai_CertNotAfter ag = 0 then []
                       else [\<lparr>ce_Name = ai_CustomerID ag, ce_ExpiresAt = ai_CertNotAfter ag,
                              ce_DaysLeft = daysLeft (ai_CertNotAfter ag - now)\<rparr>]) infos)"

definition expiryJson :: "(int \<Rightarrow> string) \<Rightarrow> CertExpiry \<Rightarrow> json" where
  "expiryJson rfc3339 e =
     JObj [(''name'', JStr (ce_Name e)), (''expires_at'', JStr (rfc3339 (ce_ExpiresAt e))),
           (''days_left'', JInt (ce_DaysLeft e))]"

definition handleStatus ::
  "(int \<Rightarrow> string) \<Rightarrow> (int \<Rightarrow> json) \<Rightarrow> (string \<Rightarrow> bytes option) \<Rightarrow> (bytes \<Rightarrow> (string \<times> bytes) option) \<Rightarrow>
   (bytes \<Rightarrow> int option) \<Rightarrow> 'l AdminServer \<Rightarrow> admin_env \<Rightarrow> string \<Rightarrow> http_response" where
  "handleStatus rfc3339 secs readFile pemBlock parseCert a env meth =
     (if meth \<noteq> ''GET'' then writeError ''method not allowed'' 405
      else
        let infos = ListConnectedAgents (adm_registry a); uptime = env_now env - adm_startTime a
        in writeJSON (JObj [
             (''status'', JStr ''ok''), (''uptime'', JStr (showSeconds (roundSeconds uptime))),
             (''uptime_seconds'', secs uptime), (''agents_connected'', JInt (int (length infos))),
             (''streams_active'', JInt (totalStreams infos)),
             (''ports_active'', JInt (int (length (ListPorts (adm_router a))))),
             (''config_version'', JStr (adm_version a)),
             (''relay_certs'', JArr (map (expiryJson rfc3339)
                (collectRelayCerts readFile pemBlock parseCert (env_now env) (adm_certPaths a)))),
             (''agent_certs'', JArr (map (expiryJson rfc3339) (collectAgentCerts (env_now env) infos)))]))"

section \<open>What the numbers mean\<close>

lemma dayNanos_pos: "0 < dayNanos"
  by (simp add: dayNanos_def)

lemma daysLeft_abs: "daysLeft \<bar>d\<bar> * dayNanos \<le> \<bar>d\<bar> \<and> \<bar>d\<bar> < (daysLeft \<bar>d\<bar> + 1) * dayNanos"
proof -
  have e: "daysLeft \<bar>d\<bar> = \<bar>d\<bar> div dayNanos" by (cases "d = 0") (simp_all add: daysLeft_def)
  have "\<bar>d\<bar> div dayNanos * dayNanos + \<bar>d\<bar> mod dayNanos = \<bar>d\<bar>" by simp
  moreover have "0 \<le> \<bar>d\<bar> mod dayNanos" "\<bar>d\<bar> mod dayNanos < dayNanos" using dayNanos_pos by simp_all
  ultimately show ?thesis unfolding e distrib_right by linarith
qed

text \<open>The reported days are the remaining time rounded towards zero: a certificate with n days
  left has at least n and less than n + 1 whole days to go, the figure of an expired one is the
  negation of that of one as far from expiry on the other side, and so a certificate that
  expired less than a day ago still reports zero days, not a negative number.\<close>
theorem days_left_bounds:
  "daysLeft \<bar>d\<bar> * dayNanos \<le> \<bar>d\<bar> \<and> \<bar>d\<bar> < (daysLeft \<bar>d\<bar> + 1) * dayNanos \<and>
   daysLeft (- d) = - daysLeft d \<and> (daysLeft d < 0 \<longleftrightarrow> d \<le> - dayNanos) \<and> daysLeft (- 1) = 0"
proof -
  have neg: "daysLeft (- d) = - daysLeft d" for d by (simp add: daysLeft_def)
  have "daysLeft d < 0 \<longleftrightarrow> d \<le> - dayNanos"
  proof (cases "0 \<le> d")
    case True
    then have "daysLeft d \<ge> 0" using dayNanos_pos by (simp add: daysLeft_def sgn_if pos_imp_zdiv_nonneg_iff)
    then show ?thesis using True dayNanos_pos by auto
  next
    case False
    then have "daysLeft d < 0 \<longleftrightarrow> 0 < (- d) div dayNanos" by (simp add: daysLeft_def sgn_if)
    also have "\<dots> \<longleftrightarrow> dayNanos \<le> - d" using dayNanos_pos by (simp add: pos_imp_zdiv_pos_iff)
    finally show ?thesis by auto
  qed
  moreover have "daysLeft (- 1) = 0" by (simp add: daysLeft_def dayNanos_def)
  ultimately show ?thesis using daysLeft_abs neg by blast
qed

text \<open>Each agent with a known expiry appears once in the list, with its own name, and a relay
  certificate that cannot be read or parsed is left out without affecting the others.\<close>
lemma collectAgentCerts_names:
  "map ce_Name (collectAgentCerts now infos) = map ai_CustomerID (filter (\<lambda>ag. ai_CertNotAfter ag \<noteq> 0) infos)"
  by (induction infos) (auto simp: collectAgentCerts_def)

end
