(* ===== verification/Admin_Reload.thy ===== *)
theory Admin_Reload
  imports Admin_Status "HOL-Library.Char_ord" "HOL-Library.List_Lexorder"
begin

text \<open>
  Reloading the configuration: \<^verbatim>\<open>src/pkg/relay/admin_reload.go\<close>, and the request dispatch of the
  admin server.  Maps are visited in table order.  The loader's file system, YAML decoder and
  environment are arguments, as in the configuration theory.
\<close>

section \<open>Comparing configurations\<close>

record ReloadSummary =
  PortsAdded :: int
  PortsRemoved :: int
  PortsUpdated :: int
  PortsRejected :: int
  RateLimitsChanged :: int
  RestartRequired :: "string list"

definition indexPorts :: "RelayConfig option \<Rightarrow> PortIndex" where
  "indexPorts cfg =
     (case cfg of
        None \<Rightarrow> []
      | Some c \<Rightarrow>
          foldl (\<lambda>out cust. foldl (\<lambda>out p. AList.update (pc_Port p) (portIndexEntry cust p) out) out (cc_Ports cust))
            [] (Customers c))"

definition portMutableFieldsDiffer :: "PortIndexEntry \<Rightarrow> PortIndexEntry \<Rightarrow> bool" where
  "portMutableFieldsDiffer x y \<longleftrightarrow>
     pie_Service x \<noteq> pie_Service y \<or> pie_ListenAddr x \<noteq> pie_ListenAddr y \<or> pie_MaxStreams x \<noteq> pie_MaxStreams y"

definition rateLimitEqual :: "RateLimitConfig \<Rightarrow> RateLimitConfig \<Rightarrow> bool" where
  "rateLimitEqual x y \<longleftrightarrow> RequestsPerSecond x = RequestsPerSecond y \<and> Burst x = Burst y"

definition rateLimits :: "RelayConfig option \<Rightarrow> (string, RateLimitConfig) gomap" where
  "rateLimits cfg =
     (case cfg of
        None \<Rightarrow> []
      | Some c \<Rightarrow> foldl (\<lambda>out cust. AList.update (cc_ID cust) (cc_RateLimit cust) out) [] (Customers c))"

definition diffRestartRequired :: "RelayConfig option \<Rightarrow> RelayConfig option \<Rightarrow> string list" where
  "diffRestartRequired oldCfg newCfg =
     (case (oldCfg, newCfg) of
        (Some x, Some y) \<Rightarrow>
          sort (
            (if CertFile (relay_TLS x) \<noteq> CertFile (relay_TLS y) then [''tls.cert_file''] else []) @
            (if KeyFile (relay_TLS x) \<noteq> KeyFile (relay_TLS y) then [''tls.key_file''] else []) @
            (if CAFile (relay_TLS x) \<noteq> CAFile (relay_TLS y) then [''tls.ca_file''] else []) @
            (if ClientCAFile (relay_TLS x) \<noteq> ClientCAFile (relay_TLS y) then [''tls.client_ca_file''] else []) @
            (if sc_ListenAddr (Server x) \<noteq> sc_ListenAddr (Server y) then [''server.listen_addr''] else []) @
            (if sc_AgentListenAddr (Server x) \<noteq> sc_AgentListenAddr (Server y) then [''server.agent_listen_addr''] else []))
      | _ \<Rightarrow> [])"

text \<open>The names joined are plain, so their JSON text needs no escapes.\<close>
definition joinSortedStrings :: "string list \<Rightarrow> string" where
  "joinSortedStrings s =
     ''['' @ goJoin (CHR '','') (map (\<lambda>x. CHR 0x22 # x @ [CHR 0x22]) (sort s)) @ '']''"

section \<open>Applying the differences\<close>

definition reload_addPort ::
  "(int \<Rightarrow> bool) \<Rightarrow> 'l AdminServer \<times> ReloadSummary \<Rightarrow> int \<Rightarrow> PortIndexEntry \<Rightarrow> 'l AdminServer \<times> ReloadSummary" where
  "reload_addPort bind st port entry =
     (let (a, summary) = st;
          rt1 = AddPortMapping (adm_router a) (pie_CustomerID entry) port (pie_Service entry) (pie_ListenAddr entry)
                  (pie_MaxStreams entry)
      in (case StartPort (adm_clients a) (hostPort (pie_ListenAddr entry) port) port (bind port) of
            (Some _, _) \<Rightarrow> (a\<lparr>adm_router := snd (RemovePortMapping rt1 (pie_CustomerID entry) port)\<rparr>, summary)
          | (None, cl) \<Rightarrow>
              (a\<lparr>adm_router := rt1, adm_clients := cl\<rparr>, summary\<lparr>PortsAdded := PortsAdded summary + 1\<rparr>)))"

definition reload_removePort ::
  "'l AdminServer \<times> ReloadSummary \<Rightarrow> int \<Rightarrow> PortIndexEntry \<Rightarrow> 'l AdminServer \<times> ReloadSummary" where
  "reload_removePort st port entry =
     (let (a, summary) = st in
      (case RemovePortMapping (adm_router a) (pie_CustomerID entry) port of
         (Some _, _) \<Rightarrow> (a, summary)
       | (None, rt) \<Rightarrow>
           (a\<lparr>adm_router := rt, adm_clients := snd (StopPort (adm_clients a) port)\<rparr>,
            summary\<lparr>PortsRemoved := PortsRemoved summary + 1\<rparr>)))"

definition updatePortReload ::
  "'l AdminServer \<times> ReloadSummary \<Rightarrow> int \<Rightarrow> PortIndexEntry \<Rightarrow> 'l AdminServer \<times> ReloadSummary" where
  "updatePortReload st port entry =
     (let (a, summary) = st in
      (case UpdatePortMapping (adm_router a) port (pie_Service entry) (pie_ListenAddr entry) (pie_MaxStreams entry) of
         (Some _, _) \<Rightarrow> (a, summary)
       | (None, rt) \<Rightarrow> (a\<lparr>adm_router := rt\<rparr>, summary\<lparr>PortsUpdated := PortsUpdated summary + 1\<rparr>)))"

definition rejectCustomerChange :: "'l AdminServer \<times> ReloadSummary \<Rightarrow> 'l AdminServer \<times> ReloadSummary" where
  "rejectCustomerChange st = (fst st, (snd st)\<lparr>PortsRejected := PortsRejected (snd st) + 1\<rparr>)"

text \<open>One iteration of the loop over the new ports and of the loop over the old ones.\<close>
definition reload_new ::
  "(int \<Rightarrow> bool) \<Rightarrow> PortIndex \<Rightarrow> 'l AdminServer \<times> ReloadSummary \<Rightarrow> int \<times> PortIndexEntry \<Rightarrow> 'l AdminServer \<times> ReloadSummary" where
  "reload_new bind oldIdx st pe =
     (case map_of oldIdx (fst pe) of
        None \<Rightarrow> reload_addPort bind st (fst pe) (snd pe)
      | Some oldEntry \<Rightarrow>
          if pie_CustomerID oldEntry \<noteq> pie_CustomerID (snd pe) then rejectCustomerChange st
          else if portMutableFieldsDiffer oldEntry (snd pe) then updatePortReload st (fst pe) (snd pe)
          else st)"

definition reload_old ::
  "PortIndex \<Rightarrow> 'l AdminServer \<times> ReloadSummary \<Rightarrow> int \<times> PortIndexEntry \<Rightarrow> 'l AdminServer \<times> ReloadSummary" where
  "reload_old newIdx st pe =
     (case map_of newIdx (fst pe) of
        None \<Rightarrow> reload_removePort st (fst pe) (snd pe)
      | Some _ \<Rightarrow> st)"

definition applyRateLimitChanges ::
  "'l ClientListener \<Rightarrow> RelayConfig option \<Rightarrow> RelayConfig option \<Rightarrow> int \<times> 'l ClientListener" where
  "applyRateLimitChanges cl oldCfg newCfg =
     foldl (\<lambda>(changed, cl) (customerID, newLim).
        if (case map_of (rateLimits oldCfg) customerID of Some oldLim \<Rightarrow> rateLimitEqual oldLim newLim | None \<Rightarrow> False)
        then (changed, cl)
        else if RequestsPerSecond newLim > 0
        then (changed + 1, SetRateLimiter cl customerID (RequestsPerSecond newLim) (Burst newLim))
        else (changed, cl)) (0, cl) (rateLimits newCfg)"

definition applyReload ::
  "(int \<Rightarrow> bool) \<Rightarrow> 'l AdminServer \<Rightarrow> RelayConfig option \<Rightarrow> RelayConfig option \<Rightarrow> 'l AdminServer \<times> ReloadSummary" where
  "applyReload bind a oldCfg newCfg =
     (let oldIdx = indexPorts oldCfg; newIdx = indexPorts newCfg;
          zero = \<lparr>PortsAdded = 0, PortsRemoved = 0, PortsUpdated = 0, PortsRejected = 0, RateLimitsChanged = 0,
                  RestartRequired = []\<rparr>;
          st1 = foldl (reload_new bind oldIdx) (a, zero) newIdx;
          (a2, sum2) = foldl (reload_old newIdx) st1 oldIdx;
          (n, cl) = applyRateLimitChanges (adm_clients a2) oldCfg newCfg
      in (a2\<lparr>adm_clients := cl\<rparr>, sum2\<lparr>RateLimitsChanged := n, RestartRequired := diffRestartRequired oldCfg newCfg\<rparr>))"

definition emitReloadAudit :: "'l AdminServer \<Rightarrow> admin_env \<Rightarrow> ReloadSummary \<Rightarrow> 'l AdminServer" where
  "emitReloadAudit a env summary =
     adminAudit a env ActionAdminReload (adm_configPath a) []
       [(''ports_added'', showInt (PortsAdded summary)), (''ports_removed'', showInt (PortsRemoved summary)),
        (''ports_updated'', showInt (PortsUpdated summary)), (''ports_rejected'', showInt (PortsRejected summary)),
        (''rate_limits_changed'', showInt (RateLimitsChanged summary)),
        (''restart_required'', if RestartRequired summary \<noteq> [] then joinSortedStrings (RestartRequired summary) else [])]"

datatype reload_error = ErrNoConfigPath | ErrReloadLoad config_error | ErrReloadConflict index_error

text \<open>\<^verbatim>\<open>Reload\<close>, holding its lock throughout; \<open>load\<close> is the loader on the file system of the moment.\<close>
definition Reload ::
  "(string \<Rightarrow> config_error + RelayConfig) \<Rightarrow> 'l AdminServer \<Rightarrow> admin_env \<Rightarrow>
   (reload_error + ReloadSummary) \<times> 'l AdminServer" where
  "Reload load a env =
     (if adm_configPath a = [] then (Inl ErrNoConfigPath, a)
      else
        (case load (adm_configPath a) of
           Inl e \<Rightarrow> (Inl (ErrReloadLoad e), a)
         | Inr newCfg \<Rightarrow>
             (case BuildPortIndex (Customers newCfg) of
                Inl e \<Rightarrow> (Inl (ErrReloadConflict e), a)
              | Inr _ \<Rightarrow>
                  let (a1, summary) = applyReload (env_bind env) a (adm_currentCfg a) (Some newCfg);
                      a2 = persistPorts (a1\<lparr>adm_currentCfg := Some newCfg\<rparr>) env
                  in (Inr summary, emitReloadAudit a2 env summary))))"

definition summaryJson :: "ReloadSummary \<Rightarrow> json" where
  "summaryJson s =
     JObj [(''ports_added'', JInt (PortsAdded s)), (''ports_removed'', JInt (PortsRemoved s)),
           (''ports_updated'', JInt (PortsUpdated s)), (''ports_rejected'', JInt (PortsRejected s)),
           (''rate_limits_changed'', JInt (RateLimitsChanged s)), (''restart_required'', JArr (map JStr (RestartRequired s)))]"

definition handleReload ::
  "(string \<Rightarrow> config_error + RelayConfig) \<Rightarrow> 'l AdminServer \<Rightarrow> admin_env \<Rightarrow> string \<Rightarrow> http_response \<times> 'l AdminServer" where
  "handleReload load a env meth =
     (if meth \<noteq> ''POST'' then (methodNotAllowed, a)
      else
        (case Reload load a env of
           (Inl _, a') \<Rightarrow> (writeError [] 422, a')
         | (Inr summary, a') \<Rightarrow> (writeJSON (summaryJson summary), a')))"

text \<open>\<open>cfgJson\<close> encodes a configuration, or the zero value when there is none.\<close>
definition handleConfig :: "(RelayConfig option \<Rightarrow> json) \<Rightarrow> 'l AdminServer \<Rightarrow> string \<Rightarrow> http_response" where
  "handleConfig cfgJson a meth =
     (if meth \<noteq> ''GET'' then methodNotAllowed else writeJSON (cfgJson (adm_currentCfg a)))"

section \<open>The effect on the port table\<close>

lemma foldl_pointwise:
  assumes "\<And>st pe q. row (f st pe) q = (if q = fst pe then g (fst pe) (snd pe) (row st q) else row st q)"
    and "distinct (map fst xs)"
  shows "row (foldl f st xs) q = (case map_of xs q of None \<Rightarrow> row st q | Some e \<Rightarrow> g q e (row st q))"
  using assms(2)
proof (induction xs arbitrary: st)
  case (Cons pe xs)
  have "map_of xs (fst pe) = None" using Cons.prems by (simp add: map_of_eq_None_iff)
  then show ?case using Cons assms(1) [of st pe q] by (cases pe) (auto split: option.splits)
qed simp

text \<open>What one port's row becomes when the new entry is processed, and then the old one.\<close>
definition newRow :: "(int \<Rightarrow> bool) \<Rightarrow> PortIndex \<Rightarrow> int \<Rightarrow> PortIndexEntry \<Rightarrow> portEntry option \<Rightarrow> portEntry option" where
  "newRow bind oldIdx q e r =
     (case map_of oldIdx q of
        None \<Rightarrow> if bind q then Some (entryOf e) else None
      | Some x \<Rightarrow>
          if pie_CustomerID x \<noteq> pie_CustomerID e \<or> \<not> portMutableFieldsDiffer x e then r
          else map_option (\<lambda>y. (entryOf e)\<lparr>pe_customerID := pe_customerID y\<rparr>) r)"

definition oldRow :: "PortIndex \<Rightarrow> int \<Rightarrow> PortIndexEntry \<Rightarrow> portEntry option \<Rightarrow> portEntry option" where
  "oldRow newIdx q e r =
     (if map_of newIdx q = None \<and> map_option pe_customerID r = Some (pie_CustomerID e) then None else r)"

abbreviation rowOf :: "'l AdminServer \<times> ReloadSummary \<Rightarrow> int \<Rightarrow> portEntry option" where
  "rowOf st q \<equiv> map_of (portMap (adm_router (fst st))) q"

lemma reload_new_row:
  "rowOf (reload_new bind oldIdx st pe) q =
     (if q = fst pe then newRow bind oldIdx (fst pe) (snd pe) (rowOf st q) else rowOf st q)"
  by (cases st) (auto simp: reload_new_def newRow_def reload_addPort_def rejectCustomerChange_def updatePortReload_def
      StartPort_def Let_def AddPortMapping_def RemovePortMapping_def UpdatePortMapping_def entryOf_def alist_maps
      split: option.splits)

lemma reload_old_row:
  "rowOf (reload_old newIdx st pe) q =
     (if q = fst pe then oldRow newIdx (fst pe) (snd pe) (rowOf st q) else rowOf st q)"
  by (cases st) (auto simp: reload_old_def oldRow_def reload_removePort_def Let_def RemovePortMapping_def alist_maps
      split: option.splits)

lemma distinct_foldl_update:
  "distinct (map fst out) \<Longrightarrow> distinct (map fst (foldl (\<lambda>out x. AList.update (k x) (v x) out) out xs))"
  by (induction xs arbitrary: out) (simp_all add: distinct_update)

lemma distinct_indexPorts: "distinct (map fst (indexPorts cfg))"
proof -
  have "distinct (map fst out) \<Longrightarrow> distinct (map fst (foldl (\<lambda>out cust.
      foldl (\<lambda>out p. AList.update (pc_Port p) (portIndexEntry cust p) out) out (cc_Ports cust)) out cs))" for out cs
    by (induction cs arbitrary: out) (simp_all add: distinct_foldl_update)
  then show ?thesis by (auto simp: indexPorts_def split: option.splits)
qed

lemmas reload_rows =
  foldl_pointwise [of rowOf "reload_old _", OF reload_old_row distinct_indexPorts]
  foldl_pointwise [of rowOf "reload_new _ _", OF reload_new_row distinct_indexPorts]

text \<open>The table after a reload, row by row.\<close>
lemma applyReload_row:
  "map_of (portMap (adm_router (fst (applyReload bind a oldCfg newCfg)))) q =
     (let r1 = (case map_of (indexPorts newCfg) q of
                  None \<Rightarrow> map_of (portMap (adm_router a)) q
                | Some e \<Rightarrow> newRow bind (indexPorts oldCfg) q e (map_of (portMap (adm_router a)) q))
      in (case map_of (indexPorts oldCfg) q of None \<Rightarrow> r1 | Some e \<Rightarrow> oldRow (indexPorts newCfg) q e r1))"
proof -
  let ?zero = "\<lparr>PortsAdded = 0, PortsRemoved = 0, PortsUpdated = 0, PortsRejected = 0, RateLimitsChanged = 0,
    RestartRequired = []\<rparr>"
  have "adm_router (fst (applyReload bind a oldCfg newCfg)) =
    adm_router (fst (foldl (reload_old (indexPorts newCfg))
      (foldl (reload_new bind (indexPorts oldCfg)) (a, ?zero) (indexPorts newCfg)) (indexPorts oldCfg)))"
    by (simp add: applyReload_def Let_def split: prod.splits)
  then show ?thesis unfolding Let_def by (simp only: reload_rows fst_conv)
qed

section \<open>Reload and boot agree\<close>

lemma addPortEntries_update:
  "addPortEntries c ps idx = Inr idx' \<Longrightarrow>
   foldl (\<lambda>out p. AList.update (pc_Port p) (portIndexEntry c p) out) idx ps = idx'"
  by (induction ps arbitrary: idx) (auto split: option.splits)

lemma indexPorts_BuildPortIndex:
  assumes "BuildPortIndex (Customers cfg) = Inr idx" shows "indexPorts (Some cfg) = idx"
proof -
  have "addCustomerEntries cs out = Inr idx \<Longrightarrow> foldl (\<lambda>out cust.
      foldl (\<lambda>out p. AList.update (pc_Port p) (portIndexEntry cust p) out) out (cc_Ports cust)) out cs = idx" for cs out
    by (induction cs arbitrary: out) (auto dest: addPortEntries_update split: sum.splits)
  then show ?thesis using assms by (simp add: indexPorts_def BuildPortIndex_def)
qed

lemma Reload_Inr:
  assumes "Reload load a env = (Inr summary, a')"
  obtains cfg idx where "load (adm_configPath a) = Inr cfg" "BuildPortIndex (Customers cfg) = Inr idx"
    "adm_configPath a \<noteq> []" "applyReload (env_bind env) a (adm_currentCfg a) (Some cfg) =
      (fst (applyReload (env_bind env) a (adm_currentCfg a) (Some cfg)), summary)"
    "a' = emitReloadAudit (persistPorts ((fst (applyReload (env_bind env) a (adm_currentCfg a) (Some cfg)))
      \<lparr>adm_currentCfg := Some cfg\<rparr>) env) env summary"
  using assms by (auto simp: Reload_def Let_def case_prod_beta split: if_splits sum.splits)

lemma Reload_Inl: "Reload load a env = (Inl e, a') \<Longrightarrow> a' = a"
  by (auto simp: Reload_def Let_def case_prod_beta split: if_splits sum.splits)

text \<open>A row that mirrors the old configuration comes to mirror the new one.\<close>
lemma reload_row_converges:
  assumes "r = map_option entryOf (map_of oldIdx q)" "bind q"
    "\<And>x y. map_of oldIdx q = Some x \<Longrightarrow> map_of newIdx q = Some y \<Longrightarrow> pie_CustomerID x = pie_CustomerID y"
  shows "(let r1 = (case map_of newIdx q of None \<Rightarrow> r | Some e \<Rightarrow> newRow bind oldIdx q e r)
      in (case map_of oldIdx q of None \<Rightarrow> r1 | Some e \<Rightarrow> oldRow newIdx q e r1)) = map_option entryOf (map_of newIdx q)"
proof (cases "map_of newIdx q")
  case None
  then show ?thesis using assms(1) by (cases "map_of oldIdx q") (simp_all add: oldRow_def entryOf_def)
next
  case (Some y)
  show ?thesis
  proof (cases "map_of oldIdx q")
    case None
    then show ?thesis using Some assms(2) by (simp add: newRow_def)
  next
    fix x
    assume x: "map_of oldIdx q = Some x"
    have "pie_CustomerID x = pie_CustomerID y" using assms(3) [OF x Some] .
    then have "newRow bind oldIdx q y (Some (entryOf x)) = Some (entryOf y)"
      using x by (auto simp: newRow_def entryOf_def portMutableFieldsDiffer_def)
    then show ?thesis using Some x assms(1) by (simp add: oldRow_def)
  qed
qed

lemma emitReload_router [simp]:
  "adm_router (emitReloadAudit a env s) = adm_router a" "adm_store (emitReloadAudit a env s) = adm_store a"
  "adm_currentCfg (emitReloadAudit a env s) = adm_currentCfg a" "adm_disk (emitReloadAudit a env s) = adm_disk a"
  by (simp_all add: emitReloadAudit_def adminAudit_def)

lemma persistPorts_cfg [simp]: "adm_currentCfg (persistPorts a env) = adm_currentCfg a"
  by (simp add: persistPorts_def split: option.splits)

text \<open>C13. When the router holds exactly the current configuration, every new port can be bound and no
  port changes its customer, a reload leaves the router exactly as if the relay had been started
  on the new configuration; and a reload that reports an error has changed nothing.\<close>
theorem reload_converges:
  assumes "\<forall>p. map_of (portMap (adm_router a)) p = map_option entryOf (map_of (indexPorts (adm_currentCfg a)) p)"
    "\<forall>p. env_bind env p"
    "\<forall>cfg p x y. load (adm_configPath a) = Inr cfg \<and> map_of (indexPorts (adm_currentCfg a)) p = Some x \<and>
       map_of (indexPorts (Some cfg)) p = Some y \<longrightarrow> pie_CustomerID x = pie_CustomerID y"
  shows "case Reload load a env of
     (Inl e, a') \<Rightarrow> a' = a
   | (Inr summary, a') \<Rightarrow> \<exists>cfg idx. adm_currentCfg a' = Some cfg \<and> BuildPortIndex (Customers cfg) = Inr idx \<and>
       (\<forall>p. map_of (portMap (adm_router a')) p = map_of (portMap (foldl mapEntry NewPortRouter idx)) p)"
proof -
  obtain res a' where res: "Reload load a env = (res, a')" by fastforce
  show ?thesis
  proof (cases res)
    case (Inl e)
    then show ?thesis using Reload_Inl [of load a env] res by simp
  next
    case (Inr summary)
    then have "Reload load a env = (Inr summary, a')" using res by simp
    then obtain cfg idx where c: "load (adm_configPath a) = Inr cfg" "BuildPortIndex (Customers cfg) = Inr idx"
      "a' = emitReloadAudit (persistPorts ((fst (applyReload (env_bind env) a (adm_currentCfg a) (Some cfg)))
        \<lparr>adm_currentCfg := Some cfg\<rparr>) env) env summary"
      by (rule Reload_Inr)
    have idx: "indexPorts (Some cfg) = idx" using c(2) by (rule indexPorts_BuildPortIndex)
    then have d: "distinct (map fst idx)" using distinct_indexPorts by metis
    have "map_of (portMap (adm_router a')) p = map_option entryOf (map_of idx p)" for p
    proof -
      have "map_of (portMap (adm_router a')) p =
        map_of (portMap (adm_router (fst (applyReload (env_bind env) a (adm_currentCfg a) (Some cfg))))) p"
        by (simp add: c(3))
      also have "\<dots> = map_option entryOf (map_of idx p)"
        unfolding applyReload_row idx
        using assms c(1) unfolding idx [symmetric] by (intro reload_row_converges) blast+
      finally show ?thesis .
    qed
    moreover have "map_of (portMap (foldl mapEntry NewPortRouter idx)) p = map_option entryOf (map_of idx p)" for p
      using mapEntry_foldl [OF d, of NewPortRouter p] by (simp add: NewPortRouter_def split: option.splits)
    moreover have "adm_currentCfg a' = Some cfg" by (simp add: c(3))
    ultimately show ?thesis using res Inr c(2) by auto
  qed
qed

text \<open>A configuration with one port for each listed customer.\<close>
definition portsConfig :: "(string \<times> int \<times> string) list \<Rightarrow> RelayConfig" where
  "portsConfig cs = exampleRelayConfig\<lparr>Customers := map (\<lambda>(k, p, sv).
     \<lparr>cc_ID = k, cc_Ports = [\<lparr>pc_Port = p, pc_Service = sv, pc_Description = [], pc_ListenAddr = []\<rparr>],
      cc_MaxConnections = 0, cc_MaxStreams = 5, cc_MaxBandwidthMbps = 0,
      cc_RateLimit = \<lparr>RequestsPerSecond = 0, Burst = 0\<rparr>\<rparr>) cs\<rparr>"

text \<open>A relay serving customer-1 on port 9000, with that configuration current.\<close>
definition reloadAdmin :: "bool AdminServer" where
  "reloadAdmin = exampleAdmin\<lparr>adm_configPath := ''relay.yaml'',
     adm_currentCfg := Some (portsConfig [(''customer-1'', 9000, ''smb'')]),
     adm_router := foldl mapEntry NewPortRouter (indexPorts (Some (portsConfig [(''customer-1'', 9000, ''smb'')])))\<rparr>"

lemmas reload_defs = portsConfig_def reloadAdmin_def indexPorts_def BuildPortIndex_def portIndexEntry_def
  mapEntry_def NewPortRouter_def AddPortMapping_def

theorem reload_converges_witness:
  "\<exists>summary a'. Reload (\<lambda>_. Inr (portsConfig [(''customer-1'', 9000, ''db''), (''customer-2'', 9001, ''http'')]))
      reloadAdmin (exampleEnv (\<lambda>_. True)) = (Inr summary, a') \<and>
     LookupPort (adm_router a') 9000 = Some (''customer-1'', ''db'') \<and>
     LookupPort (adm_router a') 9001 = Some (''customer-2'', ''http'')"
proof -
  let ?new = "portsConfig [(''customer-1'', 9000, ''db''), (''customer-2'', 9001, ''http'')]"
  let ?env = "exampleEnv (\<lambda>_. True)"
  obtain idx where b: "BuildPortIndex (Customers ?new) = Inr idx" by (simp add: reload_defs)
  obtain summary a' where r: "Reload (\<lambda>_. Inr ?new) reloadAdmin ?env = (Inr summary, a')"
    using b by (auto simp: Reload_def Let_def reloadAdmin_def case_prod_beta)
  have cur: "adm_currentCfg reloadAdmin = Some (portsConfig [(''customer-1'', 9000, ''smb'')])"
    by (simp add: reloadAdmin_def)
  have h1: "\<forall>p. map_of (portMap (adm_router reloadAdmin)) p =
      map_option entryOf (map_of (indexPorts (adm_currentCfg reloadAdmin)) p)"
    unfolding cur by (simp add: reload_defs entryOf_def)
  have h3: "\<forall>cfg p x y. (\<lambda>_. Inr ?new) (adm_configPath reloadAdmin) = Inr cfg \<and>
      map_of (indexPorts (adm_currentCfg reloadAdmin)) p = Some x \<and>
      map_of (indexPorts (Some cfg)) p = Some y \<longrightarrow> pie_CustomerID x = pie_CustomerID y"
    unfolding cur by (auto simp: reload_defs split: if_splits)
  have "\<forall>p. env_bind ?env p" by (simp add: exampleEnv_def)
  from reload_converges [OF h1 this h3] r obtain cfg idx' where c: "adm_currentCfg a' = Some cfg"
    "BuildPortIndex (Customers cfg) = Inr idx'"
    "\<forall>p. map_of (portMap (adm_router a')) p = map_of (portMap (foldl mapEntry NewPortRouter idx')) p"
    by auto
  have "cfg = ?new" using r c(1) by (auto elim!: Reload_Inr)
  then have "idx' = indexPorts (Some ?new)" using c(2) indexPorts_BuildPortIndex by metis
  then show ?thesis using r c(3)
    by (intro exI [of _ summary] exI [of _ a']) (simp add: LookupPort_def reload_defs)
qed



lemma onePort:
  "indexPorts (Some (portsConfig [(k, p, sv)])) = [(p, \<lparr>pie_CustomerID = k, pie_Service = sv, pie_MaxStreams = 5,
     pie_ListenAddr = ''0.0.0.0'', pie_RateLimit = \<lparr>RequestsPerSecond = 0, Burst = 0\<rparr>\<rparr>)]"
  "BuildPortIndex (Customers (portsConfig [(k, p, sv)])) = Inr (indexPorts (Some (portsConfig [(k, p, sv)])))"
  by (simp_all add: reload_defs)

text \<open>The part of the server the port loops leave alone.\<close>
definition fixedPart :: "'l AdminServer \<Rightarrow> string \<times> string option \<times> disk" where
  "fixedPart a = (adm_configPath a, adm_store a, adm_disk a)"

lemma fixedPart_new: "fixedPart (fst (reload_new b i st pe)) = fixedPart (fst st)"
  by (cases st) (auto simp: fixedPart_def reload_new_def reload_addPort_def rejectCustomerChange_def updatePortReload_def
      Let_def split: option.splits prod.splits)

lemma fixedPart_old: "fixedPart (fst (reload_old i st pe)) = fixedPart (fst st)"
  by (cases st) (auto simp: fixedPart_def reload_old_def reload_removePort_def Let_def split: option.splits prod.splits)

lemma fixedPart_foldl:
  "fixedPart (fst (foldl (reload_new b i) st xs)) = fixedPart (fst st)"
  "fixedPart (fst (foldl (reload_old i) st xs)) = fixedPart (fst st)"
  by (induction xs arbitrary: st) (simp_all add: fixedPart_new fixedPart_old)

lemma fixedPart_applyReload: "fixedPart (fst (applyReload bind a oldCfg newCfg)) = fixedPart a"
proof -
  let ?st = "foldl (reload_old (indexPorts newCfg)) (foldl (reload_new bind (indexPorts oldCfg))
    (a, \<lparr>PortsAdded = 0, PortsRemoved = 0, PortsUpdated = 0, PortsRejected = 0, RateLimitsChanged = 0,
      RestartRequired = []\<rparr>) (indexPorts newCfg)) (indexPorts oldCfg)"
  have "fixedPart (fst (applyReload bind a oldCfg newCfg)) = fixedPart (fst ?st)"
    by (simp add: applyReload_def Let_def case_prod_beta fixedPart_def)
  then show ?thesis by (simp add: fixedPart_foldl)
qed

lemmas reload_keeps_fields = fixedPart_applyReload [unfolded fixedPart_def prod.inject, THEN conjunct1]
  fixedPart_applyReload [unfolded fixedPart_def prod.inject, THEN conjunct2, THEN conjunct1]
  fixedPart_applyReload [unfolded fixedPart_def prod.inject, THEN conjunct2, THEN conjunct2]

lemma Reload_state:
  assumes "adm_configPath a \<noteq> []" "load (adm_configPath a) = Inr cfg" "BuildPortIndex (Customers cfg) = Inr idx"
  shows "adm_configPath (snd (Reload load a env)) = adm_configPath a"
    "adm_currentCfg (snd (Reload load a env)) = Some cfg"
    "adm_router (snd (Reload load a env)) = adm_router (fst (applyReload (env_bind env) a (adm_currentCfg a) (Some cfg)))"
  using assms
  by (simp_all add: Reload_def Let_def case_prod_beta emitReloadAudit_def adminAudit_def persistPorts_def
      reload_keeps_fields split: option.splits)

text \<open>A rejected change of customer is not applied, yet the rejected configuration becomes the
  current one. From then on the port escapes reloading: when it disappears from the
  configuration it is never removed, and an edit of the customer that was refused the port
  changes the service of the customer that has it.\<close>
theorem rejected_reload_drifts:
  "let env = exampleEnv (\<lambda>_. True);
       reload = (\<lambda>a cfg. snd (Reload (\<lambda>_. Inr cfg) a env));
       a1 = reload reloadAdmin (portsConfig [(''customer-2'', 9000, ''db'')])
   in LookupPort (adm_router a1) 9000 = Some (''customer-1'', ''smb'') \<and>
      LookupPort (adm_router (reload a1 (portsConfig [(''customer-2'', 9001, ''db'')]))) 9000 = Some (''customer-1'', ''smb'') \<and>
      LookupPort (adm_router (reload a1 (portsConfig [(''customer-2'', 9000, ''ssh'')]))) 9000 = Some (''customer-1'', ''ssh'')"
proof -
  let ?env = "exampleEnv (\<lambda>_. True)"
  let ?reload = "\<lambda>c a. snd (Reload (\<lambda>_. Inr (portsConfig [c])) a ?env)"
  let ?a1 = "?reload (''customer-2'', 9000, ''db'') reloadAdmin"
  have row: "map_of (portMap (adm_router (?reload (k, p, sv) a))) q =
      (let newIdx = indexPorts (Some (portsConfig [(k, p, sv)])); oldIdx = indexPorts (adm_currentCfg a);
           r1 = (case map_of newIdx q of None \<Rightarrow> map_of (portMap (adm_router a)) q
                | Some e \<Rightarrow> newRow (\<lambda>_. True) oldIdx q e (map_of (portMap (adm_router a)) q))
       in (case map_of oldIdx q of None \<Rightarrow> r1 | Some e \<Rightarrow> oldRow newIdx q e r1))"
    if "adm_configPath a \<noteq> []" for k p sv q and a :: "bool AdminServer"
    using that Reload_state(3) [OF that _ onePort(2)] by (simp add: applyReload_row exampleEnv_def Let_def)
  have a0: "adm_configPath reloadAdmin \<noteq> []"
    "adm_currentCfg reloadAdmin = Some (portsConfig [(''customer-1'', 9000, ''smb'')])"
    "map_of (portMap (adm_router reloadAdmin)) 9000 = Some \<lparr>pe_customerID = ''customer-1'', pe_service = ''smb'',
      pe_maxStreams = 5, pe_listenAddr = ''0.0.0.0''\<rparr>"
    by (simp_all add: reload_defs)
  have a1: "adm_configPath ?a1 \<noteq> []" "adm_currentCfg ?a1 = Some (portsConfig [(''customer-2'', 9000, ''db'')])"
    using a0(1) Reload_state(1,2) [OF a0(1) refl onePort(2)] by simp_all
  have r1: "map_of (portMap (adm_router ?a1)) 9000 = map_of (portMap (adm_router reloadAdmin)) 9000"
    using row [OF a0(1)] a0 by (simp add: onePort newRow_def oldRow_def)
  show ?thesis
    using a0(3) r1 row [OF a1(1)] a1(2)
    by (simp add: LookupPort_def onePort newRow_def oldRow_def entryOf_def portMutableFieldsDiffer_def)
qed

end
