(* ===== verification/Admin_Server.thy ===== *)
theory Admin_Server
  imports Admin_Reload
begin

text \<open>
  The admin server as a whole: its construction and request dispatch
  (\<^verbatim>\<open>src/pkg/relay/admin.go\<close>, \<^verbatim>\<open>NewAdminServer\<close>) and what every sequence of requests keeps.  Paths are
  taken in the clean form the standard library's multiplexer hands to the handlers.
\<close>

text \<open>What the server gets from outside the sources: time and number formatting, files and
  certificates, the configuration's JSON form, the loader and the Prometheus page.\<close>
record admin_io =
  io_rfc3339 :: "int \<Rightarrow> string"
  io_secs :: "int \<Rightarrow> json"
  io_readFile :: "string \<Rightarrow> bytes option"
  io_pemBlock :: "bytes \<Rightarrow> (string \<times> bytes) option"
  io_parseCert :: "bytes \<Rightarrow> int option"
  io_cfgJson :: "RelayConfig option \<Rightarrow> json"
  io_load :: "string \<Rightarrow> config_error + RelayConfig"
  io_metrics :: http_response

definition NewAdminServer ::
  "string \<Rightarrow> string \<Rightarrow> MemoryRegistry \<Rightarrow> PortRouter \<Rightarrow> 'l ClientListener \<Rightarrow> bool \<Rightarrow> string option \<Rightarrow> disk \<Rightarrow>
   (string \<times> string) list \<Rightarrow> string \<Rightarrow> string \<Rightarrow> RelayConfig option \<Rightarrow> int \<Rightarrow> 'l AdminServer" where
  "NewAdminServer addr socketPath registry router clients hasEmitter store files certPaths version configPath initial now =
     \<lparr>adm_registry = registry, adm_router = router, adm_clients = clients,
      adm_emitter = (if hasEmitter then Some [] else None), adm_store = store, adm_disk = files,
      adm_socketPath = socketPath, adm_addr = addr, adm_startTime = now, adm_certPaths = certPaths,
      adm_version = version, adm_configPath = configPath, adm_currentCfg = initial\<rparr>"

definition adminServe :: "admin_io \<Rightarrow> 'l AdminServer \<Rightarrow> admin_env \<Rightarrow> http_request \<Rightarrow> http_response \<times> 'l AdminServer" where
  "adminServe io a env r =
     (let path = rq_path r in
      if path = ''/healthz'' then (handleHealth a, a)
      else if path = ''/readyz'' then (handleReady a, a)
      else if path = ''/metrics'' then (io_metrics io, a)
      else if path = ''/ports'' then handlePorts a env r
      else if hasPrefix path ''/ports/'' then handlePortByID a env r
      else if path = ''/agents'' then (handleAgents (io_rfc3339 io) a r, a)
      else if hasPrefix path ''/agents/'' then handleAgentByID (io_rfc3339 io) a env r
      else if path = ''/stats'' then (handleStats (io_secs io) a env (rq_method r), a)
      else if path = ''/status'' then
        (handleStatus (io_rfc3339 io) (io_secs io) (io_readFile io) (io_pemBlock io) (io_parseCert io) a env (rq_method r), a)
      else if path = ''/config'' then (handleConfig (io_cfgJson io) a (rq_method r), a)
      else if path = ''/reload'' then handleReload (io_load io) a env (rq_method r)
      else (httpError ''404 page not found'' 404, a))"

definition admin_run :: "admin_io \<Rightarrow> 'l AdminServer \<Rightarrow> (admin_env \<times> http_request) list \<Rightarrow> 'l AdminServer" where
  "admin_run io a rs = foldl (\<lambda>a (env, r). snd (adminServe io a env r)) a rs"

section \<open>Tenants\<close>

lemma tenantOf_deleteAgent [simp]: "tenantOf (snd (deleteAgent a env k)) p = tenantOf a p"
  by (simp add: deleteAgent_def tenantOf_def)

text \<open>C15. No request other than a creation or a reload moves a port to another customer: each port
  keeps its customer or is removed, so an update can change the service, address and limit of
  a port but never whose traffic it carries.\<close>
theorem tenant_binding_fixed:
  assumes "rq_path r \<noteq> ''/reload''" "rq_path r = ''/ports'' \<Longrightarrow> rq_method r \<noteq> ''POST''"
  shows "tenantOf (snd (adminServe io a env r)) p \<in> {None, tenantOf a p}"
  using assms handlePortByID_tenant [of a env r p]
  by (simp add: adminServe_def Let_def handlePorts_def handleAgentByID_def)

definition exampleIO :: admin_io where
  "exampleIO = \<lparr>io_rfc3339 = (\<lambda>_. []), io_secs = JInt, io_readFile = (\<lambda>_. None), io_pemBlock = (\<lambda>_. None),
     io_parseCert = (\<lambda>_. None), io_cfgJson = (\<lambda>_. JNull),
     io_load = (\<lambda>_. Inr (portsConfig [(''customer-1'', 9000, ''smb'')])), io_metrics = writeJSON JNull\<rparr>"

definition putRequest :: http_request where
  "putRequest = \<lparr>rq_method = ''PUT'', rq_path = ''/ports/9000'',
     rq_body = Some (JObj [(''customer_id'', JStr ''customer-2''), (''service'', JStr ''db'')])\<rparr>"

theorem tenant_binding_fixed_witness:
  "tenantOf exampleAdmin 9000 = Some ''customer-1'' \<and>
   tenantOf (snd (adminServe exampleIO exampleAdmin (exampleEnv (\<lambda>_. True)) putRequest)) 9000 \<in> {None, Some ''customer-1''}"
proof -
  have t: "tenantOf exampleAdmin 9000 = Some ''customer-1''"
    by (simp add: tenantOf_def LookupPort_def exampleAdmin_def exampleRouter_def NewPortRouter_def AddPortMapping_def)
  have "rq_path putRequest \<noteq> ''/reload''" "rq_path putRequest = ''/ports'' \<Longrightarrow> rq_method putRequest \<noteq> ''POST''"
    by (simp_all add: putRequest_def)
  from tenant_binding_fixed [OF this, of exampleIO exampleAdmin "exampleEnv (\<lambda>_. True)" 9000] t show ?thesis by simp
qed

section \<open>The sidecar\<close>

definition configRange :: "RelayConfig \<Rightarrow> bool" where
  "configRange cfg \<longleftrightarrow> (\<forall>c \<in> set (Customers cfg). int64 (cc_MaxStreams c) \<and> (\<forall>p \<in> set (cc_Ports c). int64 (pc_Port p)))"

definition indexRange :: "PortIndex \<Rightarrow> bool" where
  "indexRange idx \<longleftrightarrow> list_all (\<lambda>(p, e). int64 p \<and> int64 (pie_MaxStreams e)) idx"

lemma indexRange_update: "indexRange idx \<Longrightarrow> int64 p \<Longrightarrow> int64 (pie_MaxStreams e) \<Longrightarrow> indexRange (AList.update p e idx)"
  by (induction idx) (auto simp: indexRange_def)

lemma indexRange_indexPorts:
  assumes "configRange cfg" shows "indexRange (indexPorts (Some cfg))"
proof -
  have ports: "indexRange out \<Longrightarrow> int64 (cc_MaxStreams c) \<Longrightarrow> \<forall>p \<in> set ps. int64 (pc_Port p) \<Longrightarrow>
      indexRange (foldl (\<lambda>out p. AList.update (pc_Port p) (portIndexEntry c p) out) out ps)" for out c ps
    by (induction ps arbitrary: out) (simp_all add: indexRange_update portIndexEntry_def)
  have "indexRange out \<Longrightarrow> \<forall>c \<in> set cs. int64 (cc_MaxStreams c) \<and> (\<forall>p \<in> set (cc_Ports c). int64 (pc_Port p)) \<Longrightarrow>
      indexRange (foldl (\<lambda>out c. foldl (\<lambda>out p. AList.update (pc_Port p) (portIndexEntry c p) out) out (cc_Ports c)) out cs)"
    for out cs
    by (induction cs arbitrary: out) (simp_all add: ports)
  then show ?thesis using assms by (simp add: indexPorts_def configRange_def indexRange_def)
qed

lemma rangeOK_reload_new:
  assumes "rangeOK (adm_router (fst st))" "int64 p" "int64 (pie_MaxStreams e)"
  shows "rangeOK (adm_router (fst (reload_new bind oldIdx st (p, e))))"
proof -
  obtain a summary where st: "st = (a, summary)" by fastforce
  note up = rangeOK_update [of "adm_router a" p]
  have "rangeOK ((adm_router a)\<lparr>portMap := AList.delete p (AList.update p x (portMap (adm_router a)))\<rparr>)"
    if "int64 (pe_maxStreams x)" for x
    using rangeOK_delete [OF up, of x p] assms that st by simp
  then show ?thesis using assms up
    by (auto simp: st reload_new_def reload_addPort_def rejectCustomerChange_def updatePortReload_def Let_def StartPort_def
        AddPortMapping_def RemovePortMapping_def UpdatePortMapping_def alist_maps split: option.splits)
qed

lemma rangeOK_reload_old:
  assumes "rangeOK (adm_router (fst st))" shows "rangeOK (adm_router (fst (reload_old newIdx st pe)))"
  using assms by (cases st) (auto simp: reload_old_def reload_removePort_def Let_def RemovePortMapping_def rangeOK_delete
      split: option.splits prod.splits)

lemma rangeOK_applyReload:
  assumes "rangeOK (adm_router a)" "configRange cfg"
  shows "rangeOK (adm_router (fst (applyReload bind a oldCfg (Some cfg))))"
proof -
  have new: "rangeOK (adm_router (fst st)) \<Longrightarrow> indexRange idx \<Longrightarrow>
      rangeOK (adm_router (fst (foldl (reload_new bind oldIdx) st idx)))" for st :: "'a AdminServer \<times> ReloadSummary" and idx oldIdx
  proof (induction idx arbitrary: st)
    case (Cons pe idx)
    then have "rangeOK (adm_router (fst (reload_new bind oldIdx st pe)))" "indexRange idx"
      by (cases pe; simp add: indexRange_def rangeOK_reload_new)+
    then show ?case using Cons.IH by simp
  qed simp
  have old: "rangeOK (adm_router (fst st)) \<Longrightarrow> rangeOK (adm_router (fst (foldl (reload_old newIdx) st idx)))"
    for st :: "'a AdminServer \<times> ReloadSummary" and idx newIdx
    by (induction idx arbitrary: st) (simp_all add: rangeOK_reload_old)
  show ?thesis
    unfolding applyReload_def Let_def case_prod_beta
    using old [OF new [OF _ indexRange_indexPorts [OF assms(2)]]] assms(1) by simp
qed

lemma mirrored_Reload:
  fixes a :: "'l AdminServer"
  assumes "mirrored path a" "env_fault env = NoFault" "env_tmp env \<noteq> path"
    "\<And>p cfg. load p = Inr cfg \<Longrightarrow> configRange cfg"
  shows "mirrored path (snd (Reload load a env))"
proof (cases "fst (Reload load a env)")
  case (Inl e)
  then have "Reload load a env = (Inl e, snd (Reload load a env))" by (simp add: prod_eq_iff)
  from Reload_Inl [OF this] show ?thesis using assms(1) by simp
next
  case (Inr summary)
  then have "Reload load a env = (Inr summary, snd (Reload load a env))" by (simp add: prod_eq_iff)
  then obtain cfg where c: "load (adm_configPath a) = Inr cfg" "snd (Reload load a env) =
      emitReloadAudit (persistPorts ((fst (applyReload (env_bind env) a (adm_currentCfg a) (Some cfg)))
      \<lparr>adm_currentCfg := Some cfg\<rparr>) env) env summary"
    by (rule Reload_Inr)
  have "rangeOK (adm_router (fst (applyReload (env_bind env) a (adm_currentCfg a) (Some cfg))))"
    using assms(1) assms(4) [OF c(1)] by (intro rangeOK_applyReload) (simp_all add: mirrored_def)
  then show ?thesis unfolding c(2) emitReloadAudit_def mirrored_audit
    using assms(1-3) by (intro mirrored_persist) (simp_all add: mirrored_def reload_keeps_fields)
qed

text \<open>A request sequence without failing disk writes in which no creation is refused by the
  operating system for a port that is already mapped.\<close>
fun calm :: "admin_io \<Rightarrow> string \<Rightarrow> 'l AdminServer \<Rightarrow> (admin_env \<times> http_request) list \<Rightarrow> bool" where
  "calm io path a [] = True"
| "calm io path a ((env, r) # rs) \<longleftrightarrow>
     env_fault env = NoFault \<and> env_tmp env \<noteq> path \<and>
     (case decodeCreate (rq_body r) of
        Some req \<Rightarrow> env_bind env (pcr_Port req) \<or> LookupPort (adm_router a) (pcr_Port req) = None
      | None \<Rightarrow> True) \<and>
     calm io path (snd (adminServe io a env r)) rs"

lemma mirrored_serve:
  fixes a :: "'l AdminServer"
  assumes "mirrored path a" "calm io path a ((env, r) # rs)" "\<And>p cfg. io_load io p = Inr cfg \<Longrightarrow> configRange cfg"
  shows "mirrored path (snd (adminServe io a env r))"
proof -
  have env: "env_fault env = NoFault" "env_tmp env \<noteq> path" using assms(2) by simp_all
  have "LookupPort (adm_router a) (pcr_Port req) = None"
    if "decodeCreate (rq_body r) = Some req" "\<not> env_bind env (pcr_Port req)" for req
    using assms(2) that by simp
  then have "mirrored path (snd (createPort a env (rq_body r)))"
    using mirrored_createPort [OF assms(1) env, of "rq_body r"] by (cases "createPort a env (rq_body r)") auto
  then have ports: "mirrored path (snd (handlePorts a env r))" using assms(1) by (simp add: handlePorts_def)
  have byID: "mirrored path (snd (handlePortByID a env r))"
    using assms(1) mirrored_updatePort [OF assms(1) env] mirrored_deletePort [OF assms(1) env]
    by (simp add: handlePortByID_def split: option.splits)
  have "mirrored path (snd (deleteAgent a env k))" for k
    using assms(1) by (simp add: deleteAgent_def) (simp add: mirrored_def)
  then have agent: "mirrored path (snd (handleAgentByID (io_rfc3339 io) a env r))"
    using assms(1) by (simp add: handleAgentByID_def Let_def)
  have "mirrored path (snd (Reload (io_load io) a env))"
    using assms(1) env assms(3) by (rule mirrored_Reload)
  then have reload: "mirrored path (snd (handleReload (io_load io) a env (rq_method r)))"
    using assms(1) by (cases "Reload (io_load io) a env") (simp add: handleReload_def split: sum.splits)
  show ?thesis unfolding adminServe_def Let_def using assms(1) ports byID agent reload
    by (simp split del: if_split add: if_distrib [of snd] if_distrib [of "mirrored path"] cong: if_cong)
qed

lemma mirrored_run:
  assumes "mirrored path a" "calm io path a rs" "\<And>p cfg. io_load io p = Inr cfg \<Longrightarrow> configRange cfg"
  shows "mirrored path (admin_run io a rs)"
  using assms(1,2)
proof (induction rs arbitrary: a)
  case (Cons er rs)
  obtain env r where er: "er = (env, r)" by fastforce
  have "mirrored path (snd (adminServe io a env r))"
    using mirrored_serve [of path a io env r rs] Cons.prems assms(3) er by blast
  then show ?case using Cons.IH Cons.prems(2) er by (simp add: admin_run_def)
qed (simp add: admin_run_def)

text \<open>Once the sidecar file holds the router's ports it does so after every sequence of admin
  requests and reloads in which disk writes work and no creation fails for a port already
  mapped: loading it at the next start returns exactly the ports the router has.\<close>
theorem sidecar_mirrors_router:
  assumes "mirrored path a" "calm io path a rs" "\<forall>p cfg. io_load io p = Inr cfg \<longrightarrow> configRange cfg"
  shows "Sidecar_Load path True (adm_disk (admin_run io a rs)) =
    Inr \<lparr>sd_Version = sidecarVersion, sd_Ports = map sidecarPort (ListPorts (adm_router (admin_run io a rs)))\<rparr>"
  using mirrored_run [OF assms(1,2)] assms(3) by (simp add: mirrored_def)

definition storeAdmin :: "bool AdminServer" where
  "storeAdmin = NewAdminServer ''127.0.0.1:9090'' [] NewMemoryRegistry NewPortRouter NewClientListener True
     (Some ''ports.json'') [] [] ''dev'' [] None 0"

definition exampleRequests :: "(admin_env \<times> http_request) list" where
  "exampleRequests =
     [(exampleEnv (\<lambda>_. True), \<lparr>rq_method = ''POST'', rq_path = ''/ports'', rq_body = createBody 9000 ''customer-1'' ''smb''\<rparr>),
      (exampleEnv (\<lambda>_. False), \<lparr>rq_method = ''POST'', rq_path = ''/ports'', rq_body = createBody 9001 ''customer-2'' ''db''\<rparr>)]"

lemma example_run:
  "mirrored ''ports.json'' storeAdmin" "calm exampleIO ''ports.json'' storeAdmin exampleRequests"
  "\<forall>p cfg. io_load exampleIO p = Inr cfg \<longrightarrow> configRange cfg"
  "map pi_Port (ListPorts (adm_router (admin_run exampleIO storeAdmin exampleRequests))) = [9000]"
proof -
  have dec: "decodeCreate (createBody p k sv) =
     Some \<lparr>pcr_Port = p, pcr_CustomerID = k, pcr_Service = sv, pcr_MaxStreams = 0, pcr_ListenAddr = []\<rparr>"
    if "0 < p" "p < 65536" for p k sv
    by (rule decode_createBody) (use that in \<open>simp add: int64_def\<close>)
  note run = admin_run_def exampleRequests_def storeAdmin_def NewAdminServer_def adminServe_def handlePorts_def hasPrefix_def
    createPort_def createInvalid_def createListen_def Let_def StartPort_def AddPortMapping_def RemovePortMapping_def
    exampleEnv_def NewPortRouter_def LookupPort_def adminAudit_def
  show "mirrored ''ports.json'' storeAdmin"
    by (simp add: mirrored_def storeAdmin_def NewAdminServer_def rangeOK_def NewPortRouter_def ListPorts_def Sidecar_Load_def)
  show "calm exampleIO ''ports.json'' storeAdmin exampleRequests" by (simp add: run dec)
  show "map pi_Port (ListPorts (adm_router (admin_run exampleIO storeAdmin exampleRequests))) = [9000]"
    by (simp add: run dec ListPorts_def portInfo_def)
qed (auto simp: exampleIO_def configRange_def portsConfig_def exampleRelayConfig_def int64_def)

theorem sidecar_mirrors_router_witness:
  "map pi_Port (ListPorts (adm_router (admin_run exampleIO storeAdmin exampleRequests))) = [9000] \<and>
   (\<exists>d. Sidecar_Load ''ports.json'' True (adm_disk (admin_run exampleIO storeAdmin exampleRequests)) = Inr d \<and>
      map sp_Port (sd_Ports d) = [9000])"
proof -
  have "map sp_Port (map sidecarPort (ListPorts (adm_router (admin_run exampleIO storeAdmin exampleRequests)))) = [9000]"
    using example_run(4) by (simp add: comp_def sidecarPort_def)
  then show ?thesis using sidecar_mirrors_router [OF example_run(1-3)] example_run(4) by simp
qed

end
