(* ===== verification/Host.thy ===== *)
theory Host
  imports Auth Config
begin

text \<open>
  What both programs need from the machine they run on: files, the environment and the parsers
  of third-party packages, and the choice of log handler that \<^verbatim>\<open>src/cmd/relay/main.go\<close> and
  \<^verbatim>\<open>src/cmd/agent/main.go\<close> make in the same way.
\<close>

text \<open>File reading, YAML decoding into the program's configuration, the environment, the PEM block
  reader, the loader of a key pair and the parser of a certificate pool.\<close>
record ('g, 'c, 'p) host_io =
  ho_readFile :: "string \<Rightarrow> bytes option"
  ho_unmarshal :: "bytes \<Rightarrow> 'g option"
  ho_getenv :: "string \<Rightarrow> string"
  ho_pemDecode :: "bytes \<Rightarrow> (string \<times> bytes) option"
  ho_keyPair :: "string \<Rightarrow> string \<Rightarrow> 'c option"
  ho_parsePool :: "bytes \<Rightarrow> 'p option"

text \<open>A PEM reader that finds a block returns a shorter rest.\<close>
definition pemConsumes :: "('g, 'c, 'p) host_io \<Rightarrow> bool" where
  "pemConsumes io \<longleftrightarrow> (\<forall>b t rest. ho_pemDecode io b = Some (t, rest) \<longrightarrow> length rest < length b)"

lemma chain_total:
  assumes "pemConsumes io"
  obtains res where "ValidateChainCertFile (ho_readFile io) (ho_pemDecode io) f = Some res"
    "res = None \<Longrightarrow> \<exists>data. ho_readFile io f = Some data \<and>
       2 \<le> count_list (pemTypes (Suc (length data)) (ho_pemDecode io) data) ''CERTIFICATE''"
proof (cases "ho_readFile io f")
  case None
  then show ?thesis by (intro that [of "Some ErrChainRead"]) (simp_all add: ValidateChainCertFile_def)
next
  case (Some data)
  let ?n = "count_list (pemTypes (Suc (length data)) (ho_pemDecode io) data) ''CERTIFICATE''"
  have "countCerts (ho_pemDecode io) data 0 = Some ?n"
    using countCerts_total [of "ho_pemDecode io" data "length data" 0] assms by (simp add: pemConsumes_def)
  then show ?thesis
    using Some by (intro that [of "if ?n = 0 then Some ErrChainNone else if ?n = 1 then Some ErrChainBareLeaf else None"])
      (auto simp: ValidateChainCertFile_def split: if_splits)
qed

datatype log_level = LevelDebug | LevelInfo | LevelWarn | LevelError
datatype log_handler = TextHandler | JSONHandler

datatype run_error =
    RunLoad config_error | RunIndex index_error | RunChain chain_error | RunTLS tls_error

end
