(* ===== verification/Relay_Main.thy ===== *)
theory Relay_Main
  imports Admin_Server Host
begin

text \<open>
  The relay program: \<^verbatim>\<open>src/cmd/relay/main.go\<close>.  The sidecar is merged into the port index at start,
  the rate limiters are set up and the components are built; the running program is in
  \<^verbatim>\<open>Relay_Process\<close>.
\<close>

section \<open>Merging the sidecar\<close>

text \<open>The checks on one entry of the sidecar.\<close>
definition sidecarValid :: "SidecarPort \<Rightarrow> bool" where
  "sidecarValid sp \<longleftrightarrow>
     \<not> (sp_Port sp \<le> 0 \<or> sp_Port sp > 65535) \<and> \<not> (sp_CustomerID sp = [] \<or> sp_Service sp = []) \<and>
     \<not> (sp_ListenAddr sp \<noteq> [] \<and> \<not> validIP (sp_ListenAddr sp)) \<and> \<not> sp_MaxStreams sp < 0"

definition sidecarEntry :: "SidecarPort \<Rightarrow> PortIndexEntry" where
  "sidecarEntry sp =
     \<lparr>pie_CustomerID = sp_CustomerID sp, pie_Service = sp_Service sp, pie_MaxStreams = sp_MaxStreams sp,
      pie_ListenAddr = (if sp_ListenAddr sp = [] then ''0.0.0.0'' else sp_ListenAddr sp),
      pie_RateLimit = \<lparr>RequestsPerSecond = 0, Burst = 0\<rparr>\<rparr>"

text \<open>One iteration: the ports seen so far and the index.\<close>
definition mergeSidecarPort :: "int list \<times> PortIndex \<Rightarrow> SidecarPort \<Rightarrow> int list \<times> PortIndex" where
  "mergeSidecarPort st sp =
     (let (seen, idx) = st in
      if \<not> sidecarValid sp then (seen, idx)
      else if sp_Port sp \<in> set seen then (seen, idx)
      else if map_of idx (sp_Port sp) \<noteq> None then (sp_Port sp # seen, idx)
      else (sp_Port sp # seen, AList.update (sp_Port sp) (sidecarEntry sp) idx))"

definition mergeSidecar :: "PortIndex \<Rightarrow> SidecarPort list \<Rightarrow> PortIndex" where
  "mergeSidecar idx sps = snd (foldl mergeSidecarPort ([], idx) sps)"

text \<open>The index the relay starts with and whether the sidecar stays in use.\<close>
definition loadSidecar :: "string \<Rightarrow> bool \<Rightarrow> disk \<Rightarrow> PortIndex \<Rightarrow> PortIndex \<times> string option" where
  "loadSidecar storePath readable d idx =
     (if storePath = [] then (idx, None)
      else
        (case Sidecar_Load storePath readable d of
           Inl _ \<Rightarrow> (idx, None)
         | Inr data \<Rightarrow> (mergeSidecar idx (sd_Ports data), Some storePath)))"

section \<open>Start-up\<close>

definition setRateLimiters :: "'l ClientListener \<Rightarrow> CustomerConfig list \<Rightarrow> 'l ClientListener" where
  "setRateLimiters cl cs =
     foldl (\<lambda>cl c. if RequestsPerSecond (cc_RateLimit c) > 0
                   then SetRateLimiter cl (cc_ID c) (RequestsPerSecond (cc_RateLimit c)) (Burst (cc_RateLimit c))
                   else cl) cl cs"

definition collectRelayCertPaths :: "TLSPaths \<Rightarrow> (string \<times> string) list" where
  "collectRelayCertPaths paths =
     filter (\<lambda>(_, p). p \<noteq> []) [(''relay'', CertFile paths), (''relay_ca'', CAFile paths), (''client_ca'', ClientCAFile paths)]"

definition initLogger :: "LogConfig \<Rightarrow> log_level \<times> log_handler" where
  "initLogger cfg =
     ((if log_Level cfg = ''debug'' then LevelDebug
       else if log_Level cfg = ''warn'' then LevelWarn
       else if log_Level cfg = ''error'' then LevelError
       else LevelInfo),
      (if log_Format cfg = ''text'' then TextHandler else JSONHandler))"

definition gracePeriod :: "ServerConfig \<Rightarrow> int" where
  "gracePeriod s = (if sc_ShutdownGracePeriod s \<le> 0 then 30 * 10 ^ 9 else sc_ShutdownGracePeriod s)"

text \<open>\<^verbatim>\<open>run\<close> up to its components: the configuration, the index and the certificate chain are checked
  in this order, a dry run stops there, and the TLS configuration is built.  None stands for
  a chain check that does not return.\<close>
definition relayPrepare ::
  "(RelayConfig, 'c, 'p) host_io \<Rightarrow> string \<Rightarrow> bool \<Rightarrow>
   (run_error + (RelayConfig \<times> PortIndex \<times> 'p tls_config \<times> 'c Configurator) option) option" where
  "relayPrepare io configPath dryRun =
     (case LoadRelayConfig (ho_readFile io) (ho_unmarshal io) (ho_getenv io) configPath of
        Inl e \<Rightarrow> Some (Inl (RunLoad e))
      | Inr cfg \<Rightarrow>
          (case BuildPortIndex (Customers cfg) of
             Inl e \<Rightarrow> Some (Inl (RunIndex e))
           | Inr idx \<Rightarrow>
               (case ValidateChainCertFile (ho_readFile io) (ho_pemDecode io) (CertFile (relay_TLS cfg)) of
                  None \<Rightarrow> None
                | Some (Some e) \<Rightarrow> Some (Inl (RunChain e))
                | Some None \<Rightarrow>
                    if dryRun then Some (Inr None)
                    else
                      (case ServerTLSConfig (ho_keyPair io) (ho_readFile io) (ho_parsePool io)
                              (NewConfigurator \<lparr>tf_CertFile = CertFile (relay_TLS cfg), tf_KeyFile = KeyFile (relay_TLS cfg),
                                 tf_CAFile = CAFile (relay_TLS cfg), tf_ClientCAFile = ClientCAFile (relay_TLS cfg),
                                 tf_ServerName = []\<rparr>) [] of
                         (Inl e, _) \<Rightarrow> Some (Inl (RunTLS e))
                       | (Inr tls, cf) \<Rightarrow> Some (Inr (Some (cfg, idx, tls, cf)))))))"

text \<open>The relay and its admin server as \<^verbatim>\<open>run\<close> builds them.\<close>
definition relayBuild ::
  "string \<Rightarrow> bool \<Rightarrow> disk \<Rightarrow> Metrics \<Rightarrow> string \<Rightarrow> int \<Rightarrow> RelayConfig \<Rightarrow> PortIndex \<Rightarrow> 'l Relay \<times> 'l AdminServer" where
  "relayBuild configPath readable d metrics version now cfg idx =
     (let reg = Registry_SetMetrics NewMemoryRegistry metrics;
          al = NewAgentListener (sc_MaxAgents (Server cfg)) 0;
          rt = Router_SetMetrics NewPortRouter metrics;
          cl = setRateLimiters NewClientListener (Customers cfg);
          (idx', store) = loadSidecar (sc_StorePath (Server cfg)) readable d idx
      in (NewRelay al cl rt reg idx',
          NewAdminServer (sc_AdminAddr (Server cfg)) (sc_AdminSocket (Server cfg)) reg rt cl True store d
            (collectRelayCertPaths (relay_TLS cfg)) version configPath (Some cfg) now))"

section \<open>What the merge does\<close>

lemma mergeSidecarPort_row:
  assumes "mergeSidecarPort (seen, idx) sp = (seen', idx')" "map_of idx q \<noteq> None \<or> q \<notin> set seen"
  shows "map_of idx' q = (case map_of idx q of
       Some e \<Rightarrow> Some e
     | None \<Rightarrow> if sidecarValid sp \<and> sp_Port sp = q then Some (sidecarEntry sp) else None)"
    "map_of idx' q \<noteq> None \<or> q \<notin> set seen'"
  using assms by (auto simp: mergeSidecarPort_def Let_def alist_maps split: if_splits option.splits)

text \<open>Entries of the file win; otherwise the first valid sidecar entry for the port counts.\<close>
lemma mergeSidecar_row:
  "map_of (mergeSidecar idx sps) q = (case map_of idx q of
     Some e \<Rightarrow> Some e
   | None \<Rightarrow> map_option sidecarEntry (find (\<lambda>sp. sidecarValid sp \<and> sp_Port sp = q) sps))"
proof -
  have "map_of idx q \<noteq> None \<or> q \<notin> set seen \<Longrightarrow>
      map_of (snd (foldl mergeSidecarPort (seen, idx) sps)) q = (case map_of idx q of
        Some e \<Rightarrow> Some e
      | None \<Rightarrow> map_option sidecarEntry (find (\<lambda>sp. sidecarValid sp \<and> sp_Port sp = q) sps))" for seen
  proof (induction sps arbitrary: seen idx)
    case (Cons sp sps)
    obtain seen' idx' where m: "mergeSidecarPort (seen, idx) sp = (seen', idx')" by fastforce
    note r = mergeSidecarPort_row [OF m Cons.prems]
    show ?case using Cons.IH [OF r(2)] r(1) m by (auto split: option.splits)
  qed (simp split: option.splits)
  then show ?thesis by (simp add: mergeSidecar_def)
qed

lemma distinct_mergeSidecar: "distinct (map fst idx) \<Longrightarrow> distinct (map fst (mergeSidecar idx sps))"
proof -
  have "distinct (map fst (snd st)) \<Longrightarrow> distinct (map fst (snd (foldl mergeSidecarPort st sps)))" for st
    by (induction sps arbitrary: st) (simp_all add: mergeSidecarPort_def Let_def case_prod_beta distinct_update)
  then show "distinct (map fst idx) \<Longrightarrow> ?thesis" by (simp add: mergeSidecar_def)
qed

text \<open>A router entry a sidecar can carry over a restart.\<close>
definition entryValid :: "int \<Rightarrow> portEntry \<Rightarrow> bool" where
  "entryValid p e \<longleftrightarrow> sidecarValid (sidecarPort (portInfo p e)) \<and> pe_listenAddr e \<noteq> []"

lemma find_ListPorts:
  assumes "distinct (map fst (portMap rt))" "list_all (\<lambda>(p, e). entryValid p e) (portMap rt)"
  shows "map_option (entryOf \<circ> sidecarEntry)
      (find (\<lambda>sp. sidecarValid sp \<and> sp_Port sp = q) (map sidecarPort (ListPorts rt))) = map_of (portMap rt) q"
proof -
  have "distinct (map fst pm) \<Longrightarrow> list_all (\<lambda>(p, e). entryValid p e) pm \<Longrightarrow>
      map_option (entryOf \<circ> sidecarEntry) (find (\<lambda>sp. sidecarValid sp \<and> sp_Port sp = q)
        (map (\<lambda>x. sidecarPort (portInfo (fst x) (snd x))) pm)) = map_of pm q" for pm
    by (induction pm)
       (auto simp: entryValid_def sidecarPort_def portInfo_def entryOf_def sidecarEntry_def)
  from this [OF assms] show ?thesis by (simp add: ListPorts_def comp_def case_prod_beta)
qed

text \<open>A restart brings back the ports: when the sidecar file holds what the router had, the
  entries are ones the start-up checks accept, and the configuration on disk agrees with the
  router, the relay started from that configuration and that file has the same table.\<close>
theorem restart_restores_ports:
  assumes "Sidecar_Load path readable d =
      Inr \<lparr>sd_Version = sidecarVersion, sd_Ports = map sidecarPort (ListPorts rt)\<rparr>" "path \<noteq> []"
    "distinct (map fst (portMap rt))" "list_all (\<lambda>(p, e). entryValid p e) (portMap rt)"
    "BuildPortIndex cs = Inr idx" "\<forall>p e. map_of idx p = Some e \<longrightarrow> map_of (portMap rt) p = Some (entryOf e)"
    "loadSidecar path readable d idx = (idx', store)" "set order = set idx'" "distinct (map fst order)"
  shows "store = Some path \<and> map_of (portMap (foldl mapEntry NewPortRouter order)) p = map_of (portMap rt) p"
proof -
  have idx': "idx' = mergeSidecar idx (map sidecarPort (ListPorts rt))" "store = Some path"
    using assms(1,2,7) by (auto simp: loadSidecar_def)
  have "distinct (map fst idx)"
    using addCustomerEntries_spec [of "[]" cs] assms(5) by (auto simp: BuildPortIndex_def indexed_def)
  then have "distinct (map fst idx')" unfolding idx'(1) by (rule distinct_mergeSidecar)
  then have "map_of order = map_of idx'" using assms(8,9) by (intro map_of_perm)
  moreover have "map_option entryOf (map_of idx' p) = map_of (portMap rt) p"
    using find_ListPorts [OF assms(3,4), of p] assms(6)
    unfolding idx'(1) mergeSidecar_row by (auto simp: option.map_comp split: option.splits)
  ultimately show ?thesis using mapEntry_foldl [OF assms(9), of NewPortRouter p] idx'(2)
    by (auto simp: NewPortRouter_def split: option.splits)
qed

definition twoPorts :: RelayConfig where
  "twoPorts = portsConfig [(''customer-1'', 9000, ''smb''), (''customer-1'', 9001, ''http'')]"

definition twoPortRouter :: PortRouter where
  "twoPortRouter = foldl mapEntry NewPortRouter (indexPorts (Some twoPorts))"

lemma twoPortRouter_ports:
  "portMap twoPortRouter =
     [(9000, \<lparr>pe_customerID = ''customer-1'', pe_service = ''smb'', pe_maxStreams = 5, pe_listenAddr = ''0.0.0.0''\<rparr>),
      (9001, \<lparr>pe_customerID = ''customer-1'', pe_service = ''http'', pe_maxStreams = 5, pe_listenAddr = ''0.0.0.0''\<rparr>)]"
  by (simp add: twoPortRouter_def twoPorts_def reload_defs)

definition twoPortDisk :: disk where
  "twoPortDisk = snd (SaveCurrentState ''ports.json'' ''.sidecar-1.tmp'' NoFault [] (ListPorts twoPortRouter))"

lemma twoPortDisk_loads:
  "Sidecar_Load ''ports.json'' True twoPortDisk =
     Inr \<lparr>sd_Version = sidecarVersion, sd_Ports = map sidecarPort (ListPorts twoPortRouter)\<rparr>"
  unfolding twoPortDisk_def SaveCurrentState_def
  by (rule Save_Load) (simp_all add: ListPorts_def twoPortRouter_ports portInfo_def sidecarPort_def portRange_def int64_def)

lemma validIP_any: "validIP ''0.0.0.0''"
  by code_simp

theorem restart_restores_ports_witness:
  "\<exists>idx idx' store. BuildPortIndex (Customers (portsConfig [(''customer-1'', 9000, ''smb'')])) = Inr idx \<and>
     loadSidecar ''ports.json'' True twoPortDisk idx = (idx', store) \<and>
     map_of (portMap (foldl mapEntry NewPortRouter idx')) 9001 = map_of (portMap twoPortRouter) 9001"
proof -
  let ?cs = "Customers (portsConfig [(''customer-1'', 9000, ''smb'')])"
  let ?idx = "indexPorts (Some (portsConfig [(''customer-1'', 9000, ''smb'')]))"
  obtain idx' store where l: "loadSidecar ''ports.json'' True twoPortDisk ?idx = (idx', store)" by fastforce
  have d: "distinct (map fst (portMap twoPortRouter))" "list_all (\<lambda>(p, e). entryValid p e) (portMap twoPortRouter)"
    "\<forall>p e. map_of ?idx p = Some e \<longrightarrow> map_of (portMap twoPortRouter) p = Some (entryOf e)"
    by (auto simp: twoPortRouter_ports entryValid_def sidecarPort_def portInfo_def sidecarValid_def validIP_any
        onePort entryOf_def split: if_splits)
  have "distinct (map fst idx')"
    using l distinct_mergeSidecar [OF distinct_indexPorts] by (auto simp: loadSidecar_def twoPortDisk_loads)
  from restart_restores_ports [OF twoPortDisk_loads _ d(1,2) onePort(2) d(3) l refl this, of 9001] l onePort(2)
  show ?thesis by auto
qed

text \<open>The sidecar records every port of the router, those of the configuration file included, so
  a port that is taken out of the configuration while the relay is down comes back at the next
  start, still bound to its customer.\<close>
theorem removed_port_returns:
  "let idx = indexPorts (Some (portsConfig [(''customer-1'', 9000, ''smb'')]))
   in twoPortDisk = snd (SaveCurrentState ''ports.json'' ''.sidecar-1.tmp'' NoFault []
        (ListPorts (foldl mapEntry NewPortRouter (indexPorts (Some twoPorts))))) \<and>
      map_of idx 9001 = None \<and>
      map_option pie_CustomerID (map_of (fst (loadSidecar ''ports.json'' True twoPortDisk idx)) 9001) = Some ''customer-1''"
proof -
  let ?idx = "indexPorts (Some (portsConfig [(''customer-1'', 9000, ''smb'')]))"
  have none: "map_of ?idx 9001 = None" by (simp add: onePort)
  have "map_of (mergeSidecar ?idx (map sidecarPort (ListPorts twoPortRouter))) 9001 =
      Some (sidecarEntry (sidecarPort (portInfo 9001 (snd (portMap twoPortRouter ! 1)))))"
    unfolding mergeSidecar_row none
    by (simp add: ListPorts_def twoPortRouter_ports portInfo_def sidecarPort_def sidecarValid_def validIP_any)
  then show ?thesis using none
    by (simp add: loadSidecar_def Let_def twoPortDisk_loads sidecarEntry_def sidecarPort_def portInfo_def twoPortRouter_ports)
       (simp add: twoPortDisk_def twoPortRouter_def)
qed

section \<open>What a started relay has checked\<close>

lemma server_tls_verifies:
  assumes "ServerTLSConfig keyPair readFile parsePool cf [] = (Inr t, cf1)"
  shows "MinVersion t = VersionTLS13" "ClientAuth t = RequireAndVerifyClientCert"
    "ClientCAs t = Option.bind (readFile (tf_ClientCAFile (cf_paths cf))) parsePool" "ClientCAs t \<noteq> None"
    "GetCertificate cf1 = keyPair (tf_CertFile (cf_paths cf)) (tf_KeyFile (cf_paths cf))"
  using assms
  by (auto simp: ServerTLSConfig_def LoadCertificate_def LoadCertificateAuthority_def GetCertificate_def Let_def
      split: sum.splits option.splits)

text \<open>C18. Start-up always comes to a decision when the PEM reader consumes what it reads, and a relay
  that starts has checked everything it relies on: its configuration passed validation, no port
  is configured twice and the index holds exactly the configured ports, the certificate file
  has a chain of at least two certificates, TLS 1.3 is the least version, a client certificate
  under the configured client CA is demanded, and the certificate served is the configured
  pair.  A dry run accepts exactly the configurations that pass the checks before the last.\<close>
theorem relay_start_checks:
  assumes "pemConsumes io"
  shows "\<exists>res. relayPrepare io path dryRun = Some res \<and>
    (case res of
       Inl e \<Rightarrow> relayPrepare io path True = Some (Inl e) \<or> (\<not> dryRun \<and> (\<exists>t. e = RunTLS t))
     | Inr None \<Rightarrow> dryRun
     | Inr (Some (cfg, idx, tls, cf)) \<Rightarrow>
         validateRelayConfig cfg = None \<and> idx = configuredPorts (Customers cfg) \<and> distinct (map fst idx) \<and>
         (\<exists>data. ho_readFile io (CertFile (relay_TLS cfg)) = Some data \<and>
            2 \<le> count_list (pemTypes (Suc (length data)) (ho_pemDecode io) data) ''CERTIFICATE'') \<and>
         MinVersion tls = VersionTLS13 \<and> ClientAuth tls = RequireAndVerifyClientCert \<and>
         ClientCAs tls = Option.bind (ho_readFile io (ClientCAFile (relay_TLS cfg))) (ho_parsePool io) \<and>
         ClientCAs tls \<noteq> None \<and>
         GetCertificate cf = ho_keyPair io (CertFile (relay_TLS cfg)) (KeyFile (relay_TLS cfg)))"
proof -
  show ?thesis
  proof (cases "LoadRelayConfig (ho_readFile io) (ho_unmarshal io) (ho_getenv io) path")
    case (Inl e)
    then show ?thesis by (simp add: relayPrepare_def)
  next
    case (Inr cfg)
    note load = this
    have valid: "validateRelayConfig cfg = None"
      using load by (auto simp: LoadRelayConfig_def Let_def split: option.splits)
    show ?thesis
    proof (cases "BuildPortIndex (Customers cfg)")
      case (Inl e)
      then show ?thesis using load by (simp add: relayPrepare_def)
    next
      case (Inr idx)
      have idx: "idx = configuredPorts (Customers cfg)" "distinct (map fst idx)"
        using addCustomerEntries_spec [of "[]" "Customers cfg"] Inr by (auto simp: BuildPortIndex_def indexed_def)
      let ?cert = "CertFile (relay_TLS cfg)"
      obtain res where res: "ValidateChainCertFile (ho_readFile io) (ho_pemDecode io) ?cert = Some res"
        "res = None \<Longrightarrow> \<exists>data. ho_readFile io ?cert = Some data \<and>
           2 \<le> count_list (pemTypes (Suc (length data)) (ho_pemDecode io) data) ''CERTIFICATE''"
        using chain_total [OF assms, of ?cert] by blast
      note run = relayPrepare_def load Inr res(1)
      show ?thesis
      proof (cases "res = None \<and> \<not> dryRun")
        case False
        then show ?thesis by (cases res) (simp_all add: run)
      next
        case True
        let ?cf = "NewConfigurator \<lparr>tf_CertFile = ?cert, tf_KeyFile = KeyFile (relay_TLS cfg), tf_CAFile = CAFile (relay_TLS cfg),
          tf_ClientCAFile = ClientCAFile (relay_TLS cfg), tf_ServerName = []\<rparr> :: 'a Configurator"
        obtain r cf where tls: "ServerTLSConfig (ho_keyPair io) (ho_readFile io) (ho_parsePool io) ?cf [] = (r, cf)"
          by fastforce
        show ?thesis
        proof (cases r)
          case (Inl e)
          then show ?thesis using True tls by (simp add: run)
        next
          case (Inr t)
          from server_tls_verifies [OF tls [unfolded Inr]] have "MinVersion t = VersionTLS13"
            "ClientAuth t = RequireAndVerifyClientCert"
            "ClientCAs t = Option.bind (ho_readFile io (ClientCAFile (relay_TLS cfg))) (ho_parsePool io)"
            "ClientCAs t \<noteq> None" "GetCertificate cf = ho_keyPair io ?cert (KeyFile (relay_TLS cfg))"
            by (simp_all add: NewConfigurator_def)
          then show ?thesis using True Inr tls idx valid res(2) by (simp add: run)
        qed
      qed
    qed
  qed
qed

definition exampleHost :: "(RelayConfig, string, bytes) host_io" where
  "exampleHost = \<lparr>ho_readFile = (\<lambda>_. Some [1, 2, 1]), ho_unmarshal = (\<lambda>_. Some exampleRelayConfig), ho_getenv = (\<lambda>_. []),
     ho_pemDecode = byteBlocks, ho_keyPair = (\<lambda>_ _. Some ''pair''), ho_parsePool = Some\<rparr>"

theorem relay_start_checks_witness:
  "\<exists>cfg idx tls cf. relayPrepare exampleHost ''relay.yaml'' False = Some (Inr (Some (cfg, idx, tls, cf))) \<and>
     ClientAuth tls = RequireAndVerifyClientCert \<and> map fst idx = [9000]"
proof -
  have c: "pemConsumes exampleHost"
    by (auto simp: pemConsumes_def exampleHost_def byteBlocks_def split: list.splits)
  have load: "LoadRelayConfig (ho_readFile exampleHost) (ho_unmarshal exampleHost) (ho_getenv exampleHost) ''relay.yaml'' =
      Inr exampleRelayConfig"
    by (simp add: LoadRelayConfig_def exampleHost_def applyRelayEnvOverrides_def override_def validateRelayConfig_def
        exampleRelayConfig_def)
  have idx: "BuildPortIndex (Customers exampleRelayConfig) = Inr (configuredPorts (Customers exampleRelayConfig))"
    "map fst (configuredPorts (Customers exampleRelayConfig)) = [9000]"
    by (simp_all add: BuildPortIndex_def exampleRelayConfig_def configuredPorts_def customerPorts_def)
  have chain: "ValidateChainCertFile (ho_readFile exampleHost) (ho_pemDecode exampleHost) f = Some None" for f
    by (simp add: ValidateChainCertFile_def exampleHost_def countCerts.simps byteBlocks_def)
  obtain cfg idx tls cf where "relayPrepare exampleHost ''relay.yaml'' False = Some (Inr (Some (cfg, idx, tls, cf)))"
      "map fst idx = [9000]"
    by (simp add: relayPrepare_def load idx chain)
       (simp add: idx(2) exampleHost_def ServerTLSConfig_def LoadCertificate_def LoadCertificateAuthority_def NewConfigurator_def)
  with relay_start_checks [OF c, of "''relay.yaml''" False] show ?thesis by auto
qed

end
