(* ===== verification/Restart.thy ===== *)
theory Restart
  imports Relay_Main
begin

text \<open>
  Well-formed port tables and what becomes of them over requests, reloads and a restart of the
  relay.  The locale says what a condition on port entries must satisfy to be kept by every
  admin operation; it is interpreted for the checks of the start-up code and for the range of
  Go's integers.
\<close>

definition tableOK :: "(int \<Rightarrow> portEntry \<Rightarrow> bool) \<Rightarrow> PortRouter \<Rightarrow> bool" where
  "tableOK ok rt \<longleftrightarrow> distinct (map fst (portMap rt)) \<and> list_all (\<lambda>(p, e). ok p e) (portMap rt)"

definition indexOK :: "(int \<Rightarrow> portEntry \<Rightarrow> bool) \<Rightarrow> PortIndex \<Rightarrow> bool" where
  "indexOK ok idx \<longleftrightarrow> list_all (\<lambda>(p, e). ok p (entryOf e)) idx"

lemma tableOK_update:
  assumes "tableOK ok rt" "ok p e" shows "tableOK ok (rt\<lparr>portMap := AList.update p e (portMap rt)\<rparr>)"
proof -
  have "list_all P al \<Longrightarrow> P (p, e) \<Longrightarrow> list_all P (AList.update p e al)" for P and al :: "(int \<times> portEntry) list"
    by (induction al) auto
  then show ?thesis using assms by (simp add: tableOK_def distinct_update)
qed

lemma tableOK_delete: "tableOK ok rt \<Longrightarrow> tableOK ok (rt\<lparr>portMap := AList.delete p (portMap rt)\<rparr>)"
  by (auto simp: tableOK_def distinct_delete) (auto simp: AList.delete_eq list_all_iff)

lemma tableOK_entry: "tableOK ok rt \<Longrightarrow> map_of (portMap rt) p = Some e \<Longrightarrow> ok p e"
  by (auto simp: tableOK_def list_all_iff dest: map_of_SomeD)

locale port_law =
  fixes ok :: "int \<Rightarrow> portEntry \<Rightarrow> bool"
  assumes created: "decodeCreate body = Some req \<Longrightarrow> createInvalid req = None \<Longrightarrow> ok (pcr_Port req) (createEntry req)"
    and updated: "ok p e \<Longrightarrow> decodePortUpdateRequest body = Inr upd \<Longrightarrow> mergePortUpdate (portInfo p e) upd = (sv, la, ms) \<Longrightarrow>
      ok p \<lparr>pe_customerID = pe_customerID e, pe_service = sv, pe_maxStreams = ms, pe_listenAddr = la\<rparr>"
    and rebound: "ok p e \<Longrightarrow> ok p e' \<Longrightarrow> ok p (e'\<lparr>pe_customerID := pe_customerID e\<rparr>)"
begin

lemma create_keeps:
  assumes "tableOK ok (adm_router a)" shows "tableOK ok (adm_router (snd (createPort a env body)))"
proof -
  obtain resp a' where c: "createPort a env body = (resp, a')" by fastforce
  then have "tableOK ok (adm_router a')"
  proof (cases rule: createPort_cases)
    case (2 req)
    from tableOK_delete [OF tableOK_update [OF assms created [OF 2(1,2)]]] show ?thesis by (simp add: 2(5))
  next
    case (3 req)
    from tableOK_update [OF assms created [OF 3(1,2)]] show ?thesis by (simp add: 3(5))
  qed (use assms in simp)
  with c show ?thesis by simp
qed

lemma update_keeps:
  assumes "tableOK ok (adm_router a)" shows "tableOK ok (adm_router (snd (updatePort a env body port)))"
proof (cases "decodePortUpdateRequest body")
  case (Inl r)
  then show ?thesis using assms by (simp add: updatePort_def)
next
  case (Inr req)
  show ?thesis
  proof (cases "map_of (portMap (adm_router a)) port")
    case None
    then show ?thesis using assms Inr by (simp add: updatePort_def GetPort_def)
  next
    case (Some e)
    obtain sv la ms where m: "mergePortUpdate (portInfo port e) req = (sv, la, ms)" by (metis prod_cases3)
    from tableOK_update [OF assms updated [OF tableOK_entry [OF assms Some] Inr m]] show ?thesis
      by (simp add: updatePort_def Inr GetPort_def Some m UpdatePortMapping_def Let_def)
  qed
qed

lemma delete_keeps:
  assumes "tableOK ok (adm_router a)" shows "tableOK ok (adm_router (snd (deletePort a env port)))"
  using assms tableOK_delete [OF assms]
  by (auto simp: deletePort_def LookupPort_def RemovePortMapping_def Let_def split: option.splits)

lemma reload_new_keeps:
  assumes "tableOK ok (adm_router (fst st))" "ok p (entryOf e)"
  shows "tableOK ok (adm_router (fst (reload_new bind oldIdx st (p, e))))"
proof -
  obtain a summary where st: "st = (a, summary)" by fastforce
  have t: "tableOK ok (adm_router a)" using assms st by simp
  note add = tableOK_update [OF t assms(2)]
  have upd: "tableOK ok ((adm_router a)\<lparr>portMap := AList.update p \<lparr>pe_customerID = pe_customerID x, pe_service = pie_Service e,
      pe_maxStreams = pie_MaxStreams e, pe_listenAddr = pie_ListenAddr e\<rparr> (portMap (adm_router a))\<rparr>)"
    if "map_of (portMap (adm_router a)) p = Some x" for x
    using tableOK_update [OF t rebound [OF tableOK_entry [OF t that] assms(2)]] by (simp add: entryOf_def)
  show ?thesis
    using add tableOK_delete [OF add, of p] upd t
    by (auto simp: st reload_new_def reload_addPort_def rejectCustomerChange_def updatePortReload_def Let_def StartPort_def
        AddPortMapping_def RemovePortMapping_def UpdatePortMapping_def entryOf_def alist_maps split: option.splits)
qed

lemma reload_old_keeps:
  assumes "tableOK ok (adm_router (fst st))" shows "tableOK ok (adm_router (fst (reload_old newIdx st pe)))"
  using assms by (cases st) (auto simp: reload_old_def reload_removePort_def Let_def RemovePortMapping_def tableOK_delete
      split: option.splits prod.splits)

lemma reload_keeps:
  fixes a :: "'l AdminServer"
  assumes "tableOK ok (adm_router a)" "\<And>p cfg. load p = Inr cfg \<Longrightarrow> indexOK ok (indexPorts (Some cfg))"
  shows "tableOK ok (adm_router (snd (Reload load a env)))"
proof (cases "fst (Reload load a env)")
  case (Inl e)
  then have "Reload load a env = (Inl e, snd (Reload load a env))" by (simp add: prod_eq_iff)
  from Reload_Inl [OF this] show ?thesis using assms(1) by simp
next
  case (Inr summary)
  then have "Reload load a env = (Inr summary, snd (Reload load a env))" by (simp add: prod_eq_iff)
  then obtain cfg where c: "load (adm_configPath a) = Inr cfg" "snd (Reload load a env) =
      emitReloadAudit (persistPorts ((fst (applyReload (env_bind env) a (adm_currentCfg a) (Some cfg)))
      \<lparr>adm_currentCfg := Some cfg\<rparr>) env) env summary"
    by (rule Reload_Inr)
  have new: "tableOK ok (adm_router (fst st)) \<Longrightarrow> indexOK ok idx \<Longrightarrow>
      tableOK ok (adm_router (fst (foldl (reload_new bind oldIdx) st idx)))"
    for st :: "'l AdminServer \<times> ReloadSummary" and idx oldIdx bind
  proof (induction idx arbitrary: st)
    case (Cons pe idx)
    obtain p e where pe: "pe = (p, e)" by fastforce
    have "tableOK ok (adm_router (fst (reload_new bind oldIdx st pe)))"
      using Cons.prems by (simp add: pe reload_new_keeps indexOK_def)
    then show ?case using Cons by (simp add: indexOK_def)
  qed simp
  have old: "tableOK ok (adm_router (fst st)) \<Longrightarrow> tableOK ok (adm_router (fst (foldl (reload_old newIdx) st idx)))"
    for st :: "'l AdminServer \<times> ReloadSummary" and idx newIdx
    by (induction idx arbitrary: st) (simp_all add: reload_old_keeps)
  have "tableOK ok (adm_router (fst (applyReload (env_bind env) a (adm_currentCfg a) (Some cfg))))"
    unfolding applyReload_def Let_def case_prod_beta
    using old [OF new [OF _ assms(2) [OF c(1)]]] assms(1) by simp
  then show ?thesis unfolding c(2) emitReloadAudit_def by simp
qed

text \<open>Every request keeps the condition when loaded configurations satisfy it.\<close>
lemma serve_keeps:
  assumes "tableOK ok (adm_router a)" "\<And>p cfg. io_load io p = Inr cfg \<Longrightarrow> indexOK ok (indexPorts (Some cfg))"
  shows "tableOK ok (adm_router (snd (adminServe io a env r)))"
proof -
  have "tableOK ok (adm_router (snd (handlePorts a env r)))" using assms(1) by (simp add: handlePorts_def create_keeps)
  moreover have "tableOK ok (adm_router (snd (handlePortByID a env r)))"
    using assms(1) by (simp add: handlePortByID_def update_keeps delete_keeps split: option.splits)
  moreover have "tableOK ok (adm_router (snd (handleAgentByID (io_rfc3339 io) a env r)))"
    using assms(1) by (simp add: handleAgentByID_def deleteAgent_def Let_def)
  moreover have "tableOK ok (adm_router (snd (handleReload (io_load io) a env (rq_method r))))"
    using assms(1) reload_keeps [OF assms(1), where load = "io_load io" and env = env, OF assms(2)]
    by (cases "Reload (io_load io) a env") (simp add: handleReload_def split: sum.splits)
  ultimately show ?thesis unfolding adminServe_def Let_def using assms(1)
    by (simp split del: if_split add: if_distrib [of snd] if_distrib [of adm_router] if_distrib [of "tableOK ok"] cong: if_cong)
qed

lemma run_keeps:
  assumes "\<And>p cfg. io_load io p = Inr cfg \<Longrightarrow> indexOK ok (indexPorts (Some cfg))"
  shows "tableOK ok (adm_router a) \<Longrightarrow> tableOK ok (adm_router (admin_run io a rs))"
proof (induction rs arbitrary: a)
  case (Cons er rs)
  obtain env r where er: "er = (env, r)" by fastforce
  have "tableOK ok (adm_router (snd (adminServe io a env r)))" by (rule serve_keeps [OF Cons.prems assms])
  then show ?case using Cons.IH er by (simp add: admin_run_def)
qed (simp add: admin_run_def)

end

text \<open>What the start-up code demands of a sidecar entry is what the admin API checks.\<close>
interpretation valid: port_law entryValid
proof
  show "entryValid (pcr_Port req) (createEntry req)" if "createInvalid req = None" for req
    using that validIP_any
    by (auto simp: entryValid_def sidecarValid_def sidecarPort_def portInfo_def createEntry_def createListen_def
        createInvalid_def split: if_splits)
  show "entryValid p \<lparr>pe_customerID = pe_customerID e, pe_service = sv, pe_maxStreams = ms, pe_listenAddr = la\<rparr>"
    if "entryValid p e" "decodePortUpdateRequest body = Inr req" "mergePortUpdate (portInfo p e) req = (sv, la, ms)"
    for p e body req sv la ms
    using that
    by (auto simp: entryValid_def sidecarValid_def sidecarPort_def portInfo_def decodePortUpdateRequest_def mergePortUpdate_def
        split: option.splits if_splits)
qed (auto simp: entryValid_def sidecarValid_def sidecarPort_def portInfo_def)

interpretation range: port_law "\<lambda>p e. int64 p \<and> int64 (pe_maxStreams e)"
proof
  show "int64 (pcr_Port req) \<and> int64 (pe_maxStreams (createEntry req))"
    if "decodeCreate body = Some req" "createInvalid req = None" for body req
    using decodeCreate_range [OF that(1)] that(2) by (auto simp: createInvalid_def createEntry_def int64_def split: if_splits)
  show "int64 p \<and> int64 (pe_maxStreams \<lparr>pe_customerID = pe_customerID e, pe_service = sv, pe_maxStreams = ms, pe_listenAddr = la\<rparr>)"
    if "int64 p \<and> int64 (pe_maxStreams e)" "decodePortUpdateRequest body = Inr req"
      "mergePortUpdate (portInfo p e) req = (sv, la, ms)" for p e body req sv la ms
  proof -
    have "decodeUpdate body = Some req"
      using that(2) by (auto simp: decodePortUpdateRequest_def split: option.splits if_splits)
    then show ?thesis using that decodeUpdate_range [of body req]
      by (auto simp: mergePortUpdate_def portInfo_def split: option.splits)
  qed
qed simp

section \<open>Well-formed tables and restarts\<close>


lemma example_valid:
  "tableOK entryValid (adm_router storeAdmin)"
  "\<forall>p cfg. io_load exampleIO p = Inr cfg \<longrightarrow> indexOK entryValid (indexPorts (Some cfg))"
  by (simp add: storeAdmin_def NewAdminServer_def NewPortRouter_def tableOK_def)
     (auto simp: exampleIO_def onePort indexOK_def entryOf_def entryValid_def sidecarValid_def sidecarPort_def portInfo_def
      validIP_any)




end
