(* ===== verification/Relay_Process.thy ===== *)
theory Relay_Process
  imports Restart
begin

text \<open>
  The running relay, \<^verbatim>\<open>run\<close> of \<^verbatim>\<open>src/cmd/relay/main.go\<close>: the components share one registry, one router
  and one client listener, which the admin server's state holds; the relay of
  \<^verbatim>\<open>server_impl.go\<close> is a view of the same objects.  Everything that can happen to the process is an
  event: agents and clients arrive, sessions move on, the admin interface is called, certificates
  rotate, signals come in.  A client is admitted and routed in two events, so that anything may
  happen between the two reads of the port table.
\<close>

section \<open>State\<close>

record ('l, 'c) relay_process =
  rp_agentListener :: AgentListener
  rp_portIndex :: PortIndex
  rp_admin :: "'l AdminServer"
  rp_arrived :: "agent_conn list"
  rp_waiting :: "(string \<times> int) list"
  rp_tls :: "'c Configurator"
  rp_fingerprint :: "string option"
  rp_cancelled :: bool

text \<open>The relay over the objects it shares with the admin server, and storing it back.\<close>
definition relayView :: "('l, 'c) relay_process \<Rightarrow> 'l Relay" where
  "relayView p =
     NewRelay (rp_agentListener p) (adm_clients (rp_admin p)) (adm_router (rp_admin p)) (adm_registry (rp_admin p))
       (rp_portIndex p)"

definition putRelay :: "('l, 'c) relay_process \<Rightarrow> 'l Relay \<Rightarrow> ('l, 'c) relay_process" where
  "putRelay p s =
     p\<lparr>rp_admin := (rp_admin p)\<lparr>adm_clients := clientListener s, adm_router := relay_router s,
                                adm_registry := relay_registry s\<rparr>\<rparr>"

text \<open>Events go to the one emitter the components share.\<close>
definition emitAll :: "('l, 'c) relay_process \<Rightarrow> Event list \<Rightarrow> ('l, 'c) relay_process" where
  "emitAll p evs = p\<lparr>rp_admin := (rp_admin p)\<lparr>adm_emitter := map_option (\<lambda>l. l @ evs) (adm_emitter (rp_admin p))\<rparr>\<rparr>"

definition relayStartEvent :: "RelayConfig \<Rightarrow> int \<Rightarrow> Event" where
  "relayStartEvent cfg now =
     \<lparr>ev_Action = ActionAgentConnected, ev_Actor = ''relay'', ev_Target = sc_ListenAddr (Server cfg), ev_Timestamp = now,
      ev_RequestID = [], ev_CustomerID = [], ev_Metadata = []\<rparr>"

text \<open>What is running once \<^verbatim>\<open>run\<close> reaches its wait loop: the built components, the start event, the
  started server, and a watcher that begins with the fingerprint of the certificate file.\<close>
definition relayLaunch ::
  "'l Relay \<times> 'l AdminServer \<Rightarrow> RelayConfig \<Rightarrow> int \<Rightarrow> (int \<Rightarrow> bool) \<Rightarrow> (int \<times> PortIndexEntry) list \<Rightarrow>
   (int \<times> PortIndexEntry) list \<Rightarrow> 'c Configurator \<Rightarrow> (bytes \<Rightarrow> bytes) \<Rightarrow> bytes option \<Rightarrow> ('l, 'c) relay_process" where
  "relayLaunch built cfg now bind order spawned cf sha certFile =
     (let p0 = \<lparr>rp_agentListener = agentListener (fst built), rp_portIndex = relay_portIndex (fst built), rp_admin = snd built,
                rp_arrived = [], rp_waiting = [], rp_tls = cf, rp_fingerprint = Watch_begin sha certFile,
                rp_cancelled = False\<rparr>;
          p1 = emitAll p0 [relayStartEvent cfg now]
      in putRelay p1 (Relay_Start bind order spawned (relayView p1)))"

section \<open>Events\<close>

text \<open>\<^verbatim>\<open>handleClient\<close> up to its call of \<^verbatim>\<open>Route\<close>: how it ended, or the customer to route to.\<close>
definition admitClient ::
  "(rat \<Rightarrow> int \<Rightarrow> 'l) \<Rightarrow> ('l \<Rightarrow> int \<Rightarrow> bool \<times> 'l) \<Rightarrow> 'l ClientListener \<Rightarrow> PortRouter \<Rightarrow> string \<Rightarrow> int \<Rightarrow> int \<Rightarrow>
   (client_outcome + string) \<times> 'l ClientListener \<times> PortRouter" where
  "admitClient newLimiter allow cl rt remoteAddr port now =
     (case LookupPort rt port of
        None \<Rightarrow> (Inl ClientNoMapping, cl, rt)
      | Some (customerID, _) \<Rightarrow>
          let (ok, cl1) =
                (case map_of (rateLimiters cl) customerID of
                   None \<Rightarrow> (True, cl)
                 | Some rl \<Rightarrow>
                     let (v, rl') = Allow newLimiter allow rl (sourceIP remoteAddr) now
                     in (v, cl\<lparr>rateLimiters := AList.update customerID rl' (rateLimiters cl)\<rparr>))
          in
          if \<not> ok then
            (Inl ClientRateLimited, cl1,
             rt\<lparr>rt_metrics := map_option (\<lambda>m. ClientRejected m customerID ''rate_limited'') (rt_metrics rt)\<rparr>)
          else (Inr customerID, cl1, rt))"

lemma handleClient_admit:
  "handleClient nl al cl rt reg remote port now =
     (case admitClient nl al cl rt remote port now of
        (Inl out, cl1, rt1) \<Rightarrow> (out, cl1, rt1, reg)
      | (Inr k, cl1, rt1) \<Rightarrow>
          (case Route_begin rt1 reg k port of
             (Inl e, rt', reg') \<Rightarrow> (ClientRouteFailed e, cl1, rt', reg')
           | (Inr (c, i, s), rt', reg') \<Rightarrow> (ClientRouted c i s, cl1, rt', reg')))"
  by (auto simp: handleClient_def admitClient_def Let_def split: option.splits prod.splits sum.splits)

datatype 'c relay_event =
    EvAgent agent_conn int bool
  | EvClient string int int
  | EvRoute nat
  | EvSession cref mux_action
  | EvStreamOpened string
  | EvStreamDone string
  | EvAdmin admin_io admin_env http_request
  | EvTick "bytes option" "'c option"

definition agentArrives ::
  "(bytes \<Rightarrow> bytes) \<Rightarrow> ('l, 'c) relay_process \<Rightarrow> agent_conn \<Rightarrow> int \<Rightarrow> bool \<Rightarrow> ('l, 'c) relay_process" where
  "agentArrives sha p conn now pick =
     (case handleConnection sha (rp_agentListener p) (adm_registry (rp_admin p)) (length (rp_arrived p)) conn now pick of
        (_, evs, reg) \<Rightarrow>
          emitAll (p\<lparr>rp_admin := (rp_admin p)\<lparr>adm_registry := reg\<rparr>, rp_arrived := rp_arrived p @ [conn]\<rparr>) evs)"

definition clientArrives ::
  "(rat \<Rightarrow> int \<Rightarrow> 'l) \<Rightarrow> ('l \<Rightarrow> int \<Rightarrow> bool \<times> 'l) \<Rightarrow> ('l, 'c) relay_process \<Rightarrow> string \<Rightarrow> int \<Rightarrow> int \<Rightarrow> ('l, 'c) relay_process" where
  "clientArrives nl al p remote port now =
     (case admitClient nl al (adm_clients (rp_admin p)) (adm_router (rp_admin p)) remote port now of
        (out, cl, rt) \<Rightarrow>
          p\<lparr>rp_admin := (rp_admin p)\<lparr>adm_clients := cl, adm_router := rt\<rparr>,
            rp_waiting := rp_waiting p @ (case out of Inl _ \<Rightarrow> [] | Inr k \<Rightarrow> [(k, port)])\<rparr>)"

text \<open>\<^verbatim>\<open>Route\<close> for the \<open>n\<close>-th admitted client, up to the wait for the agent's acknowledgement.\<close>
definition routeClient :: "('l, 'c) relay_process \<Rightarrow> nat \<Rightarrow> (route_error + cref \<times> u32 \<times> ref) \<times> ('l, 'c) relay_process" where
  "routeClient p n =
     (case rp_waiting p ! n of
        (k, port) \<Rightarrow>
          (case Route_begin (adm_router (rp_admin p)) (adm_registry (rp_admin p)) k port of
             (res, rt, reg) \<Rightarrow>
               (res, p\<lparr>rp_admin := (rp_admin p)\<lparr>adm_router := rt, adm_registry := reg\<rparr>,
                       rp_waiting := take n (rp_waiting p) @ drop (Suc n) (rp_waiting p)\<rparr>)))"

text \<open>A tick of the watcher goroutine, which calls \<^verbatim>\<open>Reload\<close> with a new pair.\<close>
definition watchTick :: "(bytes \<Rightarrow> bytes) \<Rightarrow> ('l, 'c) relay_process \<Rightarrow> bytes option \<Rightarrow> 'c option \<Rightarrow> ('l, 'c) relay_process" where
  "watchTick sha p content pair =
     (case rp_fingerprint p of
        None \<Rightarrow> p
      | Some fp \<Rightarrow>
          (case watch_run sha (fp, rp_tls p) [(content, pair)] of
             (fp', cf) \<Rightarrow> p\<lparr>rp_fingerprint := Some fp', rp_tls := cf\<rparr>))"

definition setRouter :: "('l, 'c) relay_process \<Rightarrow> PortRouter \<Rightarrow> ('l, 'c) relay_process" where
  "setRouter p rt = p\<lparr>rp_admin := (rp_admin p)\<lparr>adm_router := rt\<rparr>\<rparr>"

definition relayEvent ::
  "(rat \<Rightarrow> int \<Rightarrow> 'l) \<Rightarrow> ('l \<Rightarrow> int \<Rightarrow> bool \<times> 'l) \<Rightarrow> (bytes \<Rightarrow> bytes) \<Rightarrow> ('l, 'c) relay_process \<Rightarrow> 'c relay_event \<Rightarrow>
   ('l, 'c) relay_process" where
  "relayEvent nl al sha p e =
     (case e of
        EvAgent conn now pick \<Rightarrow> agentArrives sha p conn now pick
      | EvClient remote port now \<Rightarrow> clientArrives nl al p remote port now
      | EvRoute n \<Rightarrow> if n < length (rp_waiting p) then snd (routeClient p n) else p
      | EvSession c act \<Rightarrow>
          p\<lparr>rp_admin := (rp_admin p)\<lparr>adm_registry := onConn (adm_registry (rp_admin p)) c
                (\<lambda>x. x\<lparr>lc_mux := mux_exec (lc_mux x) act\<rparr>)\<rparr>\<rparr>
      | EvStreamOpened k \<Rightarrow> setRouter p (Route_opened (adm_router (rp_admin p)) k)
      | EvStreamDone k \<Rightarrow> setRouter p (Route_done (adm_router (rp_admin p)) k)
      | EvAdmin io env r \<Rightarrow> p\<lparr>rp_admin := snd (adminServe io (rp_admin p) env r)\<rparr>
      | EvTick content pair \<Rightarrow> watchTick sha p content pair)"

section \<open>The wait loop and the shutdown\<close>

datatype 'c main_event =
    Busy "'c relay_event" | SigHup "string \<Rightarrow> config_error + RelayConfig" admin_env | SigTerm | ServerReturned bool

definition relayStep ::
  "(rat \<Rightarrow> int \<Rightarrow> 'l) \<Rightarrow> ('l \<Rightarrow> int \<Rightarrow> bool \<times> 'l) \<Rightarrow> (bytes \<Rightarrow> bytes) \<Rightarrow> ('l, 'c) relay_process \<Rightarrow> 'c main_event \<Rightarrow>
   ('l, 'c) relay_process" where
  "relayStep nl al sha p e =
     (case e of
        Busy b \<Rightarrow> relayEvent nl al sha p b
      | SigHup load env \<Rightarrow> p\<lparr>rp_admin := snd (Reload load (rp_admin p) env)\<rparr>
      | SigTerm \<Rightarrow> p
      | ServerReturned _ \<Rightarrow> p)"

text \<open>The wait loop: the process when the loop is left, or None while it waits.\<close>
fun waitLoop ::
  "(rat \<Rightarrow> int \<Rightarrow> 'l) \<Rightarrow> ('l \<Rightarrow> int \<Rightarrow> bool \<times> 'l) \<Rightarrow> (bytes \<Rightarrow> bytes) \<Rightarrow> ('l, 'c) relay_process \<Rightarrow> 'c main_event list \<Rightarrow>
   ('l, 'c) relay_process option" where
  "waitLoop nl al sha p [] = None"
| "waitLoop nl al sha p (SigTerm # es) = Some p"
| "waitLoop nl al sha p (ServerReturned ok # es) = Some p"
| "waitLoop nl al sha p (e # es) = waitLoop nl al sha (relayStep nl al sha p e) es"

text \<open>Every listening port has a goroutine that closes its socket once the context is cancelled.\<close>
definition cancelPorts :: "'l ClientListener \<Rightarrow> 'l ClientListener" where
  "cancelPorts cl = foldl closeLn cl (map fst (lns cl))"

text \<open>After the loop: \<^verbatim>\<open>cancel()\<close> and what it sets off, then \<^verbatim>\<open>server.Stop\<close>.\<close>
definition relayShutdown :: "('l, 'c) relay_process \<Rightarrow> ('l, 'c) relay_process" where
  "relayShutdown p =
     (let p1 = p\<lparr>rp_cancelled := True, rp_admin := (rp_admin p)\<lparr>adm_clients := cancelPorts (adm_clients (rp_admin p))\<rparr>\<rparr>
      in putRelay p1 (Relay_Stop (relayView p1)))"

section \<open>What requests and reloads keep\<close>

definition basePart :: "'l AdminServer \<Rightarrow> MemoryRegistry \<times> string" where
  "basePart a = (adm_registry a, adm_configPath a)"

lemma basePart_new: "basePart (fst (reload_new b i st pe)) = basePart (fst st)"
  by (cases st) (auto simp: basePart_def reload_new_def reload_addPort_def rejectCustomerChange_def updatePortReload_def
      Let_def split: option.splits prod.splits)

lemma basePart_old: "basePart (fst (reload_old i st pe)) = basePart (fst st)"
  by (cases st) (auto simp: basePart_def reload_old_def reload_removePort_def Let_def split: option.splits prod.splits)

lemma basePart_foldl:
  "(\<And>st pe. basePart (fst (g st pe)) = basePart (fst st)) \<Longrightarrow> basePart (fst (foldl g st pes)) = basePart (fst st)"
  by (induction pes arbitrary: st) simp_all

lemma basePart_keeps [simp]:
  "basePart (persistPorts a env) = basePart a" "basePart (emitReloadAudit a env summary) = basePart a"
  "basePart (a\<lparr>adm_currentCfg := c\<rparr>) = basePart a" "basePart (a\<lparr>adm_clients := cl\<rparr>) = basePart a"
  by (simp_all add: basePart_def persistPorts_def emitReloadAudit_def adminAudit_def split: option.splits)

lemma basePart_Reload: "basePart (snd (Reload load a env)) = basePart a"
proof (cases "fst (Reload load a env)")
  case (Inl e)
  then have "Reload load a env = (Inl e, snd (Reload load a env))" by (simp add: prod_eq_iff)
  from Reload_Inl [OF this] show ?thesis by simp
next
  case (Inr summary)
  then have "Reload load a env = (Inr summary, snd (Reload load a env))" by (simp add: prod_eq_iff)
  then obtain cfg where "snd (Reload load a env) =
      emitReloadAudit (persistPorts ((fst (applyReload (env_bind env) a (adm_currentCfg a) (Some cfg)))
      \<lparr>adm_currentCfg := Some cfg\<rparr>) env) env summary"
    by (rule Reload_Inr)
  moreover have "basePart (fst (applyReload (env_bind env) a (adm_currentCfg a) (Some cfg))) = basePart a"
    by (simp add: applyReload_def applyRateLimitChanges_def Let_def case_prod_beta basePart_foldl [OF basePart_new]
        basePart_foldl [OF basePart_old])
  ultimately show ?thesis by simp
qed

text \<open>A request removes agents from the registry or leaves it alone.\<close>
lemma adminServe_base:
  "\<exists>ks. basePart (snd (adminServe io a env r)) = (foldl Unregister (adm_registry a) ks, adm_configPath a)"
proof (cases "rq_path r = ''/reload''")
  case True
  then show ?thesis using basePart_Reload [of "io_load io" a env]
    by (auto simp: adminServe_def handleReload_def Let_def hasPrefix_def case_prod_beta basePart_def
        intro!: exI [of _ "[]"] split: sum.splits)
next
  case False
  have ports: "basePart (snd (handlePorts a env r)) = basePart a" "basePart (snd (handlePortByID a env r)) = basePart a"
    by (auto simp: basePart_def handlePorts_def handlePortByID_def createPort_def updatePort_def deletePort_def adminAudit_def
        persistPorts_def Let_def split: option.splits sum.splits prod.splits router_error.splits)
  have agent: "\<exists>ks. basePart (snd (handleAgentByID f a env r)) = (foldl Unregister (adm_registry a) ks, adm_configPath a)" for f
  proof -
    let ?k = "trimPrefix (rq_path r) ''/agents/''"
    have "basePart (snd (handleAgentByID f a env r)) \<in>
        {(foldl Unregister (adm_registry a) [], adm_configPath a), (foldl Unregister (adm_registry a) [?k], adm_configPath a)}"
      by (simp add: handleAgentByID_def deleteAgent_def adminAudit_def basePart_def Let_def)
    then show ?thesis by blast
  qed
  have same: "\<exists>ks. basePart a = (foldl Unregister (adm_registry a) ks, adm_configPath a)"
    by (intro exI [of _ "[]"]) (simp add: basePart_def)
  show ?thesis using False ports agent same by (simp add: adminServe_def Let_def)
qed

section \<open>Who may be reached through a port\<close>

definition indexGrants :: "PortIndex \<Rightarrow> (int \<times> string) set" where
  "indexGrants idx = (\<lambda>(p, e). (p, pie_CustomerID e)) ` set idx"

text \<open>The ports a configuration file gives to customers.\<close>
definition configGrants :: "config_error + RelayConfig \<Rightarrow> (int \<times> string) set" where
  "configGrants loaded = (case loaded of Inl _ \<Rightarrow> {} | Inr cfg \<Rightarrow> indexGrants (indexPorts (Some cfg)))"

text \<open>The ports an event gives to customers: a creation its port, a reload those of the file.\<close>
definition requestGrants :: "string \<Rightarrow> admin_io \<Rightarrow> http_request \<Rightarrow> (int \<times> string) set" where
  "requestGrants path io r =
     (if rq_path r = ''/reload'' then configGrants (io_load io path)
      else if rq_path r = ''/ports'' \<and> rq_method r = ''POST'' then
        (case decodeCreate (rq_body r) of None \<Rightarrow> {} | Some req \<Rightarrow> {(pcr_Port req, pcr_CustomerID req)})
      else {})"

definition eventGrants :: "string \<Rightarrow> 'c main_event \<Rightarrow> (int \<times> string) set" where
  "eventGrants path e =
     (case e of
        Busy (EvAdmin io env r) \<Rightarrow> requestGrants path io r
      | SigHup load env \<Rightarrow> configGrants (load path)
      | _ \<Rightarrow> {})"

lemma tenantOf_row: "tenantOf a p = map_option pe_customerID (map_of (portMap (adm_router a)) p)"
  by (simp add: tenantOf_def LookupPort_def option.map_comp o_def split: option.splits)

lemma tenantOf_Reload:
  assumes "tenantOf (snd (Reload load a env)) p = Some k"
  shows "tenantOf a p = Some k \<or> (p, k) \<in> configGrants (load (adm_configPath a))"
proof (cases "fst (Reload load a env)")
  case (Inl e)
  then have "Reload load a env = (Inl e, snd (Reload load a env))" by (simp add: prod_eq_iff)
  from Reload_Inl [OF this] show ?thesis using assms by simp
next
  case (Inr summary)
  then have "Reload load a env = (Inr summary, snd (Reload load a env))" by (simp add: prod_eq_iff)
  then obtain cfg idx where c: "load (adm_configPath a) = Inr cfg" "BuildPortIndex (Customers cfg) = Inr idx"
    "adm_configPath a \<noteq> []"
    by (rule Reload_Inr)
  note rt = Reload_state(3) [of a load cfg idx env, OF c(3,1,2)]
  have "map_option pe_customerID (map_of (portMap (adm_router (snd (Reload load a env)))) p) = Some k"
    using assms by (simp add: tenantOf_row)
  then have "map_option pe_customerID (map_of (portMap (adm_router a)) p) = Some k \<or>
      (\<exists>e. map_of (indexPorts (Some cfg)) p = Some e \<and> pie_CustomerID e = k)"
    unfolding rt applyReload_row
    by (auto simp: Let_def newRow_def oldRow_def entryOf_def split: option.splits if_splits)
  then show ?thesis by (force simp: tenantOf_row c(1) configGrants_def indexGrants_def dest: map_of_SomeD)
qed

lemma tenantOf_createPort:
  assumes "tenantOf (snd (createPort a env body)) p = Some k"
  shows "tenantOf a p = Some k \<or> (\<exists>req. decodeCreate body = Some req \<and> pcr_Port req = p \<and> pcr_CustomerID req = k)"
proof -
  obtain resp a' where c: "createPort a env body = (resp, a')" by fastforce
  from c show ?thesis
  proof (cases rule: createPort_cases)
    case 1
    then show ?thesis using assms c by simp
  next
    case (2 req)
    then show ?thesis using assms by (auto simp: c tenantOf_row alist_maps split: if_splits)
  next
    case (3 req)
    then show ?thesis using assms by (auto simp: c tenantOf_row alist_maps createEntry_def split: if_splits)
  qed
qed

text \<open>A request gives a port to a customer only by creating it or by reloading the configuration.\<close>
lemma tenantOf_serve:
  assumes "tenantOf (snd (adminServe io a env r)) p = Some k"
  shows "tenantOf a p = Some k \<or> (p, k) \<in> requestGrants (adm_configPath a) io r"
proof -
  consider "rq_path r = ''/reload''" | "rq_path r = ''/ports''" "rq_method r = ''POST''"
    | "rq_path r \<noteq> ''/reload''" "\<not> (rq_path r = ''/ports'' \<and> rq_method r = ''POST'')" by blast
  then show ?thesis
  proof cases
    case 1
    then have "tenantOf (snd (Reload (io_load io) a env)) p = Some k \<or> tenantOf a p = Some k"
      using assms by (auto simp: adminServe_def handleReload_def Let_def hasPrefix_def case_prod_beta split: sum.splits if_splits)
    then show ?thesis using tenantOf_Reload [of "io_load io" a env p k] 1 by (auto simp: requestGrants_def)
  next
    case 2
    then have "tenantOf (snd (createPort a env (rq_body r))) p = Some k"
      using assms by (simp add: adminServe_def handlePorts_def Let_def)
    from tenantOf_createPort [OF this] show ?thesis using 2 by (auto simp: requestGrants_def)
  next
    case 3
    have "tenantOf (snd (adminServe io a env r)) p \<in> {None, tenantOf a p}"
      using 3 handlePortByID_tenant [of a env r p]
      by (simp add: adminServe_def Let_def handlePorts_def handleAgentByID_def)
    then show ?thesis using assms by auto
  qed
qed

section \<open>Invariants of the process\<close>

text \<open>The registry and the connections that have arrived: each customer's connection is genuine, and
  a stored session is some customer's or closed.\<close>
definition registry_ok :: "MemoryRegistry \<Rightarrow> agent_conn list \<Rightarrow> bool" where
  "registry_ok reg arrived \<longleftrightarrow> genuine_inv (reg, arrived) \<and> noLeak reg \<and> customerLimits reg = []"

lemma registry_ok_exec:
  assumes "registry_ok reg arrived"
  shows "registry_ok (fst (relay_exec sha l (reg, arrived) op)) (snd (relay_exec sha l (reg, arrived) op))"
  using assms genuine_inv_exec [of "(reg, arrived)" sha l op] noLeak_exec [of "(reg, arrived)" sha l op]
  by (simp add: registry_ok_def)

lemma registry_ok_Unregister:
  "registry_ok reg arrived \<Longrightarrow> registry_ok (foldl Unregister reg ks) arrived"
proof (induction ks arbitrary: reg)
  case (Cons k ks)
  from registry_ok_exec [OF Cons.prems, where op = "Remove k"] have "registry_ok (Unregister reg k) arrived"
    by (simp add: relay_exec_def)
  then show ?case using Cons.IH by simp
qed simp

lemma registry_ok_onConn:
  assumes "registry_ok reg arrived"
    and "\<And>x. map_of (conns reg) c = Some x \<Longrightarrow> lc_customerID (g x) = lc_customerID x \<and> (connClosed x \<longrightarrow> connClosed (g x))"
  shows "registry_ok (onConn reg c g) arrived"
proof -
  have "\<exists>y. map_of (conns (onConn reg c g)) d = Some y \<and> lc_customerID y = lc_customerID x"
    if "map_of (conns reg) d = Some x" for d x
    using that assms(2) by (auto simp: conns_onConn)
  then have "genuine_inv (onConn reg c g, arrived)"
    using assms(1) unfolding registry_ok_def genuine_inv_def owner_inv_def fst_conv snd_conv onConn_fields by metis
  moreover have "noLeak (onConn reg c g)"
    using assms by (auto simp: registry_ok_def noLeak_def conns_onConn split: if_splits)
  ultimately show ?thesis using assms(1) by (simp add: registry_ok_def)
qed

text \<open>A route leaves the registry alone or has one session try to open one stream.\<close>
lemma Route_begin_session_step:
  assumes "Route_begin rt reg k port = (res, rt', reg')"
  obtains "reg' = reg"
  | c conn payload where "map_of (conns reg) c = Some conn"
    "reg' = onConn reg c (\<lambda>x. x\<lparr>lc_mux := mux_exec (lc_mux conn) (ActOpen payload)\<rparr>)"
proof (cases "reg' = reg")
  case False
  then obtain c conn where c: "Lookup reg k = Inr c" "map_of (conns reg) c = Some conn"
    using assms by (auto simp: Route_begin_def Let_def split: option.splits sum.splits)
  define payload where "payload = (case map_of (portMap rt) port of None \<Rightarrow> [] | Some e \<Rightarrow> bytes_of_string (pe_service e))"
  obtain r mux' where o: "OpenStream_begin (lc_mux conn) payload = (r, mux')" by fastforce
  have "reg' = onConn reg c (\<lambda>x. x\<lparr>lc_mux := mux'\<rparr>)"
    using assms False c o
    by (auto simp: Route_begin_def Let_def payload_def bytes_of_string_def split: option.splits sum.splits if_splits prod.splits)
  with o c(2) show ?thesis by (intro that(2) [of c conn payload]) (simp_all add: mux_exec_def)
qed (rule that(1))

lemma registry_ok_Route:
  assumes "registry_ok reg arrived" "Route_begin rt reg k port = (res, rt', reg')"
  shows "registry_ok reg' arrived"
  using assms(2)
proof (cases rule: Route_begin_session_step)
  case 1
  then show ?thesis using assms(1) by simp
next
  case (2 c conn payload)
  then show ?thesis using closed_stays [of "lc_mux conn" "ActOpen payload"]
    by (auto simp: connClosed_def intro!: registry_ok_onConn [OF assms(1)])
qed

lemma Route_begin_table: "Route_begin rt reg k port = (res, rt', reg') \<Longrightarrow> portMap rt' = portMap rt"
  by (auto simp: Route_begin_def Let_def split: option.splits sum.splits if_splits prod.splits)

lemma admitClient_table:
  "admitClient nl al cl rt remote port now = (out, cl', rt') \<Longrightarrow> portMap rt' = portMap rt"
  "admitClient nl al cl rt remote port now = (Inr k, cl', rt') \<Longrightarrow> map_option fst (LookupPort rt port) = Some k"
  by (auto simp: admitClient_def Let_def split: option.splits prod.splits if_splits)

text \<open>Besides, every port and every admitted client belongs to a customer that was given the port.\<close>
definition process_inv :: "string \<Rightarrow> (int \<times> string) set \<Rightarrow> ('l, 'c) relay_process \<Rightarrow> bool" where
  "process_inv path G p \<longleftrightarrow>
     registry_ok (adm_registry (rp_admin p)) (rp_arrived p) \<and> adm_configPath (rp_admin p) = path \<and>
     (\<forall>q k. tenantOf (rp_admin p) q = Some k \<longrightarrow> (q, k) \<in> G) \<and> (\<forall>k q. (k, q) \<in> set (rp_waiting p) \<longrightarrow> (q, k) \<in> G)"

lemma process_inv_more:
  "process_inv path G p \<Longrightarrow> process_inv path (G \<union> H) p"
  by (auto simp: process_inv_def)

lemma process_inv_same:
  assumes "process_inv path G p" "adm_registry (rp_admin p') = adm_registry (rp_admin p)" "rp_arrived p' = rp_arrived p"
    "adm_configPath (rp_admin p') = adm_configPath (rp_admin p)" "portMap (adm_router (rp_admin p')) = portMap (adm_router (rp_admin p))"
    "set (rp_waiting p') \<subseteq> set (rp_waiting p)"
  shows "process_inv path G p'"
  using assms by (auto simp: process_inv_def tenantOf_row)

lemma process_inv_admin:
  assumes "process_inv path G p" "basePart a = (foldl Unregister (adm_registry (rp_admin p)) ks, adm_configPath (rp_admin p))"
    "\<And>q k. tenantOf a q = Some k \<Longrightarrow> tenantOf (rp_admin p) q = Some k \<or> (q, k) \<in> H"
  shows "process_inv path (G \<union> H) (p\<lparr>rp_admin := a\<rparr>)"
  using assms registry_ok_Unregister [of "adm_registry (rp_admin p)" "rp_arrived p" ks]
  by (fastforce simp: process_inv_def basePart_def)

lemma process_inv_agent:
  assumes "process_inv path G p" shows "process_inv path G (agentArrives sha p conn now pick)"
proof -
  let ?reg = "adm_registry (rp_admin p)"
  obtain out evs reg' where h: "handleConnection sha (rp_agentListener p) ?reg (length (rp_arrived p)) conn now pick = (out, evs, reg')"
    by (metis prod_cases3)
  have "registry_ok reg' (rp_arrived p @ [conn])"
    using registry_ok_exec [of ?reg "rp_arrived p" sha "rp_agentListener p" "Arrive conn now pick"] assms
    by (simp add: process_inv_def relay_exec_def h)
  then show ?thesis using assms by (simp add: agentArrives_def h emitAll_def process_inv_def tenantOf_row)
qed

lemma process_inv_client:
  assumes "process_inv path G p" shows "process_inv path G (clientArrives nl al p remote port now)"
proof -
  obtain out cl rt where a: "admitClient nl al (adm_clients (rp_admin p)) (adm_router (rp_admin p)) remote port now = (out, cl, rt)"
    by (metis prod_cases3)
  have "(port, k) \<in> G" if "out = Inr k" for k
    using admitClient_table(2) [OF a [unfolded that]] assms by (simp add: process_inv_def tenantOf_def)
  then show ?thesis using assms admitClient_table(1) [OF a]
    by (auto simp: clientArrives_def a process_inv_def tenantOf_row split: sum.splits)
qed

lemma process_inv_route:
  assumes "process_inv path G p" shows "process_inv path G (snd (routeClient p n))"
proof -
  obtain k port where w: "rp_waiting p ! n = (k, port)" by fastforce
  obtain res rt reg where r: "Route_begin (adm_router (rp_admin p)) (adm_registry (rp_admin p)) k port = (res, rt, reg)"
    by (metis prod_cases3)
  have "set (take n (rp_waiting p) @ drop (Suc n) (rp_waiting p)) \<subseteq> set (rp_waiting p)"
    by (auto dest: in_set_takeD in_set_dropD)
  then show ?thesis using assms registry_ok_Route [OF _ r] Route_begin_table [OF r]
    by (auto simp: routeClient_def w r process_inv_def tenantOf_row)
qed

lemma process_inv_event:
  assumes "process_inv path G p" shows "process_inv path (G \<union> eventGrants path (Busy e)) (relayEvent nl al sha p e)"
proof (cases e)
  case (EvSession c act)
  have "registry_ok (onConn (adm_registry (rp_admin p)) c (\<lambda>x. x\<lparr>lc_mux := mux_exec (lc_mux x) act\<rparr>)) (rp_arrived p)"
    using assms closed_stays by (intro registry_ok_onConn) (simp_all add: process_inv_def connClosed_def)
  then show ?thesis using assms by (simp add: EvSession relayEvent_def eventGrants_def process_inv_def tenantOf_row)
next
  case (EvAdmin io env r)
  obtain ks where "basePart (snd (adminServe io (rp_admin p) env r)) =
      (foldl Unregister (adm_registry (rp_admin p)) ks, adm_configPath (rp_admin p))"
    using adminServe_base [of io "rp_admin p" env r] by blast
  moreover have "adm_configPath (rp_admin p) = path" using assms by (simp add: process_inv_def)
  ultimately show ?thesis
    using process_inv_admin [OF assms _ tenantOf_serve] by (simp add: EvAdmin relayEvent_def eventGrants_def)
next
  case (EvTick content pair)
  then show ?thesis using assms
    by (auto simp: relayEvent_def eventGrants_def watchTick_def intro!: process_inv_same [OF assms] split: option.splits prod.splits)
qed (use assms in \<open>simp_all add: relayEvent_def eventGrants_def process_inv_agent process_inv_client process_inv_route
    process_inv_same [OF assms] setRouter_def Route_opened_def Route_done_def\<close>)

lemma process_inv_step:
  assumes "process_inv path G p" shows "process_inv path (G \<union> eventGrants path e) (relayStep nl al sha p e)"
proof (cases e)
  case (SigHup load env)
  have "adm_configPath (rp_admin p) = path" using assms by (simp add: process_inv_def)
  then show ?thesis using process_inv_admin [OF assms, of "snd (Reload load (rp_admin p) env)" "[]"]
      basePart_Reload [of load "rp_admin p" env] tenantOf_Reload [of load "rp_admin p" env]
    by (simp add: SigHup relayStep_def eventGrants_def basePart_def)
qed (use assms process_inv_event [OF assms] in \<open>simp_all add: relayStep_def eventGrants_def\<close>)

lemma process_inv_run:
  assumes "process_inv path G p"
  shows "process_inv path (G \<union> (\<Union>e \<in> set es. eventGrants path e)) (foldl (relayStep nl al sha) p es)"
  using assms
proof (induction es arbitrary: p G)
  case (Cons e es)
  from Cons.IH [OF process_inv_step [OF Cons.prems, of e nl al sha]] show ?case by (simp add: Un_assoc)
qed simp

lemma mapEntry_rows:
  "map_of (portMap (foldl mapEntry rt order)) q = Some x \<Longrightarrow>
   map_of (portMap rt) q = Some x \<or> (\<exists>e. (q, e) \<in> set order \<and> x = entryOf e)"
proof (induction order arbitrary: rt)
  case (Cons pe order)
  from Cons.IH [of "mapEntry rt pe"] Cons.prems show ?case
    by (cases pe) (auto simp: mapEntry_map split: if_splits)
qed simp

lemma process_inv_launch:
  "process_inv path (indexGrants order)
     (relayLaunch (relayBuild path readable d metrics version now cfg idx) cfg now' bind order spawned cf sha certFile)"
proof -
  obtain idx' store where l: "loadSidecar (sc_StorePath (Server cfg)) readable d idx = (idx', store)" by fastforce
  have "registry_ok (Registry_SetMetrics NewMemoryRegistry metrics) []"
    by (simp add: registry_ok_def genuine_inv_def owner_inv_def noLeak_def Registry_SetMetrics_def NewMemoryRegistry_def)
  moreover have "(q, k) \<in> indexGrants order"
    if "map_option pe_customerID (map_of (portMap (foldl mapEntry (Router_SetMetrics NewPortRouter metrics) order)) q) = Some k" for q k
    using that mapEntry_rows [of "Router_SetMetrics NewPortRouter metrics" order q]
    by (force simp: Router_SetMetrics_def NewPortRouter_def entryOf_def indexGrants_def)
  ultimately show ?thesis
    by (simp add: relayLaunch_def relayBuild_def l Let_def emitAll_def putRelay_def relayView_def Relay_Start_def NewRelay_def
        NewAdminServer_def process_inv_def tenantOf_row)
qed

section \<open>The whole program\<close>

text \<open>C3. Whatever has happened since the relay was launched (agents and clients arriving in any order,
  sessions moving on, calls of the admin interface, reloads, certificate rotations), a client of a
  port whose route opens a stream reaches an agent that completed the TLS handshake with a
  certificate in the name of a customer, and that customer was given the port: by the merged index
  at the start, by a creation request or by a configuration file loaded since.  This holds although
  the port table may change between the admission of the client and its route.\<close>
theorem routed_client_owned:
  assumes "p = foldl (relayStep nl al sha) (relayLaunch (relayBuild path readable d metrics version now cfg idx) cfg now'
      bind order spawned cf sha certFile) es"
    "set order = set (fst (loadSidecar (sc_StorePath (Server cfg)) readable d idx))"
    "n < length (rp_waiting p)" "rp_waiting p ! n = (k, port)" "fst (routeClient p n) = Inr (c, i, s)"
  shows "c < length (rp_arrived p) \<and> genuine (rp_arrived p ! c) k \<and>
    (port, k) \<in> indexGrants (fst (loadSidecar (sc_StorePath (Server cfg)) readable d idx)) \<union>
      (\<Union>e \<in> set es. eventGrants path e)"
proof -
  obtain rt reg where r: "Route_begin (adm_router (rp_admin p)) (adm_registry (rp_admin p)) k port = (Inr (c, i, s), rt, reg)"
    using assms(4,5) by (auto simp: routeClient_def split: prod.splits)
  have "indexGrants order = indexGrants (fst (loadSidecar (sc_StorePath (Server cfg)) readable d idx))"
    by (simp add: indexGrants_def assms(2))
  then have inv: "process_inv path (indexGrants (fst (loadSidecar (sc_StorePath (Server cfg)) readable d idx)) \<union>
      (\<Union>e \<in> set es. eventGrants path e)) p"
    unfolding assms(1) using process_inv_run [OF process_inv_launch] by metis
  from Route_begin_opened [OF r] have l: "Lookup (adm_registry (rp_admin p)) k = Inr c" by blast
  then have "map_of (agents (adm_registry (rp_admin p))) k = Some c" by (simp add: Lookup_def split: option.splits)
  then have "c < length (rp_arrived p) \<and> genuine (rp_arrived p ! c) k"
    using inv unfolding process_inv_def registry_ok_def genuine_inv_def owner_inv_def by auto
  moreover have "(k, port) \<in> set (rp_waiting p)" using nth_mem [OF assms(3)] assms(4) by simp
  ultimately show ?thesis using inv unfolding process_inv_def by blast
qed

definition exampleEvents :: "bool main_event list" where
  "exampleEvents = [Busy (EvAgent (exampleAgentConn ''customer-1'') 0 True), Busy (EvAgent (exampleAgentConn ''intruder'') 1 True),
     Busy (EvClient ''192.0.2.7:4242'' 9000 2)]"

definition exampleLaunch :: "(bool, bool) relay_process" where
  "exampleLaunch = relayLaunch (relayBuild ''relay.yaml'' True [] [] ''1'' 0 exampleRelayConfig
     (configuredPorts (Customers exampleRelayConfig))) exampleRelayConfig 0 (\<lambda>_. True)
     (configuredPorts (Customers exampleRelayConfig)) (configuredPorts (Customers exampleRelayConfig))
     \<lparr>cf_paths = \<lparr>tf_CertFile = ''c'', tf_KeyFile = ''k'', tf_CAFile = [], tf_ClientCAFile = ''a'', tf_ServerName = []\<rparr>, currentCert = None\<rparr> (\<lambda>d. d) None"

definition exampleProcess :: "(bool, bool) relay_process" where
  "exampleProcess = foldl (relayStep (\<lambda>_ _. True) (\<lambda>l _. (True, l)) (\<lambda>d. d)) exampleLaunch exampleEvents"

lemmas process_defs = exampleEvents_def relayStep_def relayEvent_def agentArrives_def clientArrives_def admitClient_def
  emitAll_def handleConnection_def exampleAgentConn_def ExtractIdentity_def hasPrefix_def LookupPort_def

lemma exampleLaunch_fields:
  "adm_registry (rp_admin exampleLaunch) = Registry_SetMetrics NewMemoryRegistry []" "rp_arrived exampleLaunch = []"
  "rp_waiting exampleLaunch = []" "rateLimiters (adm_clients (rp_admin exampleLaunch)) = []"
  "rp_agentListener exampleLaunch = NewAgentListener 0 0"
  "map_of (portMap (adm_router (rp_admin exampleLaunch))) 9000 =
     Some \<lparr>pe_customerID = ''customer-1'', pe_service = ''smb'', pe_maxStreams = 5, pe_listenAddr = ''0.0.0.0''\<rparr>"
  by (simp_all add: exampleLaunch_def relayLaunch_def relayBuild_def loadSidecar_def exampleRelayConfig_def Let_def emitAll_def
      putRelay_def relayView_def Relay_Start_def NewRelay_def NewAdminServer_def setRateLimiters_def NewClientListener_def
      configuredPorts_def customerPorts_def portIndexEntry_def mapEntry_def AddPortMapping_def Router_SetMetrics_def
      NewPortRouter_def startEntry_def StartPort_def StartPortWithListener_def)

lemma exampleProcess_waiting: "rp_waiting exampleProcess = [(''customer-1'', 9000)]"
  by (simp add: exampleProcess_def process_defs exampleLaunch_fields Let_def split: prod.splits)

lemma exampleProcess_fields:
  "map_of (portMap (adm_router (rp_admin exampleProcess))) 9000 =
     Some \<lparr>pe_customerID = ''customer-1'', pe_service = ''smb'', pe_maxStreams = 5, pe_listenAddr = ''0.0.0.0''\<rparr>"
  "adm_registry (rp_admin exampleProcess) = connect (Registry_SetMetrics NewMemoryRegistry []) ''customer-1'' 0
     (agentLive (NewAgentListener 0 0) ''customer-1'' (exampleAgentConn ''customer-1'') 0 True)"
  by (simp_all add: exampleProcess_def process_defs exampleLaunch_fields Let_def split: prod.splits)

lemma exampleProcess_route: "fst (routeClient exampleProcess 0) = Inr (0, 1, 0)"
  by (simp add: routeClient_def exampleProcess_waiting exampleProcess_fields Registry_SetMetrics_def agentLive_def
      exampleAgentConn_def SetCertNotAfter_def NewAgentListener_def agentMuxConfig_def route_defs split: prod.splits)

theorem routed_client_owned_witness:
  "fst (routeClient exampleProcess 0) = Inr (0, 1, 0) \<and> genuine (rp_arrived exampleProcess ! 0) ''customer-1''"
proof -
  have "set (configuredPorts (Customers exampleRelayConfig)) = set (fst (loadSidecar (sc_StorePath (Server exampleRelayConfig))
      True [] (configuredPorts (Customers exampleRelayConfig))))"
    by (simp add: loadSidecar_def exampleRelayConfig_def)
  moreover have "0 < length (rp_waiting exampleProcess)" "rp_waiting exampleProcess ! 0 = (''customer-1'', 9000)"
    by (simp_all add: exampleProcess_waiting)
  ultimately show ?thesis
    using routed_client_owned [OF exampleProcess_def [unfolded exampleLaunch_def] _ _ _ exampleProcess_route]
      exampleProcess_route by blast
qed

text \<open>The loop is left with a process reached by the events it handled.\<close>
lemma waitLoop_reaches:
  "waitLoop nl al sha p es = Some q \<Longrightarrow> \<exists>pre. q = foldl (relayStep nl al sha) p pre"
proof (induction es arbitrary: p)
  case (Cons e es)
  show ?case
  proof (cases e)
    case (Busy b)
    with Cons.prems have "waitLoop nl al sha (relayStep nl al sha p e) es = Some q" by simp
    then obtain pre where "q = foldl (relayStep nl al sha) (relayStep nl al sha p e) pre" using Cons.IH by blast
    then show ?thesis by (metis foldl_Cons)
  next
    case (SigHup load env)
    with Cons.prems have "waitLoop nl al sha (relayStep nl al sha p e) es = Some q" by simp
    then obtain pre where "q = foldl (relayStep nl al sha) (relayStep nl al sha p e) pre" using Cons.IH by blast
    then show ?thesis by (metis foldl_Cons)
  qed (use Cons.prems in \<open>auto intro: exI [of _ "[]"]\<close>)
qed simp

lemma openLns_cancel: "openLns (cancelPorts cl) = {}"
  unfolding cancelPorts_def openLns_foldl_closeLn by (force simp: openLns_def dest: map_of_SomeD)

lemma openLns_Stop_subset: "openLns (ClientListener_Stop cl) \<subseteq> openLns cl"
  using openLns_foldl_closeLn [of cl "map snd (listeners cl)"] by (simp add: ClientListener_Stop_def openLns_def)

text \<open>C20. When the wait loop is left, on a signal or because the server returned, the shutdown removes
  every agent, closes every session that was ever stored, replaced ones included, and leaves no
  listening socket open, whatever ports were opened, reopened and closed while the relay ran.\<close>
theorem relay_shutdown_releases:
  assumes "waitLoop nl al sha (relayLaunch (relayBuild path readable d metrics version now cfg idx) cfg now'
      bind order spawned cf sha certFile) es = Some p"
  shows "(\<forall>k. Lookup (adm_registry (rp_admin (relayShutdown p))) k = Inl (ErrAgentNotFound k)) \<and>
    (\<forall>c x. map_of (conns (adm_registry (rp_admin (relayShutdown p)))) c = Some x \<longrightarrow> connClosed x) \<and>
    openLns (adm_clients (rp_admin (relayShutdown p))) = {} \<and> rp_cancelled (relayShutdown p)"
proof -
  let ?reg = "adm_registry (rp_admin p)"
  let ?ids = "map ai_CustomerID (ListConnectedAgents ?reg)"
  from waitLoop_reaches [OF assms] obtain pre where p: "p = foldl (relayStep nl al sha)
      (relayLaunch (relayBuild path readable d metrics version now cfg idx) cfg now' bind order spawned cf sha certFile) pre"
    by blast
  have ok: "registry_ok ?reg (rp_arrived p)"
    using process_inv_run [OF process_inv_launch] unfolding p process_inv_def by blast
  then have inv: "owner_inv ?reg (length (rp_arrived p))" "noLeak ?reg"
    by (simp_all add: registry_ok_def genuine_inv_def)
  have s: "adm_registry (rp_admin (relayShutdown p)) = foldl Unregister (foldl sendGoAway ?reg ?ids) ?ids"
    "adm_clients (rp_admin (relayShutdown p)) = ClientListener_Stop (cancelPorts (adm_clients (rp_admin p)))"
    "rp_cancelled (relayShutdown p)"
    by (simp_all add: relayShutdown_def putRelay_def relayView_def Relay_Stop_def NewRelay_def Let_def)
  from stop_closes_all [OF inv s(1)] openLns_Stop_subset [of "cancelPorts (adm_clients (rp_admin p))"] openLns_cancel
  show ?thesis unfolding s(2) using s(3) by blast
qed

theorem relay_shutdown_releases_witness:
  "waitLoop (\<lambda>_ _. True) (\<lambda>l _. (True, l)) (\<lambda>d. d) exampleLaunch (exampleEvents @ [SigTerm]) = Some exampleProcess \<and>
   Lookup (adm_registry (rp_admin exampleProcess)) ''customer-1'' = Inr 0 \<and>
   Lookup (adm_registry (rp_admin (relayShutdown exampleProcess))) ''customer-1'' = Inl (ErrAgentNotFound ''customer-1'') \<and>
   openLns (adm_clients (rp_admin (relayShutdown exampleProcess))) = {}"
proof -
  have w: "waitLoop (\<lambda>_ _. True) (\<lambda>l _. (True, l)) (\<lambda>d. d) exampleLaunch (exampleEvents @ [SigTerm]) = Some exampleProcess"
    by (simp add: exampleEvents_def exampleProcess_def)
  moreover have "Lookup (adm_registry (rp_admin exampleProcess)) ''customer-1'' = Inr 0"
    using exampleProcess_route by (auto simp: routeClient_def exampleProcess_waiting split: prod.splits elim!: Route_begin_opened)
  ultimately show ?thesis using relay_shutdown_releases [OF w [unfolded exampleLaunch_def]] by blast
qed

section \<open>Certificate rotation in the running relay\<close>

text \<open>What the watcher saw in a run, in order.\<close>
definition ticksOf :: "'c main_event list \<Rightarrow> (bytes option \<times> 'c option) list" where
  "ticksOf es = List.map_filter (\<lambda>e. case e of Busy (EvTick content pair) \<Rightarrow> Some (content, pair) | _ \<Rightarrow> None) es"

lemma relayStep_tls:
  "\<nexists>content pair. e = Busy (EvTick content pair) \<Longrightarrow>
   rp_tls (relayStep nl al sha p e) = rp_tls p \<and> rp_fingerprint (relayStep nl al sha p e) = rp_fingerprint p"
  by (auto simp: relayStep_def relayEvent_def agentArrives_def emitAll_def clientArrives_def routeClient_def setRouter_def
      split: main_event.splits relay_event.splits prod.splits)

lemma relay_watches:
  assumes "rp_fingerprint p = Some fp"
  shows "(\<exists>fp'. rp_fingerprint (foldl (relayStep nl al sha) p es) = Some fp' \<and>
    watch_run sha (fp, rp_tls p) (ticksOf es) = (fp', rp_tls (foldl (relayStep nl al sha) p es)))"
  using assms
proof (induction es arbitrary: p fp)
  case (Cons e es)
  show ?case
  proof (cases "\<exists>content pair. e = Busy (EvTick content pair)")
    case True
    then obtain content pair where e: "e = Busy (EvTick content pair)" by blast
    obtain fp1 cf1 where w: "watch_run sha (fp, rp_tls p) [(content, pair)] = (fp1, cf1)" by fastforce
    have p: "relayStep nl al sha p e = p\<lparr>rp_fingerprint := Some fp1, rp_tls := cf1\<rparr>"
      using Cons.prems w by (simp add: e relayStep_def relayEvent_def watchTick_def)
    have "watch_run sha (fp, rp_tls p) (ticksOf (e # es)) = watch_run sha (fp1, cf1) (ticksOf es)"
      using w by (simp add: e ticksOf_def List.map_filter_simps split: prod.splits option.splits)
    with Cons.IH [of "relayStep nl al sha p e" fp1] show ?thesis by (simp add: p)
  next
    case False
    then have "ticksOf (e # es) = ticksOf es"
      by (auto simp: ticksOf_def List.map_filter_simps split: main_event.splits relay_event.splits)
    moreover have "rp_tls (relayStep nl al sha p e) = rp_tls p" "rp_fingerprint (relayStep nl al sha p e) = Some fp"
      using relayStep_tls [OF False, of nl al sha p] Cons.prems by simp_all
    ultimately show ?thesis using Cons.IH [of "relayStep nl al sha p e" fp] by simp
  qed
qed (simp add: ticksOf_def List.map_filter_simps)

text \<open>C27. Whatever else the relay does meanwhile, the certificate it serves is the one that comparing whole
  files at each look of the watcher would have adopted, as long as the hash does not collide on the
  contents seen.\<close>
theorem certificate_follows_file:
  assumes "p = foldl (relayStep nl al sha) (relayLaunch (relayBuild path readable d metrics version now cfg idx) cfg now'
      bind order spawned cf sha (Some d0)) es"
    "inj_on sha ({d0} \<union> {x. Some x \<in> fst ` set (ticksOf es)})"
  shows "GetCertificate (rp_tls p) = snd (adopted (d0, GetCertificate cf) (ticksOf es))"
proof -
  let ?p0 = "relayLaunch (relayBuild path readable d metrics version now cfg idx) cfg now' bind order spawned cf sha (Some d0)"
  have p0: "rp_fingerprint ?p0 = Some (hexEncode (sha d0))" "rp_tls ?p0 = cf"
    by (simp_all add: relayLaunch_def Let_def emitAll_def putRelay_def Watch_begin_def certFingerprint_def)
  from relay_watches [OF p0(1), of nl al sha es] watch_run_adopted [OF assms(2), of d0 "ticksOf es" cf] show ?thesis
    by (force simp: p0(2) assms(1) GetCertificate_def)
qed

theorem certificate_follows_file_witness:
  "GetCertificate (rp_tls (foldl (relayStep (\<lambda>_ _. True) (\<lambda>l _. (True, l)) (\<lambda>d. d))
     (relayLaunch (relayBuild ''relay.yaml'' True [] [] ''1'' 0 exampleRelayConfig []) exampleRelayConfig 0 (\<lambda>_. True) [] []
        (NewConfigurator exampleFiles) (\<lambda>d. d) (Some [1]))
     [Busy (EvTick (Some [2]) None), Busy (EvTick (Some [2]) (Some ''new'')), SigTerm])) = Some ''new''"
  using certificate_follows_file [OF refl, of "\<lambda>d. d" "[1]" "[Busy (EvTick (Some [2]) None), Busy (EvTick (Some [2]) (Some ''new'')), SigTerm]"
      "\<lambda>_ _. True" "\<lambda>l _. (True, l)" "''relay.yaml''" True "[]" "[]" "''1''" 0 exampleRelayConfig "[]" 0 "\<lambda>_. True" "[]" "[]"
      "NewConfigurator exampleFiles"]
  by (simp add: ticksOf_def List.map_filter_simps)

section \<open>A port rebound between admission and route\<close>

text \<open>\<^verbatim>\<open>Route\<close> takes the customer from the admission but reads the port's row again for the service.  If an
  operator deletes the port and creates it for another customer in between, the stream goes to the
  first customer's agent and asks for the second customer's service.\<close>
definition rebindEvents :: "bool main_event list" where
  "rebindEvents =
     [Busy (EvAdmin exampleIO (exampleEnv (\<lambda>_. True)) \<lparr>rq_method = ''DELETE'', rq_path = ''/ports/9000'', rq_body = None\<rparr>),
      Busy (EvAdmin exampleIO (exampleEnv (\<lambda>_. True))
        \<lparr>rq_method = ''POST'', rq_path = ''/ports'', rq_body = createBody 9000 ''customer-2'' ''http''\<rparr>)]"

definition reboundProcess :: "(bool, bool) relay_process" where
  "reboundProcess = foldl (relayStep (\<lambda>_ _. True) (\<lambda>l _. (True, l)) (\<lambda>d. d)) exampleProcess rebindEvents"

lemma reboundProcess_fields:
  "map_of (portMap (adm_router (rp_admin reboundProcess))) 9000 =
     Some \<lparr>pe_customerID = ''customer-2'', pe_service = ''http'', pe_maxStreams = 0, pe_listenAddr = ''0.0.0.0''\<rparr>"
  "adm_registry (rp_admin reboundProcess) = adm_registry (rp_admin exampleProcess)"
  "rp_waiting reboundProcess = rp_waiting exampleProcess"
proof -
  have dec: "decodeCreate (createBody 9000 k sv) =
     Some \<lparr>pcr_Port = 9000, pcr_CustomerID = k, pcr_Service = sv, pcr_MaxStreams = 0, pcr_ListenAddr = []\<rparr>" for k sv
    by (rule decode_createBody) (simp add: int64_def)
  have at: "Atoi (trimPrefix ''/ports/9000'' ''/ports/'') = Some 9000" by code_simp
  note run = reboundProcess_def rebindEvents_def relayStep_def relayEvent_def adminServe_def handlePorts_def handlePortByID_def
    hasPrefix_def at dec deletePort_def createPort_def createInvalid_def createListen_def Let_def StartPort_def
    AddPortMapping_def RemovePortMapping_def exampleEnv_def LookupPort_def adminAudit_def persistPorts_def
    exampleProcess_fields alist_maps
  show "map_of (portMap (adm_router (rp_admin reboundProcess))) 9000 =
     Some \<lparr>pe_customerID = ''customer-2'', pe_service = ''http'', pe_maxStreams = 0, pe_listenAddr = ''0.0.0.0''\<rparr>"
    by (simp add: run split: option.splits)
  show "adm_registry (rp_admin reboundProcess) = adm_registry (rp_admin exampleProcess)"
    by (simp add: run split: option.splits)
  show "rp_waiting reboundProcess = rp_waiting exampleProcess" by (simp add: run)
qed

theorem rebound_port_crosses:
  "\<exists>q conn. routeClient reboundProcess 0 = (Inr (0, 1, 0), q) \<and>
     LookupPort (adm_router (rp_admin reboundProcess)) 9000 = Some (''customer-2'', ''http'') \<and>
     map_of (conns (adm_registry (rp_admin q))) 0 = Some conn \<and> lc_customerID conn = ''customer-1'' \<and>
     wq_data (writeQueue (lc_mux conn)) =
       [\<lparr>Version = 1, Command = CmdStreamOpen, Flags = 0, StreamID = 1, Payload = bytes_of_string ''http''\<rparr>]"
  by (simp add: routeClient_def reboundProcess_fields LookupPort_def exampleProcess_waiting exampleProcess_fields
      Registry_SetMetrics_def agentLive_def exampleAgentConn_def SetCertNotAfter_def NewAgentListener_def agentMuxConfig_def
      route_defs split: prod.splits)

end
