(* ===== verification/Agent_Client.thy ===== *)
theory Agent_Client
  imports Registry Complex_Main
begin

text \<open>
  The agent's connection to the relay: \<^verbatim>\<open>src/pkg/agent/backoff.go\<close> and \<^verbatim>\<open>client_impl.go\<close>.  Floating
  point is exact rational arithmetic; a random fraction, the outcome of a dial and the clock
  are arguments.  All sessions a client ever made are kept in a list so that one it has lost
  sight of can be seen.
\<close>

section \<open>Backoff\<close>

record BackoffConfig =
  InitialInterval :: int
  MaxInterval :: int
  Multiplier :: rat
  JitterFraction :: rat

definition DefaultBackoffConfig :: BackoffConfig where
  "DefaultBackoffConfig =
     \<lparr>InitialInterval = 5 * 10 ^ 9, MaxInterval = 5 * 60 * 10 ^ 9, Multiplier = 2, JitterFraction = 1 / 2\<rparr>"

text \<open>Conversion of a float to an integer drops the fraction.\<close>
definition truncRat :: "rat \<Rightarrow> int" where
  "truncRat x = (if 0 \<le> x then \<lfloor>x\<rfloor> else \<lceil>x\<rceil>)"

definition ComputeBackoff :: "BackoffConfig \<Rightarrow> nat \<Rightarrow> rat \<Rightarrow> int" where
  "ComputeBackoff cfg attempt random =
     (let base0 = of_int (InitialInterval cfg) * Multiplier cfg ^ attempt;
          base = (if base0 > of_int (MaxInterval cfg) then of_int (MaxInterval cfg) else base0)
      in if JitterFraction cfg \<le> 0 then truncRat base
         else truncRat (base + random * base * JitterFraction cfg))"

definition backoffOK :: "BackoffConfig \<Rightarrow> bool" where
  "backoffOK cfg \<longleftrightarrow> 0 \<le> InitialInterval cfg \<and> 0 \<le> MaxInterval cfg \<and> 0 \<le> Multiplier cfg"

text \<open>For a configuration without negative values the delay of every attempt lies between the
  capped exponential base and that base enlarged by the jitter fraction, rounded down, and so
  never exceeds the maximum interval by more than the jitter; without jitter and with a
  multiplier of at least one, delays never shrink from one attempt to the next.\<close>
theorem backoff_bounds:
  assumes "backoffOK cfg" "0 \<le> random" "random \<le> 1"
  shows "let base = min (of_int (InitialInterval cfg) * Multiplier cfg ^ n) (of_int (MaxInterval cfg) :: rat);
             jitter = max 0 (JitterFraction cfg)
    in \<lfloor>base\<rfloor> \<le> ComputeBackoff cfg n random \<and> of_int (ComputeBackoff cfg n random) \<le> base * (1 + jitter) \<and>
       of_int (ComputeBackoff cfg n random) \<le> of_int (MaxInterval cfg) * (1 + jitter) \<and>
       (JitterFraction cfg \<le> 0 \<and> 1 \<le> Multiplier cfg \<longrightarrow> ComputeBackoff cfg n random \<le> ComputeBackoff cfg (Suc n) random)"
proof -
  define base where "base = (\<lambda>n. min (of_int (InitialInterval cfg) * Multiplier cfg ^ n) (of_int (MaxInterval cfg) :: rat))"
  define jitter where "jitter = max 0 (JitterFraction cfg)"
  define x where "x = base n + random * base n * jitter"
  have b0: "0 \<le> base m" "base m \<le> of_int (MaxInterval cfg)" for m
    using assms(1) by (auto simp: base_def backoffOK_def)
  have j0: "0 \<le> jitter" by (simp add: jitter_def)
  have c: "ComputeBackoff cfg m random = \<lfloor>base m + random * base m * jitter\<rfloor>" for m
    using assms(2) b0(1) [of m] j0
    by (auto simp: ComputeBackoff_def Let_def truncRat_def base_def jitter_def min_def max_def)
  have "random * base n * jitter \<le> 1 * base n * jitter"
    using assms(3) b0(1) j0 by (intro mult_right_mono) simp_all
  then have hi: "x \<le> base n * (1 + jitter)" by (simp add: x_def algebra_simps)
  have lo: "base n \<le> x" using assms(2) b0(1) j0 by (simp add: x_def)
  have "of_int (ComputeBackoff cfg n random) \<le> x" using c [of n] by (simp add: x_def)
  then have le: "of_int (ComputeBackoff cfg n random) \<le> base n * (1 + jitter)" using hi by linarith
  also have "\<dots> \<le> of_int (MaxInterval cfg) * (1 + jitter)" using b0(2) j0 by (intro mult_right_mono) simp_all
  finally have top: "of_int (ComputeBackoff cfg n random) \<le> of_int (MaxInterval cfg) * (1 + jitter)" .
  have "base n \<le> base (Suc n)" if "1 \<le> Multiplier cfg"
  proof -
    have "Multiplier cfg ^ n \<le> Multiplier cfg ^ Suc n" using that by (intro power_increasing) simp_all
    then have "of_int (InitialInterval cfg) * Multiplier cfg ^ n \<le> of_int (InitialInterval cfg) * Multiplier cfg ^ Suc n"
      using assms(1) by (intro mult_left_mono) (simp_all add: backoffOK_def)
    then show ?thesis by (simp add: base_def min_def)
  qed
  then have "JitterFraction cfg \<le> 0 \<and> 1 \<le> Multiplier cfg \<longrightarrow> ComputeBackoff cfg n random \<le> ComputeBackoff cfg (Suc n) random"
    by (auto simp: c jitter_def intro: floor_mono)
  moreover have "\<lfloor>base n\<rfloor> \<le> ComputeBackoff cfg n random" using lo c [of n] by (simp add: x_def floor_mono)
  ultimately show ?thesis using le top unfolding Let_def base_def jitter_def by blast
qed

theorem backoff_bounds_witness:
  "of_int (ComputeBackoff DefaultBackoffConfig 9 (1 / 3)) \<le> (450 * 10 ^ 9 :: rat) \<and>
   300 * 10 ^ 9 \<le> ComputeBackoff DefaultBackoffConfig 9 (1 / 3)"
proof -
  have ok: "backoffOK DefaultBackoffConfig" by (simp add: backoffOK_def DefaultBackoffConfig_def)
  show ?thesis
    using backoff_bounds [OF ok, of "1 / 3" 9] by (simp add: Let_def DefaultBackoffConfig_def min_def)
qed

section \<open>The client\<close>

record ClientConfig =
  cl_RelayAddr :: string
  cl_ReconnectBackoff :: int
  cl_MaxReconnectAttempts :: int
  cl_HeartbeatInterval :: int
  cl_HeartbeatTimeout :: int
  cl_Services :: "string list"

record ClientStatus =
  cs_Connected :: bool
  cs_RelayAddr :: string
  cs_CustomerID :: string
  cs_ConnectedAt :: int
  cs_StreamCount :: int
  cs_LastHeartbeat :: int

record TunnelClient =
  tc_config :: ClientConfig
  tc_backoff :: BackoffConfig
  tc_sessions :: "MuxSession list"
  tc_mux :: "nat option"
  tc_status :: ClientStatus
  tc_heartbeat :: bool
  tc_closed :: bool
  tc_disconnect :: bool

datatype client_error = ErrClientClosed | ErrDial | ErrReconnectCtx | ErrExhausted nat

definition NewClient :: "ClientConfig \<Rightarrow> BackoffConfig option \<Rightarrow> TunnelClient" where
  "NewClient cfg withBackoff =
     \<lparr>tc_config = cfg,
      tc_backoff =
        (case withBackoff of
           Some b \<Rightarrow> b
         | None \<Rightarrow> if cl_ReconnectBackoff cfg > 0
                   then DefaultBackoffConfig\<lparr>InitialInterval := cl_ReconnectBackoff cfg\<rparr>
                   else DefaultBackoffConfig),
      tc_sessions = [], tc_mux = None,
      tc_status = \<lparr>cs_Connected = False, cs_RelayAddr = cl_RelayAddr cfg, cs_CustomerID = [],
                   cs_ConnectedAt = 0, cs_StreamCount = 0, cs_LastHeartbeat = 0\<rparr>,
      tc_heartbeat = False, tc_closed = False, tc_disconnect = False\<rparr>"

text \<open>\<^verbatim>\<open>Connect\<close> in two parts: the check under the lock, and what follows the dial.\<close>
definition Connect_begin :: "TunnelClient \<Rightarrow> client_error option" where
  "Connect_begin c = (if tc_closed c then Some ErrClientClosed else None)"

definition agentSession :: "ClientConfig \<Rightarrow> Writer \<Rightarrow> MuxSession" where
  "agentSession cfg w =
     (let mux = NewMuxSession w RoleAgent
            \<lparr>MaxConcurrentStreams = 50, InitialStreamWindow = 262144, ConnectionWindow = 1048576,
             PingInterval = cl_HeartbeatInterval cfg, PingTimeout = cl_HeartbeatTimeout cfg, IdleTimeout = 60 * 10 ^ 9\<rparr>
      in if cl_Services cfg \<noteq> [] then snd (SendServiceList mux (cl_Services cfg)) else mux)"

definition Connect_finish :: "TunnelClient \<Rightarrow> Writer option \<Rightarrow> int \<Rightarrow> client_error option \<times> TunnelClient" where
  "Connect_finish c dialed now =
     (case dialed of
        None \<Rightarrow> (Some ErrDial, c)
      | Some w \<Rightarrow>
          (None, c\<lparr>tc_sessions := tc_sessions c @ [agentSession (tc_config c) w],
                   tc_mux := Some (length (tc_sessions c)),
                   tc_status := (tc_status c)\<lparr>cs_Connected := True, cs_ConnectedAt := now\<rparr>, tc_heartbeat := True\<rparr>))"

definition Client_Connect :: "TunnelClient \<Rightarrow> Writer option \<Rightarrow> int \<Rightarrow> client_error option \<times> TunnelClient" where
  "Client_Connect c dialed now =
     (case Connect_begin c of Some e \<Rightarrow> (Some e, c) | None \<Rightarrow> Connect_finish c dialed now)"

definition teardown :: "TunnelClient \<Rightarrow> TunnelClient" where
  "teardown c =
     (let c1 = c\<lparr>tc_heartbeat := False, tc_mux := None, tc_status := (tc_status c)\<lparr>cs_Connected := False\<rparr>\<rparr>
      in (case tc_mux c of
            None \<Rightarrow> c1
          | Some i \<Rightarrow>
              if i < length (tc_sessions c)
              then c1\<lparr>tc_sessions := (tc_sessions c)[i := Mux_Close (GoAway (tc_sessions c ! i) 0)]\<rparr> else c1))"

definition Client_Close :: "TunnelClient \<Rightarrow> TunnelClient" where
  "Client_Close c = (if tc_closed c then c else teardown (c\<lparr>tc_closed := True\<rparr>))"

definition Client_Status :: "TunnelClient \<Rightarrow> ClientStatus" where
  "Client_Status c =
     (case tc_mux c of
        None \<Rightarrow> tc_status c
      | Some i \<Rightarrow> (tc_status c)\<lparr>cs_StreamCount := NumStreams (tc_sessions c ! i)\<rparr>)"

text \<open>The heartbeat goroutine of one connection.  It does not run at all without an interval; a step
  is the cancellation of its context or a tick with the outcome of the ping, and the flag says
  whether the loop goes on.\<close>
datatype heartbeat_event = HbCancelled | HbTick bool int

definition runHeartbeat :: "TunnelClient \<Rightarrow> heartbeat_event \<Rightarrow> TunnelClient \<times> bool" where
  "runHeartbeat c ev =
     (if cl_HeartbeatInterval (tc_config c) \<le> 0 then (c, False)
      else
        (case ev of
           HbCancelled \<Rightarrow> (c, False)
         | HbTick pingOK now \<Rightarrow>
             (case tc_mux c of
                None \<Rightarrow> (c, False)
              | Some _ \<Rightarrow>
                  if \<not> pingOK then (c\<lparr>tc_disconnect := True\<rparr>, False)
                  else (c\<lparr>tc_status := (tc_status c)\<lparr>cs_LastHeartbeat := now\<rparr>\<rparr>, True))))"

record attempt_env =
  at_ctxDone :: bool
  at_random :: rat
  at_dial :: "Writer option"
  at_now :: int

text \<open>The attempts of \<^verbatim>\<open>Reconnect\<close>: the result, the delays waited for and the client.\<close>
fun reconnectLoop ::
  "(nat \<Rightarrow> attempt_env) \<Rightarrow> nat \<Rightarrow> nat \<Rightarrow> nat \<Rightarrow> TunnelClient \<Rightarrow> client_error option \<times> int list \<times> TunnelClient" where
  "reconnectLoop env maxAttempts attempt 0 c = (Some (ErrExhausted maxAttempts), [], c)"
| "reconnectLoop env maxAttempts attempt (Suc left) c =
     (let e = env attempt; delay = ComputeBackoff (tc_backoff c) attempt (at_random e) in
      if at_ctxDone e then (Some ErrReconnectCtx, [delay], c)
      else
        (case Client_Connect c (at_dial e) (at_now e) of
           (None, c') \<Rightarrow> (None, [delay], c')
         | (Some _, c') \<Rightarrow>
             (let (r, ds, c'') = reconnectLoop env maxAttempts (attempt + 1) left c' in (r, delay # ds, c''))))"

definition maxAttemptsOf :: "TunnelClient \<Rightarrow> nat" where
  "maxAttemptsOf c =
     (if cl_MaxReconnectAttempts (tc_config c) \<le> 0 then 10 else nat (cl_MaxReconnectAttempts (tc_config c)))"

definition Reconnect :: "(nat \<Rightarrow> attempt_env) \<Rightarrow> TunnelClient \<Rightarrow> client_error option \<times> int list \<times> TunnelClient" where
  "Reconnect env c = (let c1 = teardown c in reconnectLoop env (maxAttemptsOf c1) 0 (maxAttemptsOf c1) c1)"

section \<open>Sessions are not lost\<close>

text \<open>Every session but the current one is closed.\<close>
definition client_inv :: "TunnelClient \<Rightarrow> bool" where
  "client_inv c \<longleftrightarrow>
     (\<forall>i < length (tc_sessions c). tc_mux c = Some i \<or> closeCh (tc_sessions c ! i)) \<and>
     (\<forall>i. tc_mux c = Some i \<longrightarrow> i < length (tc_sessions c)) \<and>
     (tc_closed c \<longrightarrow> tc_mux c = None) \<and> cs_Connected (tc_status c) = (tc_mux c \<noteq> None)"

lemma client_inv_New: "client_inv (NewClient cfg b)"
  by (simp add: client_inv_def NewClient_def)

lemma client_inv_teardown:
  assumes "client_inv c" shows "client_inv (teardown c) \<and> tc_mux (teardown c) = None"
  using assms
  by (auto simp: client_inv_def teardown_def Let_def nth_list_update split: option.splits)

lemma teardown_fields [simp]:
  "tc_config (teardown c) = tc_config c" "tc_backoff (teardown c) = tc_backoff c" "tc_closed (teardown c) = tc_closed c"
  "length (tc_sessions (teardown c)) = length (tc_sessions c)" "tc_mux (teardown c) = None"
  by (simp_all add: teardown_def Let_def split: option.splits)

lemma client_inv_Connect:
  assumes "client_inv c" "tc_mux c = None"
  shows "client_inv (snd (Client_Connect c d now))"
    "fst (Client_Connect c d now) \<noteq> None \<Longrightarrow> snd (Client_Connect c d now) = c"
    "fst (Client_Connect c d now) = None \<Longrightarrow> tc_mux (snd (Client_Connect c d now)) = Some (length (tc_sessions c))"
  using assms
  by (auto simp: Client_Connect_def Connect_begin_def Connect_finish_def client_inv_def nth_append split: option.splits)

lemma client_inv_Close: "client_inv c \<Longrightarrow> client_inv (Client_Close c)"
  using client_inv_teardown [of "c\<lparr>tc_closed := True\<rparr>"]
  by (auto simp: Client_Close_def client_inv_def teardown_def Let_def nth_list_update split: option.splits)

lemma client_inv_heartbeat: "client_inv c \<Longrightarrow> client_inv (fst (runHeartbeat c ev))"
  by (auto simp: client_inv_def runHeartbeat_def split: heartbeat_event.splits option.splits)

lemma reconnectLoop_spec:
  assumes "client_inv c" "tc_mux c = None" "reconnectLoop env m n k c = (r, ds, c')"
  shows "client_inv c' \<and> length ds \<le> k \<and>
    (\<forall>i < length ds. ds ! i = ComputeBackoff (tc_backoff c) (n + i) (at_random (env (n + i)))) \<and>
    (r = None \<longleftrightarrow> tc_mux c' \<noteq> None)"
  using assms
proof (induction k arbitrary: c n ds r c')
  case (Suc k)
  let ?e = "env n"
  obtain q c1 where q: "Client_Connect c (at_dial ?e) (at_now ?e) = (q, c1)" by fastforce
  note inv = client_inv_Connect [OF Suc.prems(1,2), of "at_dial ?e" "at_now ?e", unfolded q, simplified]
  show ?case
  proof (cases "at_ctxDone ?e")
    case True
    then show ?thesis using Suc.prems by (auto simp: Let_def)
  next
    case False
    show ?thesis
    proof (cases q)
      case None
      then show ?thesis using Suc.prems(3) False q inv by (auto simp: Let_def)
    next
      case (Some e)
      then have "c1 = c" using inv by simp
      obtain r2 ds2 c2 where rec: "reconnectLoop env m (n + 1) k c = (r2, ds2, c2)" by (metis prod_cases3)
      have res: "r = r2" "c' = c2" "ds = ComputeBackoff (tc_backoff c) n (at_random ?e) # ds2"
        using Suc.prems(3) False q Some rec \<open>c1 = c\<close> by (auto simp: Let_def)
      from Suc.IH [OF Suc.prems(1,2) rec] show ?thesis
        unfolding res by (auto simp: nth_Cons' less_Suc_eq_le)
    qed
  qed
qed simp

text \<open>C23. Reconnecting always ends within the configured number of attempts, waiting before each the
  backoff of its number; it succeeds exactly when the client has a session again; and whatever
  happened before, every session the client has had other than the current one is closed.\<close>
theorem reconnect_bounded:
  assumes "client_inv c" "Reconnect env c = (r, ds, c')"
  shows "length ds \<le> maxAttemptsOf c \<and>
    (\<forall>i < length ds. ds ! i = ComputeBackoff (tc_backoff c) i (at_random (env i))) \<and>
    (r = None \<longleftrightarrow> cs_Connected (tc_status c')) \<and>
    (\<forall>i < length (tc_sessions c'). tc_mux c' = Some i \<or> closeCh (tc_sessions c' ! i))"
proof -
  have inv: "client_inv (teardown c)" "tc_mux (teardown c) = None" using client_inv_teardown [OF assms(1)] by auto
  have "maxAttemptsOf (teardown c) = maxAttemptsOf c" by (simp add: maxAttemptsOf_def)
  with assms(2) have "reconnectLoop env (maxAttemptsOf c) 0 (maxAttemptsOf c) (teardown c) = (r, ds, c')"
    by (simp add: Reconnect_def Let_def)
  from reconnectLoop_spec [OF inv this] show ?thesis by (auto simp: client_inv_def)
qed

definition exampleClient :: TunnelClient where
  "exampleClient = NewClient \<lparr>cl_RelayAddr = ''relay:8443'', cl_ReconnectBackoff = 0, cl_MaxReconnectAttempts = 3,
     cl_HeartbeatInterval = 0, cl_HeartbeatTimeout = 0, cl_Services = []\<rparr> None"

theorem reconnect_bounded_witness:
  "let env = (\<lambda>n. \<lparr>at_ctxDone = False, at_random = 0, at_dial = (if n = 1 then Some \<lparr>written = [], room = None\<rparr> else None),
                   at_now = 5\<rparr>)
   in \<exists>c'. Reconnect env exampleClient = (None, [5 * 10 ^ 9, 10 * 10 ^ 9], c') \<and> cs_Connected (tc_status c')"
proof -
  let ?env = "\<lambda>n. \<lparr>at_ctxDone = False, at_random = 0, at_dial = (if n = 1 then Some \<lparr>written = [], room = None\<rparr> else None),
    at_now = 5\<rparr>"
  have max: "maxAttemptsOf (teardown exampleClient) = Suc (Suc (Suc 0))"
    by (simp add: maxAttemptsOf_def exampleClient_def NewClient_def)
  obtain c' where r: "Reconnect ?env exampleClient = (None, [5 * 10 ^ 9, 10 * 10 ^ 9], c')"
    unfolding Reconnect_def Let_def max
    by (simp add: Let_def exampleClient_def NewClient_def Client_Connect_def Connect_begin_def Connect_finish_def
        ComputeBackoff_def DefaultBackoffConfig_def truncRat_def)
  have "client_inv exampleClient" by (simp add: exampleClient_def client_inv_New)
  from reconnect_bounded [OF this r] r show ?thesis by (auto simp: Let_def)
qed

text \<open>A Close that comes between the check at the start of Connect and the end of its dial leaves
  a closed client holding an open session that nothing will close.\<close>
theorem connect_close_race:
  "let c = exampleClient; w = \<lparr>written = [], room = None\<rparr>;
       c' = snd (Connect_finish (Client_Close c) (Some w) 1)
   in Connect_begin c = None \<and> tc_closed c' \<and> tc_mux c' = Some 0 \<and> \<not> closeCh (tc_sessions c' ! 0) \<and>
      Client_Close c' = c'"
  by (simp add: Let_def exampleClient_def NewClient_def Connect_begin_def Connect_finish_def Client_Close_def teardown_def
      agentSession_def NewMuxSession_def)

end
