(* ===== verification/Agent_Forward.thy ===== *)
theory Agent_Forward
  imports Prelude "HOL-Library.Sublist" "HOL-Library.Multiset"
begin

text \<open>
  One forwarded connection on the agent: \<^verbatim>\<open>src/pkg/agent/forwarder_impl.go\<close> and \<^verbatim>\<open>idleconn.go\<close>.
  \<^verbatim>\<open>Forward\<close> starts two copying goroutines and collects their results from a channel, giving up
  when its context is cancelled or, after the first result, when the linger timer fires.  The
  three run concurrently, so they are one step relation; the read and write results of the two
  ends are chosen by the environment.
\<close>

section \<open>The local connection\<close>

record ServiceForwarderConfig =
  fw_DialTimeout :: int
  fw_IdleTimeout :: int
  fw_BufferSize :: int
  fw_LingerTimeout :: int

definition NewForwarder :: "ServiceForwarderConfig \<Rightarrow> ServiceForwarderConfig" where
  "NewForwarder cfg =
     (let c1 = (if fw_BufferSize cfg \<le> 0 then cfg\<lparr>fw_BufferSize := 32 * 1024\<rparr> else cfg);
          c2 = (if fw_DialTimeout c1 \<le> 0 then c1\<lparr>fw_DialTimeout := 5 * 10 ^ 9\<rparr> else c1)
      in if fw_LingerTimeout c2 \<le> 0 then c2\<lparr>fw_LingerTimeout := 30 * 10 ^ 9\<rparr> else c2)"

text \<open>A TCP socket: the deadline set on both directions and whether it is closed.\<close>
record tcp_conn =
  tcp_deadline :: "int option"
  tcp_writeClosed :: bool
  tcp_closed :: bool

datatype local_conn = RawConn | IdleConn int

definition newIdleConn :: "int \<Rightarrow> local_conn" where
  "newIdleConn timeout = (if timeout \<le> 0 then RawConn else IdleConn timeout)"

text \<open>What precedes a read or write of the wrapped socket: an idle connection moves the deadline,
  which fails on a closed socket.\<close>
definition idleTouch :: "local_conn \<Rightarrow> int \<Rightarrow> tcp_conn \<Rightarrow> tcp_conn option" where
  "idleTouch c now s =
     (case c of
        RawConn \<Rightarrow> Some s
      | IdleConn timeout \<Rightarrow> if tcp_closed s then None else Some (s\<lparr>tcp_deadline := Some (now + timeout)\<rparr>))"

section \<open>The two copies and the collector\<close>

datatype 'e read_outcome = GotData "8 word list" | GotEOF | GotErr 'e

text \<open>A copying goroutine is inside \<^verbatim>\<open>io.CopyBuffer\<close>, has left it with an error or none, or has put
  its filtered result into the channel.\<close>
datatype 'e copying = CopyRuns | CopyEnded "'e option" | CopySent "'e option"

datatype 'e collector =
    WaitFirst | DrainFirst | DrainLast | WaitSecond "'e option" | DrainSecond "'e option"
  | ForwardDone "'e option"

record 'e forward =
  fd_wrap :: local_conn
  fd_local :: tcp_conn
  fd_streamClosed :: bool
  fd_streamReset :: bool
  fd_aborted :: bool
  fd_in :: "'e copying"
  fd_out :: "'e copying"
  fd_done :: "'e option list"
  fd_phase :: "'e collector"
  fd_fromStream :: "8 word list"
  fd_toLocal :: "8 word list"
  fd_fromLocal :: "8 word list"
  fd_toStream :: "8 word list"

datatype forward_error = ErrForwardDial string

text \<open>\<^verbatim>\<open>Forward\<close> up to the start of the goroutines, with the outcome of the dial.\<close>
definition Forward_begin :: "ServiceForwarderConfig \<Rightarrow> string \<Rightarrow> bool \<Rightarrow> forward_error + 'e forward" where
  "Forward_begin cfg target dialed =
     (if \<not> dialed then Inl (ErrForwardDial target)
      else Inr \<lparr>fd_wrap = newIdleConn (fw_IdleTimeout cfg),
                fd_local = \<lparr>tcp_deadline = None, tcp_writeClosed = False, tcp_closed = False\<rparr>,
                fd_streamClosed = False, fd_streamReset = False, fd_aborted = False,
                fd_in = CopyRuns, fd_out = CopyRuns, fd_done = [], fd_phase = WaitFirst,
                fd_fromStream = [], fd_toLocal = [], fd_fromLocal = [], fd_toStream = []\<rparr>)"

definition closeLocal :: "'e forward \<Rightarrow> 'e forward" where
  "closeLocal s = s\<lparr>fd_local := (fd_local s)\<lparr>tcp_closed := True\<rparr>\<rparr>"

definition abort :: "'e forward \<Rightarrow> 'e forward" where
  "abort s = (if fd_aborted s then s else (closeLocal (s\<lparr>fd_aborted := True\<rparr>))\<lparr>fd_streamReset := True\<rparr>)"

definition filterErr :: "'e forward \<Rightarrow> 'e option \<Rightarrow> 'e option" where
  "filterErr s e = (if e = None \<or> fd_aborted s then None else e)"

text \<open>One round of the copy from the stream to the local service: the read, then the write of what
  was read, of which the first \<open>n\<close> bytes get through when it fails with \<open>e\<close>.\<close>
definition copyStreamToLocal ::
  "'e forward \<Rightarrow> int \<Rightarrow> 'e read_outcome \<Rightarrow> (nat \<times> 'e) option \<Rightarrow> 'e forward" where
  "copyStreamToLocal s now r werr =
     (case r of
        GotEOF \<Rightarrow> s\<lparr>fd_in := CopyEnded None\<rparr>
      | GotErr e \<Rightarrow> s\<lparr>fd_in := CopyEnded (Some e)\<rparr>
      | GotData bs \<Rightarrow>
          (let s1 = s\<lparr>fd_fromStream := fd_fromStream s @ bs\<rparr> in
           (case (idleTouch (fd_wrap s) now (fd_local s), werr) of
              (Some sock, None) \<Rightarrow> s1\<lparr>fd_local := sock, fd_toLocal := fd_toLocal s @ bs\<rparr>
            | (Some sock, Some (n, e)) \<Rightarrow>
                s1\<lparr>fd_local := sock, fd_toLocal := fd_toLocal s @ take n bs, fd_in := CopyEnded (Some e)\<rparr>
            | (None, Some (n, e)) \<Rightarrow> s1\<lparr>fd_in := CopyEnded (Some e)\<rparr>
            | (None, None) \<Rightarrow> s)))"

text \<open>One round of the copy from the local service to the stream.\<close>
definition copyLocalToStream ::
  "'e forward \<Rightarrow> int \<Rightarrow> 'e read_outcome \<Rightarrow> (nat \<times> 'e) option \<Rightarrow> 'e forward" where
  "copyLocalToStream s now r werr =
     (let s0 = (case idleTouch (fd_wrap s) now (fd_local s) of Some sock \<Rightarrow> s\<lparr>fd_local := sock\<rparr> | None \<Rightarrow> s) in
      (case r of
         GotEOF \<Rightarrow> s0\<lparr>fd_out := CopyEnded None\<rparr>
       | GotErr e \<Rightarrow> s0\<lparr>fd_out := CopyEnded (Some e)\<rparr>
       | GotData bs \<Rightarrow>
           (let s1 = s0\<lparr>fd_fromLocal := fd_fromLocal s @ bs\<rparr> in
            (case werr of
               None \<Rightarrow> s1\<lparr>fd_toStream := fd_toStream s @ bs\<rparr>
             | Some (n, e) \<Rightarrow> s1\<lparr>fd_toStream := fd_toStream s @ take n bs, fd_out := CopyEnded (Some e)\<rparr>))))"

text \<open>What follows each copy: the half-close of the other end and the report.\<close>
definition finishIn :: "'e forward \<Rightarrow> 'e option \<Rightarrow> 'e forward" where
  "finishIn s e = s\<lparr>fd_local := (fd_local s)\<lparr>tcp_writeClosed := True\<rparr>, fd_in := CopySent (filterErr s e),
     fd_done := fd_done s @ [filterErr s e]\<rparr>"

definition finishOut :: "'e forward \<Rightarrow> 'e option \<Rightarrow> 'e forward" where
  "finishOut s e = s\<lparr>fd_streamClosed := True, fd_out := CopySent (filterErr s e),
     fd_done := fd_done s @ [filterErr s e]\<rparr>"

text \<open>A receive by the collector; the end of \<^verbatim>\<open>Forward\<close> closes the socket.\<close>
definition await_receive :: "'e forward \<Rightarrow> 'e option \<Rightarrow> 'e forward" where
  "await_receive s e =
     (case fd_phase s of
        WaitFirst \<Rightarrow> s\<lparr>fd_phase := WaitSecond e\<rparr>
      | DrainFirst \<Rightarrow> s\<lparr>fd_phase := DrainLast\<rparr>
      | DrainLast \<Rightarrow> closeLocal (s\<lparr>fd_phase := ForwardDone None\<rparr>)
      | WaitSecond first \<Rightarrow> closeLocal (s\<lparr>fd_phase := ForwardDone (if first \<noteq> None then first else e)\<rparr>)
      | DrainSecond first \<Rightarrow> closeLocal (s\<lparr>fd_phase := ForwardDone first\<rparr>)
      | ForwardDone _ \<Rightarrow> s)"

text \<open>The other cases of the \<^verbatim>\<open>select\<close> in \<^verbatim>\<open>waitDirection\<close>: cancellation, or the linger timer, which
  the first wait does not have.\<close>
definition await_giveUp :: "'e forward \<Rightarrow> 'e forward" where
  "await_giveUp s =
     (case fd_phase s of
        WaitFirst \<Rightarrow> abort (s\<lparr>fd_phase := DrainFirst\<rparr>)
      | WaitSecond first \<Rightarrow> abort (s\<lparr>fd_phase := DrainSecond first\<rparr>)
      | _ \<Rightarrow> s)"

text \<open>Reads of a closed socket and writes to it fail, as do writes to a stream that was reset.  A
  deadline that passes is a read or write error like any other.\<close>
inductive forward_step :: "'e forward \<Rightarrow> 'e forward \<Rightarrow> bool" where
  stepIn: "fd_in s = CopyRuns \<Longrightarrow> (tcp_closed (fd_local s) \<Longrightarrow> werr \<noteq> None) \<Longrightarrow>
    forward_step s (copyStreamToLocal s now r werr)"
| stepOut: "fd_out s = CopyRuns \<Longrightarrow> (tcp_closed (fd_local s) \<Longrightarrow> \<exists>e. r = GotErr e) \<Longrightarrow>
    (fd_streamReset s \<Longrightarrow> werr \<noteq> None) \<Longrightarrow> forward_step s (copyLocalToStream s now r werr)"
| stepInEnd: "fd_in s = CopyEnded e \<Longrightarrow> forward_step s (finishIn s e)"
| stepOutEnd: "fd_out s = CopyEnded e \<Longrightarrow> forward_step s (finishOut s e)"
| stepReceive: "fd_done s = e # rest \<Longrightarrow> (\<And>x. fd_phase s \<noteq> ForwardDone x) \<Longrightarrow>
    forward_step s (await_receive (s\<lparr>fd_done := rest\<rparr>) e)"
| stepGiveUp: "fd_phase s = WaitFirst \<or> fd_phase s = WaitSecond x \<Longrightarrow> forward_step s (await_giveUp s)"

inductive_cases forward_stepE: "forward_step s s'"

section \<open>What a finished forward leaves behind\<close>

definition sentResults :: "'e forward \<Rightarrow> 'e option list" where
  "sentResults s = (case fd_in s of CopySent e \<Rightarrow> [e] | _ \<Rightarrow> []) @ (case fd_out s of CopySent e \<Rightarrow> [e] | _ \<Rightarrow> [])"

text \<open>What one copy has read and written, at each stage of its goroutine.\<close>
fun copied :: "bool \<Rightarrow> 'e copying \<Rightarrow> 'b list \<Rightarrow> 'b list \<Rightarrow> bool" where
  "copied ab CopyRuns src dst \<longleftrightarrow> dst = src"
| "copied ab (CopyEnded e) src dst \<longleftrightarrow> prefix dst src \<and> (e = None \<longrightarrow> dst = src)"
| "copied ab (CopySent e) src dst \<longleftrightarrow> prefix dst src \<and> (e = None \<and> \<not> ab \<longrightarrow> dst = src)"

definition collected :: "'e forward \<Rightarrow> bool" where
  "collected s \<longleftrightarrow>
     (case fd_phase s of
        WaitFirst \<Rightarrow> \<not> fd_aborted s \<and> mset (fd_done s) = mset (sentResults s)
      | WaitSecond f \<Rightarrow> \<not> fd_aborted s \<and> mset (f # fd_done s) = mset (sentResults s)
      | DrainFirst \<Rightarrow> fd_aborted s \<and> length (fd_done s) = length (sentResults s)
      | DrainLast \<Rightarrow> fd_aborted s \<and> Suc (length (fd_done s)) = length (sentResults s)
      | DrainSecond f \<Rightarrow> fd_aborted s \<and> Suc (length (fd_done s)) = length (sentResults s) \<and> f \<in> set (sentResults s)
      | ForwardDone r \<Rightarrow>
          length (sentResults s) = 2 \<and> fd_done s = [] \<and> tcp_closed (fd_local s) \<and>
          (if fd_aborted s then r = None \<or> r \<in> set (sentResults s)
           else \<exists>f g. mset [f, g] = mset (sentResults s) \<and> r = (if f \<noteq> None then f else g)))"

definition forward_inv :: "'e forward \<Rightarrow> bool" where
  "forward_inv s \<longleftrightarrow>
     copied (fd_aborted s) (fd_in s) (fd_fromStream s) (fd_toLocal s) \<and>
     copied (fd_aborted s) (fd_out s) (fd_fromLocal s) (fd_toStream s) \<and>
     collected s \<and> (fd_aborted s \<longrightarrow> tcp_closed (fd_local s) \<and> fd_streamReset s) \<and>
     (\<forall>e. fd_in s = CopySent e \<longrightarrow> tcp_writeClosed (fd_local s)) \<and>
     (\<forall>e. fd_out s = CopySent e \<longrightarrow> fd_streamClosed s)"

lemma forward_inv_begin: "Forward_begin cfg target d = Inr s \<Longrightarrow> forward_inv s"
  by (auto simp: Forward_begin_def forward_inv_def collected_def sentResults_def split: if_splits)

lemma copied_mono: "copied False c src dst \<Longrightarrow> copied ab c src dst"
  by (cases c) auto

lemma sentResults_abort [simp]: "sentResults (abort s) = sentResults s"
  by (simp add: abort_def closeLocal_def sentResults_def)

lemma collected_cong:
  assumes "fd_phase t = fd_phase s" "fd_aborted t = fd_aborted s" "fd_done t = fd_done s" "sentResults t = sentResults s"
    "tcp_closed (fd_local t) = tcp_closed (fd_local s)"
  shows "collected t = collected s"
  by (simp only: collected_def assms)

lemma collected_send:
  assumes "collected s" "fd_phase t = fd_phase s" "fd_aborted t = fd_aborted s" "fd_done t = fd_done s @ [e]"
    "mset (sentResults t) = add_mset e (mset (sentResults s))" "length (sentResults t) \<le> 2"
  shows "collected t"
proof -
  have "length (sentResults t) = Suc (length (sentResults s))" "set (sentResults t) = insert e (set (sentResults s))"
    using arg_cong [OF assms(5), of size] arg_cong [OF assms(5), of set_mset] by simp_all
  then show ?thesis using assms by (cases "fd_phase s") (simp_all add: collected_def)
qed

lemma copyIn_frame:
  fixes s now r werr
  defines "t \<equiv> copyStreamToLocal s now r werr"
  assumes "fd_in s = CopyRuns"
  shows "fd_phase t = fd_phase s" "fd_aborted t = fd_aborted s" "fd_done t = fd_done s" "sentResults t = sentResults s"
    "tcp_closed (fd_local t) = tcp_closed (fd_local s)" "tcp_writeClosed (fd_local t) = tcp_writeClosed (fd_local s)"
    "fd_out t = fd_out s" "fd_fromLocal t = fd_fromLocal s" "fd_toStream t = fd_toStream s"
    "fd_streamClosed t = fd_streamClosed s" "fd_streamReset t = fd_streamReset s" "\<And>e. fd_in t \<noteq> CopySent e"
  using assms(2)
  by (simp_all add: t_def copyStreamToLocal_def Let_def sentResults_def idleTouch_def
      split: read_outcome.split option.split local_conn.split)

lemma copyOut_frame:
  fixes s now r werr
  defines "t \<equiv> copyLocalToStream s now r werr"
  assumes "fd_out s = CopyRuns"
  shows "fd_phase t = fd_phase s" "fd_aborted t = fd_aborted s" "fd_done t = fd_done s" "sentResults t = sentResults s"
    "tcp_closed (fd_local t) = tcp_closed (fd_local s)" "tcp_writeClosed (fd_local t) = tcp_writeClosed (fd_local s)"
    "fd_in t = fd_in s" "fd_fromStream t = fd_fromStream s" "fd_toLocal t = fd_toLocal s"
    "fd_streamClosed t = fd_streamClosed s" "fd_streamReset t = fd_streamReset s" "\<And>e. fd_out t \<noteq> CopySent e"
  using assms(2)
  by (simp_all add: t_def copyLocalToStream_def Let_def sentResults_def idleTouch_def
      split: read_outcome.split option.split local_conn.split)

lemma copyIn_copied:
  assumes "fd_in s = CopyRuns" "fd_toLocal s = fd_fromStream s" "tcp_closed (fd_local s) \<Longrightarrow> werr \<noteq> None"
  shows "let t = copyStreamToLocal s now r werr in copied (fd_aborted t) (fd_in t) (fd_fromStream t) (fd_toLocal t)"
  using assms
  by (auto simp: copyStreamToLocal_def Let_def idleTouch_def take_is_prefix split: read_outcome.splits option.splits
      local_conn.splits if_splits)

lemma copyOut_copied:
  assumes "fd_out s = CopyRuns" "fd_toStream s = fd_fromLocal s"
  shows "let t = copyLocalToStream s now r werr in copied (fd_aborted t) (fd_out t) (fd_fromLocal t) (fd_toStream t)"
  using assms by (auto simp: copyLocalToStream_def Let_def take_is_prefix split: read_outcome.splits option.splits)

lemma forward_inv_copyIn:
  assumes "forward_inv s" "fd_in s = CopyRuns" "tcp_closed (fd_local s) \<Longrightarrow> werr \<noteq> None"
  shows "forward_inv (copyStreamToLocal s now r werr)"
  using assms(1) copyIn_copied [OF assms(2) _ assms(3), of now r] collected_cong [OF copyIn_frame(1-5) [OF assms(2)]]
  by (simp add: forward_inv_def assms(2) copyIn_frame [OF assms(2)] Let_def)

lemma forward_inv_copyOut:
  assumes "forward_inv s" "fd_out s = CopyRuns"
  shows "forward_inv (copyLocalToStream s now r werr)"
  using assms(1) copyOut_copied [OF assms(2), of now r werr] collected_cong [OF copyOut_frame(1-5) [OF assms(2)]]
  by (simp add: forward_inv_def assms(2) copyOut_frame [OF assms(2)] Let_def)

lemma sent_at_most_two: "length (sentResults s) \<le> 2"
  by (simp add: sentResults_def split: copying.splits)

lemma forward_inv_finishIn:
  assumes "forward_inv s" "fd_in s = CopyEnded e" shows "forward_inv (finishIn s e)"
proof -
  have "collected (finishIn s e)"
    by (rule collected_send [of s _ "filterErr s e"])
       (use assms in \<open>simp_all add: forward_inv_def finishIn_def sentResults_def split: copying.splits\<close>)
  then show ?thesis
    using assms by (auto simp: forward_inv_def finishIn_def filterErr_def)
qed

lemma forward_inv_finishOut:
  assumes "forward_inv s" "fd_out s = CopyEnded e" shows "forward_inv (finishOut s e)"
proof -
  have "collected (finishOut s e)"
    by (rule collected_send [of s _ "filterErr s e"])
       (use assms in \<open>simp_all add: forward_inv_def finishOut_def sentResults_def split: copying.splits\<close>)
  then show ?thesis
    using assms by (auto simp: forward_inv_def finishOut_def filterErr_def)
qed

lemma forward_inv_receive:
  assumes "forward_inv s" "fd_done s = e # rest" shows "forward_inv (await_receive (s\<lparr>fd_done := rest\<rparr>) e)"
proof -
  have sr: "sentResults (await_receive (s\<lparr>fd_done := rest\<rparr>) e) = sentResults s"
    by (simp add: await_receive_def closeLocal_def sentResults_def split: collector.splits)
  have two: "rest = [] \<and> length (sentResults s) = 2" if "Suc (Suc (length rest)) = length (sentResults s)"
    using sent_at_most_two [of s] that by (cases rest) auto
  have "collected (await_receive (s\<lparr>fd_done := rest\<rparr>) e)"
  proof (cases "fd_phase s")
    case (WaitSecond f)
    then have m: "mset (f # e # rest) = mset (sentResults s)" "\<not> fd_aborted s"
      using assms by (simp_all add: forward_inv_def collected_def)
    then have len: "length (f # e # rest) = length (sentResults s)" by (metis size_mset)
    then have "rest = []" using two by simp
    with m(1) have "\<exists>g h. mset [g, h] = mset (sentResults s) \<and> (if f \<noteq> None then f else e) = (if g \<noteq> None then g else h)"
      "length (sentResults s) = 2"
      using len by (blast, simp)
    then show ?thesis
      using m(2) sr WaitSecond \<open>rest = []\<close> by (simp add: collected_def await_receive_def closeLocal_def)
  qed (use assms sr two in
      \<open>simp_all add: forward_inv_def collected_def await_receive_def closeLocal_def\<close>)
  then show ?thesis
    using assms(1) by (auto simp: forward_inv_def await_receive_def closeLocal_def split: collector.splits)
qed

lemma forward_inv_giveUp:
  assumes "forward_inv s" shows "forward_inv (await_giveUp s)"
proof -
  have "collected (await_giveUp s)"
  proof (cases "fd_phase s")
    case WaitFirst
    then have "mset (fd_done s) = mset (sentResults s)" using assms by (simp add: forward_inv_def collected_def)
    then have "length (fd_done s) = length (sentResults s)" by (metis size_mset)
    then show ?thesis using WaitFirst
      by (simp add: collected_def await_giveUp_def abort_def closeLocal_def sentResults_def)
  next
    case (WaitSecond f)
    then have m: "mset (f # fd_done s) = mset (sentResults s)" using assms by (simp add: forward_inv_def collected_def)
    then have "length (f # fd_done s) = length (sentResults s)" "f \<in> set (sentResults s)"
      by (metis size_mset) (metis m list.set_intros(1) mset_eq_setD)
    then show ?thesis using WaitSecond
      by (simp add: collected_def await_giveUp_def abort_def closeLocal_def sentResults_def)
  qed (use assms in \<open>simp_all add: forward_inv_def await_giveUp_def\<close>)
  then show ?thesis
    using assms by (auto simp: forward_inv_def await_giveUp_def abort_def closeLocal_def collected_def
        intro: copied_mono split: collector.splits)
qed

lemma forward_inv_step: "forward_step s s' \<Longrightarrow> forward_inv s \<Longrightarrow> forward_inv s'"
  by (induction rule: forward_step.induct)
     (blast intro: forward_inv_copyIn forward_inv_copyOut forward_inv_finishIn forward_inv_finishOut
       forward_inv_receive forward_inv_giveUp)+

lemma forward_inv_run: "forward_step\<^sup>*\<^sup>* s s' \<Longrightarrow> forward_inv s \<Longrightarrow> forward_inv s'"
  by (induction rule: rtranclp_induct) (blast intro: forward_inv_step)+

lemma both_sent: "length (sentResults s) = 2 \<Longrightarrow> \<exists>a b. fd_in s = CopySent a \<and> fd_out s = CopySent b \<and> sentResults s = [a, b]"
  by (auto simp: sentResults_def split: copying.splits)

text \<open>C21. However the copies, the cancellation and the linger timer interleave, a forward that has
  returned has released everything: both goroutines have ended, the local socket is closed and
  the stream is closed or was reset. What each side received is a prefix of what the other
  sent. A forward that returns no error without having given up has delivered every byte both
  ways, and an error it returns was reported by one of its two copies.\<close>
theorem forward_releases:
  assumes "Forward_begin cfg target True = Inr s0" "forward_step\<^sup>*\<^sup>* s0 s" "fd_phase s = ForwardDone r"
  shows "(\<exists>a b. fd_in s = CopySent a \<and> fd_out s = CopySent b \<and> (r \<noteq> None \<longrightarrow> r = a \<or> r = b)) \<and>
    tcp_closed (fd_local s) \<and> tcp_writeClosed (fd_local s) \<and> fd_streamClosed s \<and> (fd_aborted s \<longrightarrow> fd_streamReset s) \<and>
    prefix (fd_toLocal s) (fd_fromStream s) \<and> prefix (fd_toStream s) (fd_fromLocal s) \<and>
    (r = None \<and> \<not> fd_aborted s \<longrightarrow> fd_toLocal s = fd_fromStream s \<and> fd_toStream s = fd_fromLocal s)"
proof -
  have inv: "forward_inv s" using forward_inv_run [OF assms(2)] forward_inv_begin [OF assms(1)] by blast
  then have col: "collected s" by (simp add: forward_inv_def)
  then obtain a b where ab: "fd_in s = CopySent a" "fd_out s = CopySent b" "sentResults s = [a, b]"
    using assms(3) both_sent by (fastforce simp: collected_def)
  have r: "r \<noteq> None \<longrightarrow> r = a \<or> r = b" "r = None \<and> \<not> fd_aborted s \<longrightarrow> a = None \<and> b = None"
    using col ab(3) assms(3) by (auto simp: collected_def add_eq_conv_ex split: if_splits)
  show ?thesis using inv col r ab by (auto simp: forward_inv_def collected_def assms(3))
qed

definition plainForward :: "nat forward" where
  "plainForward = projr (Forward_begin \<lparr>fw_DialTimeout = 0, fw_IdleTimeout = 0, fw_BufferSize = 0, fw_LingerTimeout = 0\<rparr>
     ''127.0.0.1:445'' True)"

text \<open>A request of one byte, then both sides close.\<close>
definition answeredForward :: "nat forward list" where
  "answeredForward =
     (let s1 = copyStreamToLocal plainForward 1 (GotData [7]) None;
          s2 = copyStreamToLocal s1 2 GotEOF None;
          s3 = finishIn s2 None;
          s4 = copyLocalToStream s3 3 GotEOF None;
          s5 = finishOut s4 None;
          s6 = await_receive (s5\<lparr>fd_done := [None]\<rparr>) None;
          s7 = await_receive (s6\<lparr>fd_done := []\<rparr>) None
      in [s1, s2, s3, s4, s5, s6, s7])"

lemmas forward_defs = plainForward_def answeredForward_def Forward_begin_def newIdleConn_def copyStreamToLocal_def
  copyLocalToStream_def finishIn_def finishOut_def await_receive_def closeLocal_def filterErr_def idleTouch_def Let_def

lemma answeredForward_run: "forward_step\<^sup>*\<^sup>* plainForward (last answeredForward)"
proof -
  let ?s = "\<lambda>i. (plainForward # answeredForward) ! i"
  have "forward_step (?s 0) (copyStreamToLocal (?s 0) 1 (GotData [7]) None)"
    "forward_step (?s 1) (copyStreamToLocal (?s 1) 2 GotEOF None)"
    by (rule stepIn; simp add: forward_defs)+
  moreover have "forward_step (?s 2) (finishIn (?s 2) None)" by (rule stepInEnd) (simp add: forward_defs)
  moreover have "forward_step (?s 3) (copyLocalToStream (?s 3) 3 GotEOF None)" by (rule stepOut; simp add: forward_defs)
  moreover have "forward_step (?s 4) (finishOut (?s 4) None)" by (rule stepOutEnd) (simp add: forward_defs)
  moreover have "forward_step (?s 5) (await_receive ((?s 5)\<lparr>fd_done := [None]\<rparr>) None)"
    "forward_step (?s 6) (await_receive ((?s 6)\<lparr>fd_done := []\<rparr>) None)"
    by (rule stepReceive; simp add: forward_defs)+
  ultimately have "forward_step\<^sup>*\<^sup>* (?s 0) (?s 7)"
    by (auto simp: answeredForward_def Let_def intro: converse_rtranclp_into_rtranclp)
  then show ?thesis by (simp add: answeredForward_def Let_def)
qed

theorem forward_releases_witness:
  "fd_toLocal (last answeredForward) = [7] \<and> tcp_closed (fd_local (last answeredForward)) \<and>
   fd_streamClosed (last answeredForward)"
proof -
  have b: "Forward_begin \<lparr>fw_DialTimeout = 0, fw_IdleTimeout = 0, fw_BufferSize = 0, fw_LingerTimeout = 0\<rparr>
     ''127.0.0.1:445'' True = Inr plainForward" by (simp add: plainForward_def Forward_begin_def)
  have "fd_phase (last answeredForward) = ForwardDone None" "fd_fromStream (last answeredForward) = [7]"
    "\<not> fd_aborted (last answeredForward)" by (simp_all add: forward_defs)
  with forward_releases [OF b answeredForward_run, of None] show ?thesis by simp
qed

section \<open>A forward cannot be held open\<close>

fun copyWork :: "'e copying \<Rightarrow> nat" where
  "copyWork CopyRuns = 2" | "copyWork (CopyEnded e) = 1" | "copyWork (CopySent e) = 0"

fun phaseWork :: "'e collector \<Rightarrow> nat" where
  "phaseWork WaitFirst = 2" | "phaseWork DrainFirst = 2" | "phaseWork DrainLast = 1"
| "phaseWork (WaitSecond f) = 1" | "phaseWork (DrainSecond f) = 1" | "phaseWork (ForwardDone r) = 0"

definition forwardWork :: "'e forward \<Rightarrow> nat" where
  "forwardWork s = copyWork (fd_in s) + copyWork (fd_out s) + phaseWork (fd_phase s)"

lemma copyWork_le: "copyWork c \<le> 2" by (cases c) simp_all

lemma phaseWork_le: "phaseWork c \<le> 2" by (cases c) simp_all

lemma forwardWork_le: "forwardWork s \<le> 6"
  using copyWork_le [of "fd_in s"] copyWork_le [of "fd_out s"] phaseWork_le [of "fd_phase s"] by (simp add: forwardWork_def)

lemma aborted_step_works:
  assumes "forward_step s s'" "forward_inv s" "fd_aborted s"
  shows "forwardWork s' < forwardWork s \<and> fd_aborted s'"
proof -
  have closed: "tcp_closed (fd_local s)" "\<And>x. fd_phase s \<noteq> WaitSecond x" "fd_phase s \<noteq> WaitFirst"
    using assms(2,3) by (auto simp: forward_inv_def collected_def)
  from assms(1) show ?thesis
  proof cases
    case (stepIn werr now r)
    then show ?thesis using closed assms(3)
      by (auto simp: forwardWork_def copyStreamToLocal_def Let_def split: read_outcome.split option.split)
  next
    case (stepOut r werr now)
    then show ?thesis using closed assms(3)
      by (auto simp: forwardWork_def copyLocalToStream_def Let_def split: option.split)
  next
    case (stepReceive e rest)
    then show ?thesis using assms(3)
      by (cases "fd_phase s") (auto simp: forwardWork_def await_receive_def closeLocal_def)
  qed (use closed assms(3) in \<open>auto simp: forwardWork_def finishIn_def finishOut_def\<close>)
qed

lemma aborted_run_bounded:
  "(forward_step ^^ n) s s' \<Longrightarrow> forward_inv s \<Longrightarrow> fd_aborted s \<Longrightarrow> n + forwardWork s' \<le> forwardWork s \<and> fd_aborted s'"
proof (induction n arbitrary: s')
  case (Suc n)
  then obtain t where t: "(forward_step ^^ n) s t" "forward_step t s'" by auto
  have "forward_inv t" using forward_inv_run Suc.prems(2) t(1) by (metis rtranclp_power)
  then show ?case using Suc.IH [OF t(1) Suc.prems(2,3)] aborted_step_works [OF t(2)] by auto
qed simp

lemma forward_progress:
  assumes "forward_inv s"
  shows "(\<exists>t. forward_step s t) \<longleftrightarrow> (\<nexists>r. fd_phase s = ForwardDone r)"
proof
  assume "\<exists>t. forward_step s t"
  then obtain t where t: "forward_step s t" ..
  show "\<nexists>r. fd_phase s = ForwardDone r"
  proof
    assume "\<exists>r. fd_phase s = ForwardDone r"
    then obtain r where r: "fd_phase s = ForwardDone r" ..
    then have "length (sentResults s) = 2" "fd_done s = []" using assms by (simp_all add: forward_inv_def collected_def)
    then obtain a b where "fd_in s = CopySent a" "fd_out s = CopySent b" "fd_done s = []" using both_sent by blast
    with t r show False by (auto elim: forward_stepE)
  qed
next
  assume nd: "\<nexists>r. fd_phase s = ForwardDone r"
  show "\<exists>t. forward_step s t"
  proof (cases "fd_in s")
    case CopyRuns
    then show ?thesis by (blast intro: stepIn [of s "Some (0, undefined)" _ GotEOF])
  next
    case (CopyEnded e)
    then show ?thesis by (blast intro: stepInEnd)
  next
    case (CopySent a)
    note a = this
    show ?thesis
    proof (cases "fd_out s")
      case CopyRuns
      then show ?thesis by (blast intro: stepOut [of s "GotErr undefined" "Some (0, undefined)"])
    next
      case (CopyEnded e)
      then show ?thesis by (blast intro: stepOutEnd)
    next
      case (CopySent b)
      then have "sentResults s = [a, b]" by (simp add: sentResults_def a)
      then have "fd_done s \<noteq> []" using assms nd by (cases "fd_phase s") (auto simp: forward_inv_def collected_def)
      then obtain e rest where "fd_done s = e # rest" by (cases "fd_done s") auto
      with nd show ?thesis by (blast intro: stepReceive)
    qed
  qed
qed



end
