(* ===== verification/Agent_Tunnel.thy ===== *)
theory Agent_Tunnel
  imports Agent_Client Agent_Forward Mux_Peer Config
begin

text \<open>
  The agent's accept loop and its supervision, \<^verbatim>\<open>src/pkg/agent/tunnel_impl.go\<close>, and the wiring of
  \<^verbatim>\<open>src/cmd/agent/main.go\<close>.  The context of an accept loop is represented by whether it was
  cancelled; the forwards it started are kept as a list of session, stream and target.
\<close>

section \<open>The tunnel\<close>

record TunnelRunner =
  tr_client :: TunnelClient
  tr_fwdCfg :: ServiceForwarderConfig
  tr_services :: "(string, string) gomap"
  tr_activeStreams :: "32 word"
  tr_totalStreams :: "64 word"
  tr_startTime :: "int option"
  tr_cancelAccept :: "bool option"
  tr_acceptStopped :: "bool option"
  tr_forwards :: "(nat \<times> ref \<times> string) list"

datatype tunnel_error =
    ErrNotConnected | ErrAcceptStream mux_error | ErrReconnectFailed client_error | ErrStopCtx ctx_error

definition NewTunnel :: "TunnelClient \<Rightarrow> ServiceForwarderConfig \<Rightarrow> ServiceMapping list \<Rightarrow> TunnelRunner" where
  "NewTunnel client fwdCfg services =
     \<lparr>tr_client = client, tr_fwdCfg = fwdCfg,
      tr_services = foldl (\<lambda>m s. AList.update (sm_Name s) (sm_LocalAddr s) m) [] services,
      tr_activeStreams = 0, tr_totalStreams = 0, tr_startTime = None, tr_cancelAccept = None, tr_acceptStopped = None,
      tr_forwards = []\<rparr>"

definition resolveTarget :: "TunnelRunner \<Rightarrow> bytes \<Rightarrow> string" where
  "resolveTarget t payload =
     (case (if payload \<noteq> [] then map_of (tr_services t) (string_of_bytes payload) else None) of
        Some addr \<Rightarrow> addr
      | None \<Rightarrow> (case tr_services t of [(_, addr)] \<Rightarrow> addr | _ \<Rightarrow> []))"

definition setSession :: "TunnelRunner \<Rightarrow> nat \<Rightarrow> MuxSession \<Rightarrow> TunnelRunner" where
  "setSession t n m = t\<lparr>tr_client := (tr_client t)\<lparr>tc_sessions := (tc_sessions (tr_client t))[n := m]\<rparr>\<rparr>"

text \<open>The start of \<^verbatim>\<open>acceptLoop\<close>: a fresh context and the session it serves.\<close>
definition acceptLoop_begin :: "TunnelRunner \<Rightarrow> (tunnel_error + nat) \<times> TunnelRunner" where
  "acceptLoop_begin t =
     (case tc_mux (tr_client t) of
        None \<Rightarrow> (Inl ErrNotConnected, t\<lparr>tr_cancelAccept := Some True\<rparr>)
      | Some n \<Rightarrow> (Inr n, t\<lparr>tr_cancelAccept := Some False\<rparr>))"

datatype accept_next = AcceptWaits | AcceptAgain | AcceptReturns "tunnel_error option"

text \<open>One round of the loop on session \<open>n\<close>.  A return cancels the context, and with it the forwards.\<close>
definition tunnelAccept :: "TunnelRunner \<Rightarrow> nat \<Rightarrow> bool \<Rightarrow> accept_wait \<Rightarrow> accept_next \<times> TunnelRunner" where
  "tunnelAccept t n ctxDone w =
     (let cancelled = (ctxDone \<or> tr_cancelAccept t = Some True) in
      if (\<exists>e. w = AcceptCtx e) \<and> \<not> cancelled then (AcceptWaits, t)
      else
        (case AcceptStream (tc_sessions (tr_client t) ! n) w of
           (Blocked, _) \<Rightarrow> (AcceptWaits, t)
         | (Returned (Inl e), m) \<Rightarrow>
             (AcceptReturns (if cancelled then None else Some (ErrAcceptStream e)),
              (setSession t n m)\<lparr>tr_cancelAccept := Some True\<rparr>)
         | (Returned (Inr r), m) \<Rightarrow>
             (let t1 = setSession t n m;
                  target = resolveTarget t1 (case map_of (heap m) r of None \<Rightarrow> [] | Some s \<Rightarrow> openPayload s)
              in if target = [] then (AcceptAgain, setSession t1 n (streamReset m r 1))
                 else (AcceptAgain,
                       t1\<lparr>tr_activeStreams := tr_activeStreams t + 1, tr_totalStreams := tr_totalStreams t + 1,
                          tr_forwards := (n, r, target) # tr_forwards t\<rparr>))))"

text \<open>A forward returns: its goroutine logs the error, if any, and is counted out.\<close>
definition forwardReturns :: "TunnelRunner \<Rightarrow> nat \<times> ref \<times> string \<Rightarrow> TunnelRunner" where
  "forwardReturns t fw =
     (if fw \<in> set (tr_forwards t)
      then t\<lparr>tr_activeStreams := tr_activeStreams t - 1, tr_forwards := remove1 fw (tr_forwards t)\<rparr> else t)"

definition Tunnel_Start_begin :: "TunnelRunner \<Rightarrow> int \<Rightarrow> TunnelRunner" where
  "Tunnel_Start_begin t now = t\<lparr>tr_startTime := Some now, tr_acceptStopped := Some False\<rparr>"

datatype start_next = StartLoops | StartReturns "tunnel_error option"

text \<open>What \<^verbatim>\<open>Start\<close> does when its accept loop has ended; returning closes \<^verbatim>\<open>acceptStopped\<close>.\<close>
definition Tunnel_Start_supervise :: "TunnelRunner \<Rightarrow> bool \<Rightarrow> (nat \<Rightarrow> attempt_env) \<Rightarrow> start_next \<times> TunnelRunner" where
  "Tunnel_Start_supervise t ctxDone env =
     (if ctxDone then (StartReturns None, t\<lparr>tr_acceptStopped := Some True\<rparr>)
      else
        (case Reconnect env ((tr_client t)\<lparr>tc_disconnect := False\<rparr>) of
           (Some e, _, c) \<Rightarrow> (StartReturns (Some (ErrReconnectFailed e)), t\<lparr>tr_client := c, tr_acceptStopped := Some True\<rparr>)
         | (None, _, c) \<Rightarrow> (StartLoops, t\<lparr>tr_client := c\<rparr>)))"

definition Tunnel_Stop :: "TunnelRunner \<Rightarrow> ctx_error option \<Rightarrow> tunnel_error option attempt \<times> TunnelRunner" where
  "Tunnel_Stop t ctxErr =
     (let t1 = t\<lparr>tr_cancelAccept := map_option (\<lambda>_. True) (tr_cancelAccept t)\<rparr> in
      (case tr_acceptStopped t of
         None \<Rightarrow> (Returned None, t1)
       | Some True \<Rightarrow> (Returned None, t1)
       | Some False \<Rightarrow> (case ctxErr of Some e \<Rightarrow> (Returned (Some (ErrStopCtx e)), t1) | None \<Rightarrow> (Blocked, t1))))"

record TunnelStats =
  ts_ActiveStreams :: int
  ts_TotalStreams :: int
  ts_BytesIn :: int
  ts_BytesOut :: int
  ts_Uptime :: int

definition Tunnel_Stats :: "TunnelRunner \<Rightarrow> int \<Rightarrow> TunnelStats" where
  "Tunnel_Stats t now =
     \<lparr>ts_ActiveStreams = sint (tr_activeStreams t), ts_TotalStreams = sint (tr_totalStreams t), ts_BytesIn = 0,
      ts_BytesOut = 0, ts_Uptime = (case tr_startTime t of None \<Rightarrow> 0 | Some s \<Rightarrow> now - s)\<rparr>"

section \<open>The agent program\<close>

definition agentServiceNames :: "AgentConfig \<Rightarrow> string list" where
  "agentServiceNames cfg = map sm_Name (filter (\<lambda>s. sm_Name s \<noteq> []) (ac_Services cfg))"

definition agentClientConfig :: "AgentConfig \<Rightarrow> ClientConfig" where
  "agentClientConfig cfg =
     \<lparr>cl_RelayAddr = rc_Addr (ac_Relay cfg), cl_ReconnectBackoff = rc_ReconnectInterval (ac_Relay cfg),
      cl_MaxReconnectAttempts = 10, cl_HeartbeatInterval = rc_KeepaliveInterval (ac_Relay cfg),
      cl_HeartbeatTimeout = rc_KeepaliveTimeout (ac_Relay cfg), cl_Services = agentServiceNames cfg\<rparr>"

text \<open>The client and the tunnel \<^verbatim>\<open>run\<close> builds, given the outcome of the first dial.\<close>
definition agentBuild :: "AgentConfig \<Rightarrow> Writer option \<Rightarrow> int \<Rightarrow> client_error + TunnelRunner" where
  "agentBuild cfg dialed now =
     (case Client_Connect (NewClient (agentClientConfig cfg) None) dialed now of
        (Some e, _) \<Rightarrow> Inl e
      | (None, c) \<Rightarrow>
          Inr (NewTunnel c
            \<lparr>fw_DialTimeout = 5 * 10 ^ 9, fw_IdleTimeout = 0, fw_BufferSize = 32 * 1024, fw_LingerTimeout = 0\<rparr>
            (ac_Services cfg)))"

section \<open>Which service a stream reaches\<close>

lemma services_distinct:
  "distinct (map fst m0) \<Longrightarrow>
   distinct (map fst (foldl (\<lambda>m s. AList.update (sm_Name s) (sm_LocalAddr s) m) m0 ss))"
  by (induction ss arbitrary: m0) (auto simp: distinct_update)


section \<open>Stop and failed dials\<close>

text \<open>Stop cancels only the context of the running accept loop. When the context given to Start is
  not cancelled as well, the supervision takes the end of the loop for a lost connection: it
  tears the session down and connects again, and Stop keeps waiting.\<close>
theorem stop_alone_reconnects:
  assumes "acceptLoop_begin t = (Inr n, t1)" "tr_acceptStopped t = Some False" "Tunnel_Stop t1 None = (res, t2)"
    "tunnelAccept t2 n False (AcceptCtx e) = (next, t3)"
    "client_inv (tr_client t)" "\<not> tc_closed (tr_client t)" "\<not> at_ctxDone (env 0)" "at_dial (env 0) = Some w"
  shows "res = Blocked \<and> next = AcceptReturns None \<and>
    (\<exists>t4. Tunnel_Start_supervise t3 False env = (StartLoops, t4) \<and> closeCh (tc_sessions (tr_client t4) ! n) \<and>
       cs_Connected (tc_status (tr_client t4)) \<and> tr_acceptStopped t4 = Some False)"
proof -
  have n: "tc_mux (tr_client t) = Some n" and t1: "t1 = t\<lparr>tr_cancelAccept := Some False\<rparr>"
    using assms(1) by (auto simp: acceptLoop_begin_def split: option.splits)
  have lt: "n < length (tc_sessions (tr_client t))" using n assms(5) by (auto simp: client_inv_def)
  have t2: "res = Blocked" "t2 = t\<lparr>tr_cancelAccept := Some True\<rparr>"
    using assms(2,3) by (auto simp: Tunnel_Stop_def t1 Let_def)
  have t3: "next = AcceptReturns None" "tr_client t3 = tr_client t" "tr_acceptStopped t3 = Some False"
    using assms(2,4) by (auto simp: tunnelAccept_def t2 AcceptStream_def setSession_def)
  define c where "c = (tr_client t)\<lparr>tc_disconnect := False\<rparr>"
  have td: "closeCh (tc_sessions (teardown c) ! n)" "\<not> tc_closed (teardown c)"
    using n lt assms(6) by (auto simp: c_def teardown_def Let_def)
  obtain k where k: "maxAttemptsOf (teardown c) = Suc k"
    by (cases "maxAttemptsOf (teardown c)") (auto simp: maxAttemptsOf_def split: if_splits)
  obtain ds c' where r: "Reconnect env c = (None, ds, c')" "closeCh (tc_sessions c' ! n)" "cs_Connected (tc_status c')"
    using td assms(7,8) lt unfolding Reconnect_def Let_def k
    by (auto simp: Let_def Client_Connect_def Connect_begin_def Connect_finish_def nth_append c_def)
  then show ?thesis using t2(1) t3 by (simp add: Tunnel_Start_supervise_def c_def [symmetric])
qed

definition exampleAgentConfig :: AgentConfig where
  "exampleAgentConfig = DefaultAgentConfig\<lparr>ac_Services :=
     [\<lparr>sm_Name = ''smb'', sm_Protocol = ''tcp'', sm_LocalAddr = ''127.0.0.1:445'', sm_RelayPort = 0\<rparr>,
      \<lparr>sm_Name = ''db'', sm_Protocol = ''tcp'', sm_LocalAddr = ''127.0.0.1:5432'', sm_RelayPort = 0\<rparr>]\<rparr>"

definition exampleTunnel :: TunnelRunner where
  "exampleTunnel = projr (agentBuild exampleAgentConfig (Some \<lparr>written = [], room = None\<rparr>) 1)"

lemma exampleTunnel_client: "tr_client exampleTunnel =
  snd (Client_Connect (NewClient (agentClientConfig exampleAgentConfig) None) (Some \<lparr>written = [], room = None\<rparr>) 1)"
  by (simp add: exampleTunnel_def agentBuild_def Client_Connect_def Connect_begin_def Connect_finish_def NewClient_def
      NewTunnel_def)

lemma exampleTunnel_fields:
  "tc_mux (tr_client exampleTunnel) = Some 0" "\<not> tc_closed (tr_client exampleTunnel)"
  "tr_acceptStopped exampleTunnel = None" "client_inv (tr_client exampleTunnel)"
proof -
  have "tc_mux (NewClient (agentClientConfig exampleAgentConfig) None) = None" by (simp add: NewClient_def)
  from client_inv_Connect(1) [OF client_inv_New this] show "client_inv (tr_client exampleTunnel)"
    by (simp add: exampleTunnel_client)
qed (simp_all add: exampleTunnel_def agentBuild_def Client_Connect_def Connect_begin_def Connect_finish_def NewClient_def
      NewTunnel_def)

theorem stop_alone_reconnects_witness:
  "let t = Tunnel_Start_begin exampleTunnel 1;
       t2 = snd (Tunnel_Stop (snd (acceptLoop_begin t)) None);
       t3 = snd (tunnelAccept t2 0 False (AcceptCtx Canceled));
       env = (\<lambda>_. \<lparr>at_ctxDone = False, at_random = 0, at_dial = Some \<lparr>written = [], room = None\<rparr>, at_now = 5\<rparr>)
   in \<exists>t4. Tunnel_Start_supervise t3 False env = (StartLoops, t4) \<and> closeCh (tc_sessions (tr_client t4) ! 0)"
proof -
  let ?t = "Tunnel_Start_begin exampleTunnel 1"
  let ?env = "\<lambda>_. \<lparr>at_ctxDone = False, at_random = 0, at_dial = Some \<lparr>written = [], room = None\<rparr>, at_now = 5\<rparr>"
  have f: "tc_mux (tr_client ?t) = Some 0" "\<not> tc_closed (tr_client ?t)" "tr_acceptStopped ?t = Some False"
    "client_inv (tr_client ?t)" using exampleTunnel_fields by (simp_all add: Tunnel_Start_begin_def)
  then have b: "acceptLoop_begin ?t = (Inr 0, snd (acceptLoop_begin ?t))" by (simp add: acceptLoop_begin_def)
  show ?thesis
    using stop_alone_reconnects [OF b f(3) surjective_pairing surjective_pairing f(4,2), of ?env _ Canceled]
    unfolding Let_def by auto
qed

section \<open>Counting\<close>

datatype tunnel_op =
    TBegin int | TLoop | TAccept nat bool accept_wait | TReturn "nat \<times> ref \<times> string"
  | TSupervise bool "nat \<Rightarrow> attempt_env" | TStop "ctx_error option"

definition tunnel_exec :: "TunnelRunner \<Rightarrow> tunnel_op \<Rightarrow> TunnelRunner" where
  "tunnel_exec t op =
     (case op of
        TBegin now \<Rightarrow> Tunnel_Start_begin t now
      | TLoop \<Rightarrow> snd (acceptLoop_begin t)
      | TAccept n d w \<Rightarrow> snd (tunnelAccept t n d w)
      | TReturn fw \<Rightarrow> forwardReturns t fw
      | TSupervise d env \<Rightarrow> snd (Tunnel_Start_supervise t d env)
      | TStop e \<Rightarrow> snd (Tunnel_Stop t e))"

definition counted :: "TunnelRunner \<Rightarrow> bool" where
  "counted t \<longleftrightarrow> tr_activeStreams t = of_nat (length (tr_forwards t)) \<and> (\<forall>(n, r, a) \<in> set (tr_forwards t). a \<noteq> [])"

lemma counted_forwardReturns:
  assumes "counted t" shows "counted (forwardReturns t fw)"
proof (cases "fw \<in> set (tr_forwards t)")
  case True
  then obtain k where k: "length (tr_forwards t) = Suc k" by (cases "length (tr_forwards t)") auto
  have "set (remove1 fw (tr_forwards t)) \<subseteq> set (tr_forwards t)" by (rule set_remove1_subset)
  with True k assms show ?thesis by (auto simp: counted_def forwardReturns_def length_remove1)
qed (use assms in \<open>simp add: forwardReturns_def\<close>)

lemma counted_exec: "counted t \<Longrightarrow> counted (tunnel_exec t op)"
proof (cases op)
  case (TReturn fw)
  then show "counted t \<Longrightarrow> ?thesis" by (simp add: tunnel_exec_def counted_forwardReturns)
qed (auto simp: counted_def tunnel_exec_def Tunnel_Start_begin_def acceptLoop_begin_def tunnelAccept_def setSession_def
    Tunnel_Start_supervise_def Tunnel_Stop_def Let_def split: option.splits attempt.splits sum.splits prod.splits bool.splits)

text \<open>Whatever sequence of accepts, returning forwards, reconnections and stops a tunnel goes
  through, the active stream count it reports is the number of forwards in progress, as long as
  those fit the signed 32-bit counter, and every forward in progress has a target.\<close>
theorem tunnel_stats_exact:
  assumes "t = foldl tunnel_exec (NewTunnel c fw services) ops" "length (tr_forwards t) < 2 ^ 31"
  shows "ts_ActiveStreams (Tunnel_Stats t now) = int (length (tr_forwards t)) \<and> (\<forall>(n, r, a) \<in> set (tr_forwards t). a \<noteq> [])"
proof -
  have "counted (NewTunnel c fw services)" by (simp add: counted_def NewTunnel_def)
  then have "counted (foldl tunnel_exec (NewTunnel c fw services) ops)"
    by (induction ops rule: rev_induct) (simp_all add: counted_exec)
  then have c: "counted t" using assms(1) by simp
  then have "sint (tr_activeStreams t) = int (length (tr_forwards t))"
    using assms(2) by (simp add: counted_def signed_of_nat signed_take_bit_int_eq_self)
  with c show ?thesis by (simp add: Tunnel_Stats_def counted_def)
qed

text \<open>An agent session that was just asked for the service \<open>smb\<close>.\<close>
definition askedClient :: TunnelClient where
  "askedClient = (tr_client exampleTunnel)
     \<lparr>tc_sessions := [handleFrame exampleAgent (mkFrame CmdStreamOpen 0 1 (bytes_of_string ''smb'')) True]\<rparr>"

theorem tunnel_stats_exact_witness:
  "let t = foldl tunnel_exec (NewTunnel askedClient (tr_fwdCfg exampleTunnel) (ac_Services exampleAgentConfig))
         [TBegin 1, TLoop, TAccept 0 False AcceptStreamReady]
   in map (\<lambda>(n, r, a). a) (tr_forwards t) = [''127.0.0.1:445''] \<and> ts_ActiveStreams (Tunnel_Stats t 2) = 1"
proof -
  let ?t = "foldl tunnel_exec (NewTunnel askedClient (tr_fwdCfg exampleTunnel) (ac_Services exampleAgentConfig))
         [TBegin 1, TLoop, TAccept 0 False AcceptStreamReady]"
  have "tr_forwards ?t = [(0, 0, ''127.0.0.1:445'')]"
    by (simp add: tunnel_exec_def Tunnel_Start_begin_def acceptLoop_begin_def tunnelAccept_def setSession_def
        AcceptStream_def askedClient_def NewTunnel_def resolveTarget_def exampleAgentConfig_def exampleTunnel_fields peer_defs
        newStream_def SetOpenPayload_def)
  with tunnel_stats_exact [OF refl, of askedClient "tr_fwdCfg exampleTunnel" "ac_Services exampleAgentConfig"
      "[TBegin 1, TLoop, TAccept 0 False AcceptStreamReady]" 2] show ?thesis by (simp add: Let_def)
qed

end
