(* ===== verification/Agent_Main.thy ===== *)
theory Agent_Main
  imports Agent_Tunnel Host Audit_Log
begin

text \<open>
  The agent program, \<^verbatim>\<open>src/cmd/agent/main.go\<close>: the checks before it connects, the audit events and
  the shutdown.  \<^verbatim>\<open>agentBuild\<close> in \<^verbatim>\<open>Agent_Tunnel\<close> makes the client and the tunnel.
\<close>

text \<open>\<^verbatim>\<open>run\<close> up to the connection; None stands for a chain check that does not return.\<close>
definition agentPrepare ::
  "(AgentConfig, 'c, 'p) host_io \<Rightarrow> string \<Rightarrow> bool \<Rightarrow>
   (run_error + (AgentConfig \<times> 'p tls_config \<times> 'c Configurator) option) option" where
  "agentPrepare io configPath dryRun =
     (case LoadAgentConfig (ho_readFile io) (ho_unmarshal io) (ho_getenv io) configPath of
        Inl e \<Rightarrow> Some (Inl (RunLoad e))
      | Inr cfg \<Rightarrow>
          (case ValidateChainCertFile (ho_readFile io) (ho_pemDecode io) (CertFile (ac_TLS cfg)) of
             None \<Rightarrow> None
           | Some (Some e) \<Rightarrow> Some (Inl (RunChain e))
           | Some None \<Rightarrow>
               if dryRun then Some (Inr None)
               else
                 (case ClientTLSConfig (ho_keyPair io) (ho_readFile io) (ho_parsePool io)
                         (NewConfigurator \<lparr>tf_CertFile = CertFile (ac_TLS cfg), tf_KeyFile = KeyFile (ac_TLS cfg),
                            tf_CAFile = CAFile (ac_TLS cfg), tf_ClientCAFile = [],
                            tf_ServerName = rc_ServerName (ac_Relay cfg)\<rparr>) [WithSessionCache 64] of
                    (Inl e, _) \<Rightarrow> Some (Inl (RunTLS e))
                  | (Inr tls, cf) \<Rightarrow> Some (Inr (Some (cfg, tls, cf))))))"

definition agentLogger :: "LogConfig \<Rightarrow> log_level \<times> log_handler" where
  "agentLogger cfg =
     ((if log_Level cfg = ''debug'' then LevelDebug
       else if log_Level cfg = ''warn'' then LevelWarn
       else if log_Level cfg = ''error'' then LevelError
       else LevelInfo),
      (if log_Format cfg = ''text'' then TextHandler else JSONHandler))"

text \<open>The events of \<^verbatim>\<open>run\<close>, on connecting and on the way out.\<close>
definition agentEvent :: "Action \<Rightarrow> AgentConfig \<Rightarrow> int \<Rightarrow> Event" where
  "agentEvent action cfg now =
     \<lparr>ev_Action = action, ev_Actor = ''agent'', ev_Target = rc_Addr (ac_Relay cfg), ev_Timestamp = now, ev_RequestID = [],
      ev_CustomerID = [], ev_Metadata = []\<rparr>"

text \<open>The shutdown after a signal, for a tunnel whose accept loop serves session \<open>n\<close>: the context is
  cancelled, which ends the loop and then \<^verbatim>\<open>Start\<close>; \<^verbatim>\<open>Stop\<close> waits for that; the deferred \<^verbatim>\<open>Close\<close>
  of the client runs last.\<close>
definition agentShutdown ::
  "AgentConfig \<Rightarrow> TunnelRunner \<Rightarrow> nat \<Rightarrow> int \<Rightarrow> tunnel_error option attempt \<times> Event list \<times> TunnelRunner" where
  "agentShutdown cfg t n now =
     (let (next, t1) = tunnelAccept t n True (AcceptCtx Canceled);
          t2 = snd (Tunnel_Start_supervise t1 True (\<lambda>_. \<lparr>at_ctxDone = True, at_random = 0, at_dial = None, at_now = now\<rparr>));
          (stopped, t3) = Tunnel_Stop t2 None
      in (stopped, [agentEvent ActionAgentDisconnected cfg now], t3\<lparr>tr_client := Client_Close (tr_client t3)\<rparr>))"

lemma client_tls_verifies:
  assumes "ClientTLSConfig keyPair readFile parsePool cf [WithSessionCache k] = (Inr t, cf1)"
  shows "MinVersion t = VersionTLS13" "RootCAs t = Option.bind (readFile (tf_CAFile (cf_paths cf))) parsePool"
    "RootCAs t \<noteq> None" "tc_ServerName t = tf_ServerName (cf_paths cf)"
    "GetCertificate cf1 = keyPair (tf_CertFile (cf_paths cf)) (tf_KeyFile (cf_paths cf))"
  using assms
  by (auto simp: ClientTLSConfig_def LoadCertificate_def LoadCertificateAuthority_def GetCertificate_def Let_def
      split: sum.splits option.splits)

text \<open>An agent that comes to connect has a validated configuration, a chain of certificates, checks
  the relay under its own CA and configured name and at least TLS 1.3, and presents the
  configured pair.\<close>
theorem agent_start_checks:
  assumes "agentPrepare io path False = Some (Inr (Some (cfg, tls, cf)))"
  shows "validateAgentConfig cfg = None \<and>
    ValidateChainCertFile (ho_readFile io) (ho_pemDecode io) (CertFile (ac_TLS cfg)) = Some None \<and>
    MinVersion tls = VersionTLS13 \<and> RootCAs tls \<noteq> None \<and>
    RootCAs tls = Option.bind (ho_readFile io (CAFile (ac_TLS cfg))) (ho_parsePool io) \<and>
    tc_ServerName tls = rc_ServerName (ac_Relay cfg) \<and>
    GetCertificate cf = ho_keyPair io (CertFile (ac_TLS cfg)) (KeyFile (ac_TLS cfg))"
proof -
  let ?cf = "NewConfigurator \<lparr>tf_CertFile = CertFile (ac_TLS cfg), tf_KeyFile = KeyFile (ac_TLS cfg),
    tf_CAFile = CAFile (ac_TLS cfg), tf_ClientCAFile = [], tf_ServerName = rc_ServerName (ac_Relay cfg)\<rparr>"
  have run: "LoadAgentConfig (ho_readFile io) (ho_unmarshal io) (ho_getenv io) path = Inr cfg"
    "ValidateChainCertFile (ho_readFile io) (ho_pemDecode io) (CertFile (ac_TLS cfg)) = Some None"
    "ClientTLSConfig (ho_keyPair io) (ho_readFile io) (ho_parsePool io) ?cf [WithSessionCache 64] = (Inr tls, cf)"
    using assms by (auto simp: agentPrepare_def split: sum.splits option.splits prod.splits)
  moreover have "validateAgentConfig cfg = None"
    using run(1) by (auto simp: LoadAgentConfig_def Let_def split: option.splits)
  ultimately show ?thesis using client_tls_verifies [OF run(3)] by (simp add: NewConfigurator_def)
qed

text \<open>Shutting the agent down never hangs and leaves nothing behind: Stop returns without an error,
  the context of every forward in progress is cancelled, the client is closed, and every
  session it has ever had is closed.\<close>
theorem agent_shutdown_releases:
  assumes "client_inv (tr_client t)" "tr_acceptStopped t = Some False" "agentShutdown cfg t n now = (r, evs, t')"
  shows "r = Returned None \<and> tr_cancelAccept t' = Some True \<and> tr_acceptStopped t' = Some True \<and>
    tr_forwards t' = tr_forwards t \<and> tc_closed (tr_client t') \<and> tc_mux (tr_client t') = None \<and>
    (\<forall>i < length (tc_sessions (tr_client t')). closeCh (tc_sessions (tr_client t') ! i)) \<and>
    map ev_Action evs = [ActionAgentDisconnected]"
proof -
  have acc: "tunnelAccept t n True (AcceptCtx Canceled) = (AcceptReturns None, t\<lparr>tr_cancelAccept := Some True\<rparr>)"
    by (simp add: tunnelAccept_def AcceptStream_def setSession_def)
  have t': "r = Returned None" "t' = t\<lparr>tr_cancelAccept := Some True, tr_acceptStopped := Some True,
      tr_client := Client_Close (tr_client t)\<rparr>" "evs = [agentEvent ActionAgentDisconnected cfg now]"
    using assms(3) by (auto simp: agentShutdown_def acc Tunnel_Start_supervise_def Tunnel_Stop_def Let_def)
  have inv: "client_inv (Client_Close (tr_client t))" using assms(1) by (rule client_inv_Close)
  have closed: "tc_closed (Client_Close (tr_client t))" by (simp add: Client_Close_def)
  with inv have "tc_mux (Client_Close (tr_client t)) = None" by (simp add: client_inv_def)
  with inv closed t' show ?thesis by (simp add: client_inv_def agentEvent_def)
qed

theorem agent_shutdown_releases_witness:
  "let t = Tunnel_Start_begin exampleTunnel 1; (r, _, t') = agentShutdown exampleAgentConfig t 0 2
   in r = Returned None \<and> tc_sessions (tr_client t') \<noteq> [] \<and> closeCh (tc_sessions (tr_client t') ! 0)"
proof -
  let ?t = "Tunnel_Start_begin exampleTunnel 1"
  have f: "client_inv (tr_client ?t)" "tr_acceptStopped ?t = Some False" "length (tc_sessions (tr_client ?t)) = 1"
    using exampleTunnel_fields(4)
    by (simp_all add: Tunnel_Start_begin_def exampleTunnel_client Client_Connect_def Connect_begin_def Connect_finish_def
        NewClient_def)
  obtain r evs t' where s: "agentShutdown exampleAgentConfig ?t 0 2 = (r, evs, t')" by (metis prod_cases3)
  have "length (tc_sessions (tr_client t')) = 1"
    using s f(3) by (auto simp: agentShutdown_def tunnelAccept_def AcceptStream_def setSession_def Tunnel_Start_supervise_def
        Tunnel_Stop_def Let_def Client_Close_def split: prod.splits option.splits bool.splits)
  with agent_shutdown_releases [OF f(1,2) s] s show ?thesis by (auto simp: Let_def)
qed

end
