(* ===== verification/Agent_Process.thy ===== *)
theory Agent_Process
  imports Agent_Main
begin

text \<open>
  The running agent, \<^verbatim>\<open>run\<close> of \<^verbatim>\<open>src/cmd/agent/main.go\<close>: the tunnel goroutine with its place in
  \<^verbatim>\<open>Start\<close>, the heartbeat and the sessions of the client, the forwards, the certificate watcher, the
  wait for a signal or for the end of the tunnel, and the shutdown.
\<close>

section \<open>State\<close>

text \<open>Where the tunnel goroutine is: about to enter \<^verbatim>\<open>acceptLoop\<close>, waiting in it on a session, past it
  in \<^verbatim>\<open>Start\<close>, or returned.\<close>
datatype tunnel_pc = PcLoop | PcAccept nat | PcSupervise | PcReturned "tunnel_error option"

record 'c agent_process =
  ap_tunnel :: TunnelRunner
  ap_pc :: tunnel_pc
  ap_events :: "Event list"
  ap_tls :: "'c Configurator"
  ap_fingerprint :: "string option"
  ap_cancelled :: bool

text \<open>\<^verbatim>\<open>run\<close> up to its wait: the connected client, the first event, the started tunnel and the watcher.\<close>
definition agentLaunch ::
  "AgentConfig \<Rightarrow> Writer option \<Rightarrow> int \<Rightarrow> 'c Configurator \<Rightarrow> (bytes \<Rightarrow> bytes) \<Rightarrow> bytes option \<Rightarrow>
   client_error + 'c agent_process" where
  "agentLaunch cfg dialed now cf sha certFile =
     (case agentBuild cfg dialed now of
        Inl e \<Rightarrow> Inl e
      | Inr t \<Rightarrow>
          Inr \<lparr>ap_tunnel = Tunnel_Start_begin t now, ap_pc = PcLoop, ap_events = [agentEvent ActionAgentConnected cfg now],
               ap_tls = cf, ap_fingerprint = Watch_begin sha certFile, ap_cancelled = False\<rparr>)"

section \<open>Events\<close>

text \<open>The next step of the tunnel goroutine, with what its \<^verbatim>\<open>AcceptStream\<close> finds and how its attempts to
  reconnect go.\<close>
definition tunnelStep :: "'c agent_process \<Rightarrow> accept_wait \<Rightarrow> (nat \<Rightarrow> attempt_env) \<Rightarrow> 'c agent_process" where
  "tunnelStep p w env =
     (case ap_pc p of
        PcLoop \<Rightarrow>
          (case acceptLoop_begin (ap_tunnel p) of
             (Inl _, t) \<Rightarrow> p\<lparr>ap_tunnel := t, ap_pc := PcSupervise\<rparr>
           | (Inr n, t) \<Rightarrow> p\<lparr>ap_tunnel := t, ap_pc := PcAccept n\<rparr>)
      | PcAccept n \<Rightarrow>
          (case tunnelAccept (ap_tunnel p) n (ap_cancelled p) w of
             (AcceptReturns _, t) \<Rightarrow> p\<lparr>ap_tunnel := t, ap_pc := PcSupervise\<rparr>
           | (_, t) \<Rightarrow> p\<lparr>ap_tunnel := t\<rparr>)
      | PcSupervise \<Rightarrow>
          (case Tunnel_Start_supervise (ap_tunnel p) (ap_cancelled p) env of
             (StartLoops, t) \<Rightarrow> p\<lparr>ap_tunnel := t, ap_pc := PcLoop\<rparr>
           | (StartReturns e, t) \<Rightarrow> p\<lparr>ap_tunnel := t, ap_pc := PcReturned e\<rparr>)
      | PcReturned _ \<Rightarrow> p)"

definition onClient :: "'c agent_process \<Rightarrow> (TunnelClient \<Rightarrow> TunnelClient) \<Rightarrow> 'c agent_process" where
  "onClient p f = p\<lparr>ap_tunnel := (ap_tunnel p)\<lparr>tr_client := f (tr_client (ap_tunnel p))\<rparr>\<rparr>"

text \<open>A tick of the watcher goroutine, which calls \<^verbatim>\<open>Reload\<close> with a new pair.\<close>
definition agentWatch :: "(bytes \<Rightarrow> bytes) \<Rightarrow> 'c agent_process \<Rightarrow> bytes option \<Rightarrow> 'c option \<Rightarrow> 'c agent_process" where
  "agentWatch sha p content pair =
     (case ap_fingerprint p of
        None \<Rightarrow> p
      | Some fp \<Rightarrow>
          (case watch_run sha (fp, ap_tls p) [(content, pair)] of
             (fp', cf) \<Rightarrow> p\<lparr>ap_fingerprint := Some fp', ap_tls := cf\<rparr>))"

datatype 'c agent_event =
    AgTunnel accept_wait "nat \<Rightarrow> attempt_env"
  | AgHeartbeat heartbeat_event
  | AgSession nat mux_action
  | AgForwardDone "nat \<times> ref \<times> string"
  | AgTick "bytes option" "'c option"

definition agentStep :: "(bytes \<Rightarrow> bytes) \<Rightarrow> 'c agent_process \<Rightarrow> 'c agent_event \<Rightarrow> 'c agent_process" where
  "agentStep sha p e =
     (case e of
        AgTunnel w env \<Rightarrow> tunnelStep p w env
      | AgHeartbeat ev \<Rightarrow> onClient p (\<lambda>c. fst (runHeartbeat c ev))
      | AgSession n act \<Rightarrow>
          onClient p (\<lambda>c. c\<lparr>tc_sessions := (tc_sessions c)[n := mux_exec (tc_sessions c ! n) act]\<rparr>)
      | AgForwardDone fw \<Rightarrow> p\<lparr>ap_tunnel := forwardReturns (ap_tunnel p) fw\<rparr>
      | AgTick content pair \<Rightarrow> agentWatch sha p content pair)"

section \<open>The wait and the shutdown\<close>

datatype 'c agent_wait = AgRuns "'c agent_event" | AgSignal | AgTunnelDone

text \<open>The process when \<^verbatim>\<open>run\<close> goes on to shut down, or None while it waits.\<close>
fun agentWait :: "(bytes \<Rightarrow> bytes) \<Rightarrow> 'c agent_process \<Rightarrow> 'c agent_wait list \<Rightarrow> 'c agent_process option" where
  "agentWait sha p [] = None"
| "agentWait sha p (AgSignal # es) = Some p"
| "agentWait sha p (AgTunnelDone # es) = (case ap_pc p of PcReturned _ \<Rightarrow> Some p | _ \<Rightarrow> agentWait sha p es)"
| "agentWait sha p (AgRuns e # es) = agentWait sha (agentStep sha p e) es"

text \<open>After the wait: \<^verbatim>\<open>cancel()\<close>, whatever still happens (\<open>es\<close>) while \<^verbatim>\<open>tunnel.Stop\<close> waits, and, when that
  returns, the last event and the deferred \<^verbatim>\<open>Close\<close> of the client.\<close>
definition agentStop ::
  "(bytes \<Rightarrow> bytes) \<Rightarrow> AgentConfig \<Rightarrow> 'c agent_process \<Rightarrow> 'c agent_event list \<Rightarrow> int \<Rightarrow>
   tunnel_error option attempt \<times> 'c agent_process" where
  "agentStop sha cfg p es now =
     (let p1 = foldl (agentStep sha) (p\<lparr>ap_cancelled := True\<rparr>) es in
      (case Tunnel_Stop (ap_tunnel p1) None of
         (Blocked, t) \<Rightarrow> (Blocked, p1\<lparr>ap_tunnel := t\<rparr>)
       | (Returned e, t) \<Rightarrow>
           (Returned e, p1\<lparr>ap_tunnel := t\<lparr>tr_client := Client_Close (tr_client t)\<rparr>,
                           ap_events := ap_events p1 @ [agentEvent ActionAgentDisconnected cfg now]\<rparr>)))"

section \<open>The client and its sessions\<close>

lemma client_inv_session:
  assumes "client_inv c" "closeCh (tc_sessions c ! n) \<Longrightarrow> closeCh m"
  shows "client_inv (c\<lparr>tc_sessions := (tc_sessions c)[n := m]\<rparr>)"
proof -
  have "tc_mux c = Some i \<or> closeCh ((tc_sessions c)[n := m] ! i)" if "i < length (tc_sessions c)" for i
    using assms that by (cases "i = n") (auto simp: client_inv_def)
  with assms(1) show ?thesis by (simp add: client_inv_def)
qed

lemma client_inv_accept:
  assumes "client_inv (tr_client t)" "tunnelAccept t n d w = (r, t')" shows "client_inv (tr_client t')"
proof -
  obtain a m where a: "AcceptStream (tc_sessions (tr_client t) ! n) w = (a, m)" by fastforce
  have m: "closeCh (tc_sessions (tr_client t) ! n) \<Longrightarrow> closeCh m"
    using closed_stays [of "tc_sessions (tr_client t) ! n" "ActAccept w"] by (simp add: mux_exec_def a)
  have "closeCh m \<Longrightarrow> closeCh (streamReset m r 1)" for r by (erule steady_closed) (rule streamReset_keeps)
  with m client_inv_session [OF assms(1), of n] show ?thesis
    using assms by (auto simp: tunnelAccept_def a setSession_def Let_def split: if_splits attempt.splits sum.splits)
qed

lemma client_inv_supervise:
  assumes "client_inv (tr_client t)" "\<not> tc_closed (tr_client t)" "Tunnel_Start_supervise t d env = (r, t')"
  shows "client_inv (tr_client t')" "\<not> tc_closed (tr_client t')"
proof -
  let ?c = "(tr_client t)\<lparr>tc_disconnect := False\<rparr>"
  have inv: "client_inv ?c" using assms(1) by (simp add: client_inv_def)
  obtain e ds c' where r: "Reconnect env ?c = (e, ds, c')" by (metis prod_cases3)
  have "client_inv c'"
    using reconnectLoop_spec [of "teardown ?c"] client_inv_teardown [OF inv] r by (auto simp: Reconnect_def Let_def)
  then show "client_inv (tr_client t')"
    using assms(1,3) r by (auto simp: Tunnel_Start_supervise_def split: if_splits option.splits)
  have "\<not> tc_closed c2" if "reconnectLoop env m k j c1 = (e1, ds1, c2)" "\<not> tc_closed c1" for m k j c1 e1 ds1 c2
    using that
  proof (induction j arbitrary: k c1 e1 ds1)
    case (Suc j)
    then show ?case
      by (auto simp: Let_def Client_Connect_def Connect_begin_def Connect_finish_def split: if_splits option.splits prod.splits)
  qed simp
  from this [of _ _ _ "teardown ?c"] show "\<not> tc_closed (tr_client t')"
    using assms(2,3) r by (auto simp: Tunnel_Start_supervise_def Reconnect_def Let_def split: if_splits option.splits)
qed

section \<open>Invariant of the process\<close>

definition pcEnded :: "tunnel_pc \<Rightarrow> bool" where
  "pcEnded pc = (case pc of PcReturned _ \<Rightarrow> True | _ \<Rightarrow> False)"

text \<open>For the addresses \<open>A\<close> of the configured services: only these are dialled; every session but the
  current one is closed; and outside the accept loop the context of the last one is cancelled.\<close>
definition agent_inv :: "string set \<Rightarrow> 'c agent_process \<Rightarrow> bool" where
  "agent_inv A p \<longleftrightarrow>
     (let t = ap_tunnel p in
      client_inv (tr_client t) \<and> \<not> tc_closed (tr_client t) \<and> counted t \<and> snd ` set (tr_services t) \<subseteq> A \<and>
      (\<forall>fw \<in> set (tr_forwards t). snd (snd fw) \<in> A) \<and> tr_acceptStopped t = Some (pcEnded (ap_pc p)) \<and>
      (ap_pc p = PcSupervise \<or> pcEnded (ap_pc p) \<longrightarrow> tr_cancelAccept t = Some True))"

lemma resolveTarget_in: "resolveTarget t payload \<noteq> [] \<Longrightarrow> resolveTarget t payload \<in> snd ` set (tr_services t)"
  by (force simp: resolveTarget_def split: option.splits if_splits list.splits dest: map_of_SomeD)

lemma tunnelAccept_fields:
  assumes "tunnelAccept t n d w = (r, t')"
  shows "tr_services t' = tr_services t" "tr_acceptStopped t' = tr_acceptStopped t" "tc_closed (tr_client t') = tc_closed (tr_client t)"
    "\<forall>fw \<in> set (tr_forwards t'). fw \<in> set (tr_forwards t) \<or> snd (snd fw) \<in> snd ` set (tr_services t)"
    "\<And>e. r = AcceptReturns e \<Longrightarrow> tr_cancelAccept t' = Some True"
proof -
  have res: "resolveTarget (setSession t n m) payload \<noteq> [] \<Longrightarrow>
      resolveTarget (setSession t n m) payload \<in> snd ` set (tr_services t)" for m payload
    using resolveTarget_in [of "setSession t n m"] by (simp add: setSession_def)
  show "tr_services t' = tr_services t" "tr_acceptStopped t' = tr_acceptStopped t" "tc_closed (tr_client t') = tc_closed (tr_client t)"
    "\<forall>fw \<in> set (tr_forwards t'). fw \<in> set (tr_forwards t) \<or> snd (snd fw) \<in> snd ` set (tr_services t)"
    "\<And>e. r = AcceptReturns e \<Longrightarrow> tr_cancelAccept t' = Some True"
    using assms res by (auto simp: tunnelAccept_def setSession_def Let_def split: if_splits attempt.splits sum.splits prod.splits)
qed

lemma supervise_fields:
  assumes "Tunnel_Start_supervise t d env = (r, t')"
  shows "tr_services t' = tr_services t" "tr_forwards t' = tr_forwards t" "tr_cancelAccept t' = tr_cancelAccept t"
    "r = StartLoops \<Longrightarrow> tr_acceptStopped t' = tr_acceptStopped t" "r = StartReturns e \<Longrightarrow> tr_acceptStopped t' = Some True"
  using assms by (auto simp: Tunnel_Start_supervise_def split: if_splits option.splits prod.splits)

lemma agent_inv_tunnelStep:
  assumes "agent_inv A p" shows "agent_inv A (tunnelStep p w env)"
proof (cases "ap_pc p")
  case PcLoop
  then show ?thesis using assms
    by (auto simp: tunnelStep_def acceptLoop_begin_def agent_inv_def Let_def pcEnded_def counted_def split: option.splits)
next
  case (PcAccept n)
  obtain r t where t: "tunnelAccept (ap_tunnel p) n (ap_cancelled p) w = (r, t)" by fastforce
  have "counted t" using assms counted_exec [of "ap_tunnel p" "TAccept n (ap_cancelled p) w"] t
    by (simp add: tunnel_exec_def agent_inv_def Let_def)
  then show ?thesis using assms client_inv_accept [OF _ t] tunnelAccept_fields [OF t]
    by (fastforce simp: tunnelStep_def PcAccept t agent_inv_def Let_def pcEnded_def split: accept_next.splits)
next
  case PcSupervise
  obtain r t where t: "Tunnel_Start_supervise (ap_tunnel p) (ap_cancelled p) env = (r, t)" by fastforce
  have "counted t" using assms counted_exec [of "ap_tunnel p" "TSupervise (ap_cancelled p) env"] t
    by (simp add: tunnel_exec_def agent_inv_def Let_def)
  then show ?thesis using assms client_inv_supervise [OF _ _ t] supervise_fields [OF t]
    by (auto simp: tunnelStep_def PcSupervise t agent_inv_def Let_def pcEnded_def split: start_next.splits)
qed (use assms in \<open>simp add: tunnelStep_def\<close>)

lemma agent_inv_step:
  assumes "agent_inv A p" shows "agent_inv A (agentStep sha p e)"
proof (cases e)
  case (AgHeartbeat ev)
  have "tc_closed (fst (runHeartbeat c ev)) = tc_closed c" for c
    by (simp add: runHeartbeat_def split: heartbeat_event.splits option.splits)
  then show ?thesis using assms client_inv_heartbeat
    by (simp add: AgHeartbeat agentStep_def onClient_def agent_inv_def Let_def counted_def)
next
  case (AgSession n act)
  then show ?thesis using assms client_inv_session [OF _ closed_stays]
    by (simp add: agentStep_def onClient_def agent_inv_def Let_def counted_def)
next
  case (AgForwardDone fw)
  then show ?thesis using assms counted_forwardReturns [of "ap_tunnel p" fw] set_remove1_subset [of fw "tr_forwards (ap_tunnel p)"]
    by (auto simp: agentStep_def agent_inv_def Let_def forwardReturns_def)
next
  case (AgTick content pair)
  then show ?thesis using assms
    by (auto simp: agentStep_def agentWatch_def agent_inv_def Let_def split: option.splits prod.splits)
qed (use assms agent_inv_tunnelStep in \<open>simp add: agentStep_def\<close>)

lemma agent_inv_run: "agent_inv A p \<Longrightarrow> agent_inv A (foldl (agentStep sha) p es)"
  by (induction es arbitrary: p) (simp_all add: agent_inv_step)

lemma services_addrs:
  "snd ` set (foldl (\<lambda>m s. AList.update (sm_Name s) (sm_LocalAddr s) m) m0 ss) \<subseteq> snd ` set m0 \<union> sm_LocalAddr ` set ss"
proof (induction ss arbitrary: m0)
  case (Cons s ss)
  have "snd ` set (AList.update (sm_Name s) (sm_LocalAddr s) m0) \<subseteq> insert (sm_LocalAddr s) (snd ` set m0)"
    by (induction m0) auto
  with Cons [of "AList.update (sm_Name s) (sm_LocalAddr s) m0"] show ?case by auto
qed simp

lemma agent_inv_launch:
  assumes "agentLaunch cfg dialed now cf sha certFile = Inr p"
  shows "agent_inv (sm_LocalAddr ` set (ac_Services cfg)) p" "map ev_Action (ap_events p) = [ActionAgentConnected]"
proof -
  have n: "tc_mux (NewClient k b) = None" "\<not> tc_closed (NewClient k b)" for k b by (simp_all add: NewClient_def)
  obtain c where c: "Client_Connect (NewClient (agentClientConfig cfg) None) dialed now = (None, c)"
    and p: "p = \<lparr>ap_tunnel = Tunnel_Start_begin (NewTunnel c
            \<lparr>fw_DialTimeout = 5 * 10 ^ 9, fw_IdleTimeout = 0, fw_BufferSize = 32 * 1024, fw_LingerTimeout = 0\<rparr>
            (ac_Services cfg)) now, ap_pc = PcLoop, ap_events = [agentEvent ActionAgentConnected cfg now],
               ap_tls = cf, ap_fingerprint = Watch_begin sha certFile, ap_cancelled = False\<rparr>"
    using assms by (auto simp: agentLaunch_def agentBuild_def split: sum.splits option.splits prod.splits)
  have "client_inv c" using client_inv_Connect(1) [OF client_inv_New n(1)] c by (metis snd_conv)
  moreover have "\<not> tc_closed c"
    using c n(2) [of "agentClientConfig cfg" None]
    by (auto simp: Client_Connect_def Connect_begin_def Connect_finish_def split: option.splits)
  ultimately show "agent_inv (sm_LocalAddr ` set (ac_Services cfg)) p"
    using services_addrs [of "[]" "ac_Services cfg"]
    by (simp add: p agent_inv_def Let_def NewTunnel_def Tunnel_Start_begin_def counted_def pcEnded_def)
  show "map ev_Action (ap_events p) = [ActionAgentConnected]" by (simp add: p agentEvent_def)
qed

section \<open>The whole program\<close>

text \<open>C25. Whatever the relay asks for and however often the connection is lost, the agent only ever dials
  the local addresses of its configured services; it reports the forwards that are in progress;
  and it holds at most one session open.\<close>
theorem agent_dials_configured:
  assumes "agentLaunch cfg dialed now cf sha certFile = Inr p0" "p = foldl (agentStep sha) p0 es"
  shows "(\<forall>fw \<in> set (tr_forwards (ap_tunnel p)). snd (snd fw) \<in> sm_LocalAddr ` set (ac_Services cfg) \<and> snd (snd fw) \<noteq> []) \<and>
    tr_activeStreams (ap_tunnel p) = of_nat (length (tr_forwards (ap_tunnel p))) \<and>
    (\<exists>cur. \<forall>i < length (tc_sessions (tr_client (ap_tunnel p))). i \<noteq> cur \<longrightarrow> closeCh (tc_sessions (tr_client (ap_tunnel p)) ! i))"
proof -
  have "agent_inv (sm_LocalAddr ` set (ac_Services cfg)) p"
    unfolding assms(2) by (rule agent_inv_run [OF agent_inv_launch(1) [OF assms(1)]])
  then have inv: "client_inv (tr_client (ap_tunnel p))" "counted (ap_tunnel p)"
    "\<forall>fw \<in> set (tr_forwards (ap_tunnel p)). snd (snd fw) \<in> sm_LocalAddr ` set (ac_Services cfg)"
    unfolding agent_inv_def Let_def by blast+
  have "closeCh (tc_sessions (tr_client (ap_tunnel p)) ! i)"
    if "i < length (tc_sessions (tr_client (ap_tunnel p)))" "i \<noteq> the (tc_mux (tr_client (ap_tunnel p)))" for i
    using inv(1) that by (auto simp: client_inv_def)
  with inv(2,3) show ?thesis by (auto simp: counted_def)
qed

lemma agentWait_reaches:
  "agentWait sha p es = Some q \<Longrightarrow> \<exists>pre. q = foldl (agentStep sha) p pre"
proof (induction sha p es rule: agentWait.induct)
  case (4 sha p e es)
  then obtain pre where "q = foldl (agentStep sha) (agentStep sha p e) pre" by auto
  then show ?case by (metis foldl_Cons)
qed (auto intro: exI [of _ "[]"] split: tunnel_pc.splits)

lemma agentStep_keeps [simp]:
  "ap_cancelled (agentStep sha p e) = ap_cancelled p" "ap_events (agentStep sha p e) = ap_events p"
  by (auto simp: agentStep_def tunnelStep_def onClient_def agentWatch_def
      split: agent_event.splits tunnel_pc.splits prod.splits sum.splits accept_next.splits start_next.splits option.splits)

lemma agentRun_keeps [simp]:
  "ap_cancelled (foldl (agentStep sha) p es) = ap_cancelled p" "ap_events (foldl (agentStep sha) p es) = ap_events p"
  by (induction es arbitrary: p) simp_all

text \<open>Once the context is cancelled, steps that see it bring the tunnel goroutine to its end.\<close>
definition pcRank :: "tunnel_pc \<Rightarrow> nat" where
  "pcRank pc = (case pc of PcLoop \<Rightarrow> 3 | PcAccept _ \<Rightarrow> 2 | PcSupervise \<Rightarrow> 1 | PcReturned _ \<Rightarrow> 0)"

lemma tunnelStep_rank:
  assumes "ap_cancelled p" shows "pcRank (ap_pc (agentStep sha p (AgTunnel (AcceptCtx Canceled) env))) \<le> pcRank (ap_pc p) - 1"
proof (cases "ap_pc p")
  case (PcAccept n)
  have "fst (tunnelAccept t n True (AcceptCtx Canceled)) = AcceptReturns None" for t
    by (simp add: tunnelAccept_def AcceptStream_def)
  then obtain t where "tunnelAccept (ap_tunnel p) n True (AcceptCtx Canceled) = (AcceptReturns None, t)"
    by (metis prod.collapse)
  then show ?thesis using assms by (simp add: agentStep_def tunnelStep_def PcAccept pcRank_def)
qed (use assms in \<open>auto simp: agentStep_def tunnelStep_def acceptLoop_begin_def Tunnel_Start_supervise_def pcRank_def
    split: option.splits\<close>)

lemma tunnel_drains:
  assumes "ap_cancelled p"
  shows "pcEnded (ap_pc (foldl (agentStep sha) p (map (AgTunnel (AcceptCtx Canceled)) [e1, e2, e3])))"
proof -
  let ?s = "\<lambda>q e. agentStep sha q (AgTunnel (AcceptCtx Canceled) e)"
  have "pcRank (ap_pc p) \<le> 3" by (simp add: pcRank_def split: tunnel_pc.splits)
  moreover have "pcRank (ap_pc (?s (?s (?s p e1) e2) e3)) \<le> pcRank (ap_pc p) - 1 - 1 - 1"
    using tunnelStep_rank [of "?s (?s p e1) e2" sha e3] tunnelStep_rank [of "?s p e1" sha e2] tunnelStep_rank [of p sha e1] assms
    by simp
  ultimately show ?thesis by (simp add: pcRank_def pcEnded_def split: tunnel_pc.splits)
qed

text \<open>C26. However the agent has run, and whether a signal or the end of the tunnel makes it stop: the tunnel's
  Stop returns once the goroutine has had three steps that see the cancelled context, whatever it
  still accepted before; and when it has returned, the goroutine has ended, the context of the
  forwards is cancelled, the client and every session it ever had are closed, and the audit log
  has one event for the start and one for the end.\<close>
theorem agent_run_releases:
  assumes "agentLaunch cfg dialed now cf sha certFile = Inr p0" "agentWait sha p0 es = Some p"
    "agentStop sha cfg p rest now' = (r, q)"
  shows "(\<forall>pre e1 e2 e3. rest = pre @ map (AgTunnel (AcceptCtx Canceled)) [e1, e2, e3] \<longrightarrow> r \<noteq> Blocked) \<and>
    (r \<noteq> Blocked \<longrightarrow> r = Returned None \<and> pcEnded (ap_pc q) \<and> tr_cancelAccept (ap_tunnel q) = Some True \<and>
       tc_closed (tr_client (ap_tunnel q)) \<and> tc_mux (tr_client (ap_tunnel q)) = None \<and>
       (\<forall>i < length (tc_sessions (tr_client (ap_tunnel q))). closeCh (tc_sessions (tr_client (ap_tunnel q)) ! i)) \<and>
       map ev_Action (ap_events q) = [ActionAgentConnected, ActionAgentDisconnected])"
proof -
  let ?A = "sm_LocalAddr ` set (ac_Services cfg)"
  define p1 where "p1 = foldl (agentStep sha) (p\<lparr>ap_cancelled := True\<rparr>) rest"
  obtain pre where p: "p = foldl (agentStep sha) p0 pre" using agentWait_reaches [OF assms(2)] by blast
  have "agent_inv ?A p" unfolding p by (rule agent_inv_run [OF agent_inv_launch(1) [OF assms(1)]])
  then have "agent_inv ?A (p\<lparr>ap_cancelled := True\<rparr>)" by (simp add: agent_inv_def)
  then have i1: "agent_inv ?A p1" unfolding p1_def by (rule agent_inv_run)
  have ev: "map ev_Action (ap_events p1) = [ActionAgentConnected]"
    using agent_inv_launch(2) [OF assms(1)] by (simp add: p1_def p)
  have stop: "Tunnel_Stop (ap_tunnel p1) None =
      (if pcEnded (ap_pc p1) then Returned None else Blocked,
       (ap_tunnel p1)\<lparr>tr_cancelAccept := map_option (\<lambda>_. True) (tr_cancelAccept (ap_tunnel p1))\<rparr>)"
    using i1 by (simp add: agent_inv_def Let_def Tunnel_Stop_def)
  have ended: "r \<noteq> Blocked \<longleftrightarrow> pcEnded (ap_pc p1)"
    using assms(3) by (auto simp: agentStop_def p1_def [symmetric] stop Let_def split: if_splits)
  have drains: "pcEnded (ap_pc p1)" if "rest = pre @ map (AgTunnel (AcceptCtx Canceled)) [e1, e2, e3]" for pre e1 e2 e3
    using tunnel_drains [of "foldl (agentStep sha) (p\<lparr>ap_cancelled := True\<rparr>) pre" sha e1 e2 e3]
    by (simp add: p1_def that)
  let ?c = "Client_Close (tr_client (ap_tunnel p1))"
  have rel: "r = Returned None \<and> pcEnded (ap_pc q) \<and> tr_cancelAccept (ap_tunnel q) = Some True \<and>
      tr_client (ap_tunnel q) = ?c \<and>
      map ev_Action (ap_events q) = [ActionAgentConnected, ActionAgentDisconnected]" if "pcEnded (ap_pc p1)"
    using assms(3) that i1 ev by (auto simp: agentStop_def p1_def [symmetric] stop Let_def agent_inv_def agentEvent_def)
  have "client_inv ?c" using i1 by (simp add: agent_inv_def Let_def client_inv_Close)
  moreover have cl: "tc_closed ?c" by (simp add: Client_Close_def)
  ultimately have "tc_mux ?c = None" "\<forall>i < length (tc_sessions ?c). closeCh (tc_sessions ?c ! i)"
    unfolding client_inv_def by auto
  with drains rel cl show ?thesis unfolding ended by metis
qed

definition exampleAgentStart :: "bool agent_process" where
  "exampleAgentStart =
     \<lparr>ap_tunnel = Tunnel_Start_begin exampleTunnel 1, ap_pc = PcLoop,
      ap_events = [agentEvent ActionAgentConnected exampleAgentConfig 1],
      ap_tls = \<lparr>cf_paths = \<lparr>tf_CertFile = ''c'', tf_KeyFile = ''k'', tf_CAFile = ''a'', tf_ClientCAFile = [], tf_ServerName = []\<rparr>,
                currentCert = None\<rparr>, ap_fingerprint = None, ap_cancelled = False\<rparr>"

lemma exampleAgentStart_launch:
  "agentLaunch exampleAgentConfig (Some \<lparr>written = [], room = None\<rparr>) 1 (ap_tls exampleAgentStart) (\<lambda>d. d) None = Inr exampleAgentStart"
proof -
  have "agentBuild exampleAgentConfig (Some \<lparr>written = [], room = None\<rparr>) 1 = Inr exampleTunnel"
    by (simp add: exampleTunnel_def agentBuild_def Client_Connect_def Connect_begin_def Connect_finish_def NewClient_def)
  then show ?thesis by (simp add: agentLaunch_def exampleAgentStart_def Watch_begin_def certFingerprint_def)
qed

text \<open>A step of the goroutine while nothing is there to accept, and attempts that would fail.\<close>
definition idleStep :: "accept_wait \<Rightarrow> bool agent_event" where
  "idleStep w = AgTunnel w (\<lambda>_. \<lparr>at_ctxDone = False, at_random = 0, at_dial = None, at_now = 2\<rparr>)"

theorem agent_run_releases_witness:
  "let p = agentStep (\<lambda>d. d) exampleAgentStart (idleStep AcceptStreamReady);
       (r, q) = agentStop (\<lambda>d. d) exampleAgentConfig p (map idleStep [AcceptCtx Canceled, AcceptCtx Canceled, AcceptCtx Canceled]) 3
   in agentWait (\<lambda>d. d) exampleAgentStart [AgRuns (idleStep AcceptStreamReady), AgSignal] = Some p \<and>
      r = Returned None \<and> tc_closed (tr_client (ap_tunnel q)) \<and>
      map ev_Action (ap_events q) = [ActionAgentConnected, ActionAgentDisconnected]"
proof -
  let ?p = "agentStep (\<lambda>d. d) exampleAgentStart (idleStep AcceptStreamReady)"
  let ?rest = "map idleStep [AcceptCtx Canceled, AcceptCtx Canceled, AcceptCtx Canceled]"
  let ?env = "\<lambda>_::nat. \<lparr>at_ctxDone = False, at_random = 0, at_dial = None, at_now = 2\<rparr>"
  have w: "agentWait (\<lambda>d. d) exampleAgentStart [AgRuns (idleStep AcceptStreamReady), AgSignal] = Some ?p" by simp
  obtain r q where s: "agentStop (\<lambda>d. d) exampleAgentConfig ?p ?rest 3 = (r, q)" by fastforce
  have "?rest = [] @ map (AgTunnel (AcceptCtx Canceled)) [?env, ?env, ?env]" by (simp add: idleStep_def)
  with agent_run_releases [OF exampleAgentStart_launch w s] s w show ?thesis unfolding Let_def by auto
qed

text \<open>The relay opens a stream for \<open>smb\<close>, which the agent accepts.\<close>
definition askedEvents :: "bool agent_event list" where
  "askedEvents = [idleStep AcceptStreamReady,
     AgSession 0 (ActFrame (mkFrame CmdStreamOpen 0 1 (bytes_of_string ''smb'')) True), idleStep AcceptStreamReady]"

theorem agent_dials_configured_witness:
  "let p = foldl (agentStep (\<lambda>d. d)) exampleAgentStart askedEvents
   in map (\<lambda>fw. snd (snd fw)) (tr_forwards (ap_tunnel p)) = [''127.0.0.1:445''] \<and>
      ''127.0.0.1:445'' \<in> sm_LocalAddr ` set (ac_Services exampleAgentConfig) \<and> tr_activeStreams (ap_tunnel p) = 1"
proof -
  let ?p = "foldl (agentStep (\<lambda>d. d)) exampleAgentStart askedEvents"
  have "tr_forwards (ap_tunnel ?p) = [(0, 0, ''127.0.0.1:445'')]"
    by (simp add: askedEvents_def idleStep_def exampleAgentStart_def agentStep_def tunnelStep_def onClient_def
        Tunnel_Start_begin_def acceptLoop_begin_def tunnelAccept_def setSession_def AcceptStream_def exampleTunnel_def agentBuild_def
        agentClientConfig_def agentServiceNames_def agentSession_def SendServiceList_def
        Client_Connect_def Connect_begin_def Connect_finish_def NewClient_def
        NewTunnel_def resolveTarget_def exampleAgentConfig_def mux_exec_def peer_defs newStream_def SetOpenPayload_def)
  with agent_dials_configured [OF exampleAgentStart_launch refl, of askedEvents] show ?thesis by (simp add: Let_def)
qed

end
