(* ===== verification/Hosted_Sessions.thy ===== *)
theory Hosted_Sessions
  imports Relay_Process Agent_Process
begin

text \<open>
  Both programs hold multiplexer sessions and drive them through the methods of \<^verbatim>\<open>mux_session.go\<close>
  only.  The locale \<open>session_host\<close> states this of a program's step function; it is interpreted by both
  processes, and makes every session of a running program a run of the multiplexer, so that what
  holds of all runs holds inside the programs.
\<close>

section \<open>Sessions that go on\<close>

text \<open>A session that a side has started and that has opened at most \<open>k\<close> streams itself.\<close>
definition startedBy :: "MuxRole \<Rightarrow> nat \<Rightarrow> MuxSession \<Rightarrow> bool" where
  "startedBy side k m \<longleftrightarrow> (\<exists>w cfg acts. m = mux_run (NewMuxSession w side cfg) acts \<and> opensIn acts \<le> k)"

text \<open>Every session of the second set goes on from one of the first, with at most \<open>j\<close> opens.\<close>
definition follows :: "nat \<Rightarrow> MuxSession set \<Rightarrow> MuxSession set \<Rightarrow> bool" where
  "follows j S S' \<longleftrightarrow> (\<forall>m' \<in> S'. \<exists>m \<in> S. \<exists>acts. m' = mux_run m acts \<and> opensIn acts \<le> j)"

lemma mux_run_append: "mux_run m (as @ bs) = mux_run (mux_run m as) bs"
  by (simp add: mux_run_def)

lemma startedBy_new: "startedBy side 0 (mux_run (NewMuxSession w side cfg) acts)" if "opensIn acts = 0"
  using that unfolding startedBy_def by auto

lemma startedBy_follows:
  assumes "\<forall>m \<in> S. startedBy side k m" "follows j S S'" "m' \<in> S'"
  shows "startedBy side (k + j) m'"
proof -
  obtain m acts where m: "m \<in> S" "m' = mux_run m acts" "opensIn acts \<le> j" using assms(2,3) unfolding follows_def by blast
  obtain w cfg as where "m = mux_run (NewMuxSession w side cfg) as" "opensIn as \<le> k"
    using assms(1) m(1) unfolding startedBy_def by blast
  with m(2,3) have "m' = mux_run (NewMuxSession w side cfg) (as @ acts)" "opensIn (as @ acts) \<le> k + j"
    by (simp_all add: mux_run_append)
  then show ?thesis unfolding startedBy_def by blast
qed

lemma startedBy_mono: "startedBy side k m \<Longrightarrow> k \<le> k' \<Longrightarrow> startedBy side k' m"
  unfolding startedBy_def using order_trans by blast

lemma follows_subset: "S' \<subseteq> S \<Longrightarrow> follows j S S'"
  unfolding follows_def by (metis mux_run_simps(1) opensIn.simps(1) subsetD zero_le)

lemma follows_trans:
  assumes "follows j S T" "follows k T U" shows "follows (j + k) S U"
  unfolding follows_def
proof
  fix m'' assume "m'' \<in> U"
  then obtain m' bs where b: "m' \<in> T" "m'' = mux_run m' bs" "opensIn bs \<le> k" using assms(2) unfolding follows_def by blast
  then obtain m as where a: "m \<in> S" "m' = mux_run m as" "opensIn as \<le> j" using assms(1) unfolding follows_def by blast
  with b have "m'' = mux_run m (as @ bs)" "opensIn (as @ bs) \<le> j + k" by (simp_all add: mux_run_append)
  then show "\<exists>m \<in> S. \<exists>acts. m'' = mux_run m acts \<and> opensIn acts \<le> j + k" using a(1) by blast
qed

lemma follows_mono: "follows j S S' \<Longrightarrow> j \<le> j' \<Longrightarrow> S \<subseteq> T \<Longrightarrow> follows j' T S'"
  unfolding follows_def by (meson order_trans subsetD)

lemma follows_one: "m \<in> S \<Longrightarrow> opensIn acts \<le> j \<Longrightarrow> follows j S {mux_run m acts}"
  unfolding follows_def by blast

lemma follows_Un: "follows j S T \<Longrightarrow> follows j S U \<Longrightarrow> follows j S (T \<union> U)"
  unfolding follows_def by blast

section \<open>Programs that hold sessions\<close>

text \<open>In one step the sessions a program holds go on with at most one open, or are new ones of its side.\<close>
locale session_host =
  fixes advance :: "'p \<Rightarrow> 'e \<Rightarrow> 'p" and held :: "'p \<Rightarrow> MuxSession set" and side :: MuxRole
  assumes held_moves: "follows 1 (held p \<union> {m. startedBy side 0 m}) (held (advance p e))"
begin

lemma held_started:
  assumes "\<forall>m \<in> held p. startedBy side k m" "m \<in> held (foldl advance p es)"
  shows "startedBy side (k + length es) m"
  using assms
proof (induction es arbitrary: p k)
  case Nil
  then show ?case by simp
next
  case (Cons e es)
  have "\<forall>m \<in> held p \<union> {m. startedBy side 0 m}. startedBy side k m"
    using Cons.prems(1) startedBy_mono [of side 0 _ k] by blast
  from startedBy_follows [OF this held_moves] have "\<forall>m \<in> held (advance p e). startedBy side (k + 1) m" by blast
  from Cons.IH [OF this] Cons.prems(2) show ?case by simp
qed

lemma held_run:
  assumes "\<forall>m \<in> held p. startedBy side 0 m" "m \<in> held (foldl advance p es)" "length es < 2147483646"
  obtains w cfg acts where "m = mux_run (NewMuxSession w side cfg) acts" "short_run acts"
proof -
  have "startedBy side (0 + length es) m" by (rule held_started [OF assms(1,2)])
  then show ?thesis using that assms(3) unfolding startedBy_def by fastforce
qed

text \<open>Inside a program too an open takes an identifier that nothing in the session uses.\<close>
lemma held_open_fresh:
  assumes "\<forall>m \<in> held p. startedBy side 0 m" "m \<in> held (foldl advance p es)" "length es < 2147483646"
    "OpenStream_begin m payload = (Inr (i, r), m')"
  shows "i \<noteq> 0" "even i = (side = RoleAgent)" "map_of (streams m) i = None"
    "map_of (heap m) q = Some s \<Longrightarrow> live s \<Longrightarrow> ss_id s \<noteq> i"
proof -
  obtain w cfg acts where run: "m = mux_run (NewMuxSession w side cfg) acts" "short_run acts"
    using held_run [OF assms(1-3)] by blast
  have "role m = side" using run_inv [OF run(2,1)] by blast
  with open_fresh [OF run_room [OF run(2,1)] assms(4)]
  show "i \<noteq> 0" "even i = (side = RoleAgent)" "map_of (streams m) i = None"
    "map_of (heap m) q = Some s \<Longrightarrow> live s \<Longrightarrow> ss_id s \<noteq> i" by blast+
qed

text \<open>The count a program reads off an open session is the number of its live streams.\<close>
lemma held_count:
  assumes "\<forall>m \<in> held p. startedBy side 0 m" "m \<in> held (foldl advance p es)" "length es < 2147483646" "\<not> closeCh m"
  shows "NumStreams m = int (card {r. \<exists>s. map_of (heap m) r = Some s \<and> live s})"
proof -
  obtain w cfg acts where run: "m = mux_run (NewMuxSession w side cfg) acts" "short_run acts"
    using held_run [OF assms(1-3)] by blast
  then show ?thesis using NumStreams_live [OF run_room(1) [OF run(2,1)] assms(4)] by blast
qed

end

section \<open>The sessions of the relay\<close>

definition regHeld :: "MemoryRegistry \<Rightarrow> MuxSession set" where
  "regHeld reg = lc_mux ` ran (map_of (conns reg))"

lemma regHeld_onConn:
  assumes "\<And>x. map_of (conns reg) c = Some x \<Longrightarrow> \<exists>acts. lc_mux (g x) = mux_run (lc_mux x) acts \<and> opensIn acts \<le> j"
  shows "follows j (regHeld reg) (regHeld (onConn reg c g))"
proof (cases "map_of (conns reg) c")
  case None
  then show ?thesis by (simp add: onConn_def follows_subset)
next
  case (Some x)
  obtain acts where acts: "lc_mux (g x) = mux_run (lc_mux x) acts" "opensIn acts \<le> j" using assms [OF Some] by blast
  have "regHeld (onConn reg c g) \<subseteq> {mux_run (lc_mux x) acts} \<union> regHeld reg"
    using Some acts(1) by (auto simp: regHeld_def onConn_def alist_maps ran_def split: if_splits)
  moreover have "lc_mux x \<in> regHeld reg" using Some by (auto simp: regHeld_def ran_def)
  then have "follows j (regHeld reg) ({mux_run (lc_mux x) acts} \<union> regHeld reg)"
    by (intro follows_Un follows_one follows_subset) (simp_all add: acts(2))
  ultimately show ?thesis unfolding follows_def by blast
qed

lemma regHeld_exec:
  assumes "\<And>x. lc_mux (g x) = mux_exec (lc_mux x) a" shows "follows (opensIn [a]) (regHeld reg) (regHeld (onConn reg c g))"
proof (rule regHeld_onConn)
  show "\<exists>acts. lc_mux (g x) = mux_run (lc_mux x) acts \<and> opensIn acts \<le> opensIn [a]" for x
    by (rule exI [of _ "[a]"]) (simp add: assms)
qed

lemma regHeld_close: "follows 0 (regHeld reg) (regHeld (onConn reg c Connection_Close))"
  using regHeld_exec [of Connection_Close ActClose reg c] by (simp add: Connection_Close_def mux_exec_def)

lemma regHeld_goAway: "follows 0 (regHeld reg) (regHeld (onConn reg c (\<lambda>x. x\<lparr>lc_mux := GoAway (lc_mux x) 0\<rparr>)))"
  using regHeld_exec [of "\<lambda>x. x\<lparr>lc_mux := GoAway (lc_mux x) 0\<rparr>" "ActGoAway 0" reg c] by (simp add: mux_exec_def)

lemma regHeld_fields [simp]:
  "regHeld (reg\<lparr>agents := a\<rparr>) = regHeld reg" "regHeld (reg\<lparr>reg_metrics := ms\<rparr>) = regHeld reg"
  by (simp_all add: regHeld_def)

lemma regHeld_Unregister: "follows 0 (regHeld reg) (regHeld (Unregister reg k))"
proof (cases "map_of (agents reg) k")
  case (Some c)
  then show ?thesis using regHeld_close [of "reg\<lparr>agents := AList.delete k (agents reg),
      reg_metrics := map_option (\<lambda>m. ConnectionUnregistered m k) (reg_metrics reg)\<rparr>" c] by (simp add: Unregister_def)
qed (simp add: Unregister_def follows_subset)

lemma regHeld_foldl_Unregister: "follows 0 (regHeld reg) (regHeld (foldl Unregister reg ks))"
proof (induction ks arbitrary: reg)
  case (Cons k ks)
  from follows_trans [OF regHeld_Unregister Cons.IH] show ?case by simp
qed (simp add: follows_subset)

lemma regHeld_connect: "follows 0 (insert (lc_mux x) (regHeld reg)) (regHeld (connect reg k c x))"
proof -
  let ?r = "reg\<lparr>conns := AList.update c x (conns reg)\<rparr>"
  have "follows 0 (regHeld ?r) (regHeld (Register ?r k c))"
  proof (cases "\<exists>old. map_of (agents ?r) k = Some old \<and> limitOf ?r k = 1")
    case True
    then obtain old where old: "map_of (agents ?r) k = Some old" "limitOf ?r k = 1" by blast
    let ?r1 = "?r\<lparr>agents := AList.update k c (agents ?r),
        reg_metrics := map_option (\<lambda>m. ConnectionUnregistered m k) (reg_metrics ?r)\<rparr>"
    have "follows (0 + 0) (regHeld ?r1) (regHeld (onConn (onConn ?r1 old (\<lambda>x. x\<lparr>lc_mux := GoAway (lc_mux x) 0\<rparr>)) old Connection_Close))"
      by (rule follows_trans [OF regHeld_goAway regHeld_close])
    then show ?thesis using old by (simp add: Register_def Let_def)
  next
    case False
    then have "regHeld (Register ?r k c) = regHeld ?r" by (auto simp: Register_def Let_def split: option.splits)
    then show ?thesis by (simp add: follows_subset)
  qed
  moreover have "regHeld ?r \<subseteq> insert (lc_mux x) (regHeld reg)"
    by (auto simp: regHeld_def ran_def alist_maps split: if_splits)
  ultimately show ?thesis unfolding connect_def by (meson follows_mono le_refl)
qed

lemma agentLive_started: "startedBy RoleRelay 0 (lc_mux (agentLive l k conn now pick))"
proof -
  let ?new = "NewMuxSession (an_transport conn) RoleRelay (agentMuxConfig l)"
  let ?as = "map (\<lambda>f. ActFrame f True) (an_early conn)"
  have o: "opensIn (map (\<lambda>f. ActFrame f True) fs) = 0" for fs by (induction fs) simp_all
  have "lc_mux (agentLive l k conn now pick) = mux_run ?new ?as \<or>
      lc_mux (agentLive l k conn now pick) = mux_run ?new (?as @ [ActRecvServices])"
    by (auto simp: agentLive_def Let_def SetServices_def SetCertNotAfter_def NewLiveConnection_def mux_exec_def
        split: list.splits option.splits)
  then show ?thesis using startedBy_new [of ?as] startedBy_new [of "?as @ [ActRecvServices]"] o by auto
qed

lemma regHeld_handle:
  assumes "handleConnection sha l reg n conn now pick = (out, evs, reg')"
  shows "follows 0 (regHeld reg \<union> {m. startedBy RoleRelay 0 m}) (regHeld reg')"
proof -
  have "reg' = reg \<or> (\<exists>k. reg' = connect reg k n (agentLive l k conn now pick))"
    using assms by (auto simp: handleConnection_def Let_def split: if_splits sum.splits)
  moreover have "follows 0 (regHeld reg \<union> {m. startedBy RoleRelay 0 m}) (regHeld (connect reg k n (agentLive l k conn now pick)))" for k
    by (rule follows_mono [OF regHeld_connect]) (auto simp: agentLive_started)
  ultimately show ?thesis using follows_subset by blast
qed

lemma regHeld_Route:
  assumes "Route_begin rt reg k port = (res, rt', reg')" shows "follows 1 (regHeld reg) (regHeld reg')"
  using assms
proof (cases rule: Route_begin_session_step)
  case (2 c conn payload)
  show ?thesis unfolding 2(2)
  proof (rule regHeld_onConn)
    show "\<exists>acts. lc_mux (x\<lparr>lc_mux := mux_exec (lc_mux conn) (ActOpen payload)\<rparr>) = mux_run (lc_mux x) acts \<and> opensIn acts \<le> 1"
      if "map_of (conns reg) c = Some x" for x
      using that 2(1) by (intro exI [of _ "[ActOpen payload]"]) simp
  qed
qed (simp add: follows_subset)

definition relayHeld :: "('l, 'c) relay_process \<Rightarrow> MuxSession set" where
  "relayHeld p = regHeld (adm_registry (rp_admin p))"

lemma follows_zero: "follows 0 S S' \<Longrightarrow> S \<subseteq> T \<Longrightarrow> follows 1 T S'"
  by (erule follows_mono) simp_all

lemma relayHeld_event:
  "follows 1 (relayHeld p \<union> {m. startedBy RoleRelay 0 m}) (relayHeld (relayEvent nl al sha p e))"
proof (cases e)
  case (EvAgent conn now pick)
  obtain out evs reg where h: "handleConnection sha (rp_agentListener p) (adm_registry (rp_admin p)) (length (rp_arrived p)) conn now pick = (out, evs, reg)"
    by (metis prod_cases3)
  from follows_zero [OF regHeld_handle [OF h] subset_refl] show ?thesis
    by (simp add: EvAgent relayEvent_def agentArrives_def h emitAll_def relayHeld_def)
next
  case (EvRoute n)
  obtain k port where w: "rp_waiting p ! n = (k, port)" by fastforce
  obtain res rt reg where h: "Route_begin (adm_router (rp_admin p)) (adm_registry (rp_admin p)) k port = (res, rt, reg)"
    by (metis prod_cases3)
  from follows_mono [OF regHeld_Route [OF h] le_refl, of "relayHeld p \<union> {m. startedBy RoleRelay 0 m}"] show ?thesis
    by (simp add: EvRoute relayEvent_def routeClient_def w h relayHeld_def follows_subset)
next
  case (EvSession c act)
  have "follows (opensIn [act]) (regHeld (adm_registry (rp_admin p)))
      (regHeld (onConn (adm_registry (rp_admin p)) c (\<lambda>x. x\<lparr>lc_mux := mux_exec (lc_mux x) act\<rparr>)))"
    by (rule regHeld_exec) simp
  moreover have "opensIn [act] \<le> 1" by (simp split: mux_action.splits)
  ultimately have "follows 1 (relayHeld p \<union> {m. startedBy RoleRelay 0 m})
      (regHeld (onConn (adm_registry (rp_admin p)) c (\<lambda>x. x\<lparr>lc_mux := mux_exec (lc_mux x) act\<rparr>)))"
    by (rule follows_mono) (simp add: relayHeld_def)
  then show ?thesis by (simp add: EvSession relayEvent_def relayHeld_def)
next
  case (EvAdmin io env r)
  obtain ks where "basePart (snd (adminServe io (rp_admin p) env r)) =
      (foldl Unregister (adm_registry (rp_admin p)) ks, adm_configPath (rp_admin p))"
    using adminServe_base [of io "rp_admin p" env r] by blast
  then have "adm_registry (snd (adminServe io (rp_admin p) env r)) = foldl Unregister (adm_registry (rp_admin p)) ks"
    by (simp add: basePart_def)
  with follows_zero [OF regHeld_foldl_Unregister, of "adm_registry (rp_admin p)"] show ?thesis
    by (simp add: EvAdmin relayEvent_def relayHeld_def)
qed (auto simp: relayEvent_def clientArrives_def watchTick_def setRouter_def relayHeld_def
    intro!: follows_subset split: prod.splits option.splits)

interpretation relay_host: session_host "relayStep nl al sha" relayHeld RoleRelay
proof
  fix p :: "('a, 'b) relay_process" and e :: "'b main_event"
  show "follows 1 (relayHeld p \<union> {m. startedBy RoleRelay 0 m}) (relayHeld (relayStep nl al sha p e))"
  proof (cases e)
    case (SigHup load env)
    have "adm_registry (snd (Reload load (rp_admin p) env)) = adm_registry (rp_admin p)"
      using basePart_Reload [of load "rp_admin p" env] by (simp add: basePart_def)
    then show ?thesis by (simp add: SigHup relayStep_def relayHeld_def follows_subset)
  qed (use relayHeld_event [of p nl al sha] in \<open>simp_all add: relayStep_def follows_subset\<close>)
qed

section \<open>The sessions of the agent\<close>

definition agentHeld :: "'c agent_process \<Rightarrow> MuxSession set" where
  "agentHeld p = set (tc_sessions (tr_client (ap_tunnel p)))"

lemma follows_update:
  assumes "opensIn acts \<le> j" shows "follows j (set xs) (set (xs[n := mux_run (xs ! n) acts]))"
proof (cases "n < length xs")
  case True
  with assms have "follows j (set xs) ({mux_run (xs ! n) acts} \<union> set xs)"
    by (intro follows_Un follows_one follows_subset) simp_all
  then show ?thesis using set_update_subset_insert [of xs n "mux_run (xs ! n) acts"] unfolding follows_def by blast
qed (simp add: follows_subset list_update_beyond)

lemma agentSession_started: "startedBy RoleAgent 0 (agentSession cfg w)"
proof -
  let ?new = "NewMuxSession w RoleAgent
            \<lparr>MaxConcurrentStreams = 50, InitialStreamWindow = 262144, ConnectionWindow = 1048576,
             PingInterval = cl_HeartbeatInterval cfg, PingTimeout = cl_HeartbeatTimeout cfg, IdleTimeout = 60 * 10 ^ 9\<rparr>"
  have "agentSession cfg w = mux_run ?new (if cl_Services cfg = [] then [] else [ActSendServices (cl_Services cfg)])"
    by (simp add: agentSession_def Let_def mux_exec_def)
  then show ?thesis using startedBy_new [of "if cl_Services cfg = [] then [] else [ActSendServices (cl_Services cfg)]"] by simp
qed

lemma accept_sessions:
  assumes "tunnelAccept t n d w = (r, t')"
  shows "\<exists>acts. opensIn acts = 0 \<and>
    tc_sessions (tr_client t') = (tc_sessions (tr_client t))[n := mux_run (tc_sessions (tr_client t) ! n) acts]"
proof -
  let ?xs = "tc_sessions (tr_client t)"
  obtain a m where a: "AcceptStream (?xs ! n) w = (a, m)" by fastforce
  have "m = mux_run (?xs ! n) [ActAccept w]" by (simp add: mux_exec_def a)
  then have m: "streamReset m q 1 = mux_run (?xs ! n) [ActAccept w, ActStreamReset q 1]" "m = mux_run (?xs ! n) [ActAccept w]" for q
    by (simp_all add: mux_exec_def a)
  have "tc_sessions (tr_client t') \<in> {?xs, ?xs[n := m]} \<union> range (\<lambda>q. ?xs[n := streamReset m q 1])"
    using assms by (auto simp: tunnelAccept_def a setSession_def Let_def split: if_splits attempt.splits sum.splits)
  moreover have "?xs = ?xs[n := mux_run (?xs ! n) []]" by simp
  ultimately show ?thesis unfolding m(1) using m(2)
    by (elim UnE insertE emptyE rangeE) (force intro: exI [of _ "[]"] exI [of _ "[ActAccept w]"] exI [of _ "[ActAccept w, ActStreamReset _ 1]"])+
qed

lemma reconnectLoop_sessions:
  assumes "reconnectLoop env m n k c = (r, ds, c')"
  shows "set (tc_sessions c') \<subseteq> set (tc_sessions c) \<union> {s. startedBy RoleAgent 0 s}"
  using assms
proof (induction k arbitrary: n c r ds c')
  case (Suc k)
  obtain q c1 where q: "Client_Connect c (at_dial (env n)) (at_now (env n)) = (q, c1)" by fastforce
  have c1: "set (tc_sessions c1) \<subseteq> set (tc_sessions c) \<union> {s. startedBy RoleAgent 0 s}"
    using q by (auto simp: Client_Connect_def Connect_begin_def Connect_finish_def agentSession_started split: option.splits)
  show ?case
  proof (cases "at_ctxDone (env n) \<or> q = None")
    case True
    then have "c' = c \<or> c' = c1" using Suc.prems q by (auto simp: Let_def split: if_splits)
    then show ?thesis using c1 by blast
  next
    case False
    obtain r2 ds2 c2 where rec: "reconnectLoop env m (n + 1) k c1 = (r2, ds2, c2)" by (metis prod_cases3)
    have "c' = c2" using Suc.prems False q rec by (auto simp: Let_def)
    then show ?thesis using Suc.IH [OF rec] c1 by blast
  qed
qed simp

lemma teardown_sessions: "follows 0 (set (tc_sessions c)) (set (tc_sessions (teardown c)))"
proof (cases "\<exists>i. tc_mux c = Some i \<and> i < length (tc_sessions c)")
  case True
  then obtain i where i: "tc_mux c = Some i" "i < length (tc_sessions c)" by blast
  have "tc_sessions (teardown c) = (tc_sessions c)[i := mux_run (tc_sessions c ! i) [ActGoAway 0, ActClose]]"
    using i by (simp add: teardown_def Let_def mux_exec_def)
  then show ?thesis using follows_update [of "[ActGoAway 0, ActClose]" 0] by simp
next
  case False
  then have "tc_sessions (teardown c) = tc_sessions c" by (auto simp: teardown_def Let_def split: option.splits)
  then show ?thesis by (simp add: follows_subset)
qed

lemma supervise_sessions:
  assumes "Tunnel_Start_supervise t d env = (r, t')"
  shows "follows 0 (set (tc_sessions (tr_client t)) \<union> {s. startedBy RoleAgent 0 s}) (set (tc_sessions (tr_client t')))"
proof -
  let ?c = "(tr_client t)\<lparr>tc_disconnect := False\<rparr>" and ?new = "{s. startedBy RoleAgent 0 s}"
  obtain e ds c' where rec: "Reconnect env ?c = (e, ds, c')" by (metis prod_cases3)
  have "set (tc_sessions c') \<subseteq> set (tc_sessions (teardown ?c)) \<union> ?new"
    using reconnectLoop_sessions rec by (simp add: Reconnect_def Let_def)
  moreover have "follows 0 (set (tc_sessions (tr_client t)) \<union> ?new) (set (tc_sessions (teardown ?c)) \<union> ?new)"
    using follows_mono [OF teardown_sessions [of ?c] le_refl] by (intro follows_Un) (simp_all add: follows_subset)
  ultimately have "follows 0 (set (tc_sessions (tr_client t)) \<union> ?new) (set (tc_sessions c'))"
    unfolding follows_def by blast
  moreover have "tc_sessions (tr_client t') = tc_sessions (tr_client t) \<or> tr_client t' = c'"
    using assms rec by (auto simp: Tunnel_Start_supervise_def split: if_splits option.splits)
  ultimately show ?thesis using follows_subset [of "set (tc_sessions (tr_client t))"] by auto
qed

interpretation agent_host: session_host "agentStep sha" agentHeld RoleAgent
proof
  fix p :: "'a agent_process" and e :: "'a agent_event"
  let ?new = "{m. startedBy RoleAgent 0 m}" and ?xs = "tc_sessions (tr_client (ap_tunnel p))"
  have up: "opensIn acts \<le> 1 \<Longrightarrow> follows 1 (agentHeld p \<union> ?new) (set (?xs[n := mux_run (?xs ! n) acts]))" for n acts
    using follows_mono [OF follows_update [of acts 1 ?xs n] le_refl, of "agentHeld p \<union> ?new"] by (simp add: agentHeld_def)
  have same: "set (tc_sessions (tr_client (ap_tunnel q))) = set ?xs \<Longrightarrow> follows 1 (agentHeld p \<union> ?new) (agentHeld q)" for q :: "'a agent_process"
    by (simp add: agentHeld_def follows_subset)
  show "follows 1 (agentHeld p \<union> ?new) (agentHeld (agentStep sha p e))"
  proof (cases e)
    case (AgTunnel w env)
    show ?thesis
    proof (cases "ap_pc p")
      case PcLoop
      then show ?thesis by (intro same) (simp add: AgTunnel agentStep_def tunnelStep_def acceptLoop_begin_def split: option.splits)
    next
      case (PcAccept n)
      obtain r t where t: "tunnelAccept (ap_tunnel p) n (ap_cancelled p) w = (r, t)" by fastforce
      obtain acts where "opensIn acts = 0" "tc_sessions (tr_client t) = ?xs[n := mux_run (?xs ! n) acts]"
        using accept_sessions [OF t] by blast
      with up [of acts n] have "follows 1 (agentHeld p \<union> ?new) (set (tc_sessions (tr_client t)))" by simp
      then show ?thesis by (simp add: AgTunnel agentStep_def tunnelStep_def PcAccept t agentHeld_def split: accept_next.splits)
    next
      case PcSupervise
      obtain r t where t: "Tunnel_Start_supervise (ap_tunnel p) (ap_cancelled p) env = (r, t)" by fastforce
      have "follows 1 (agentHeld p \<union> ?new) (set (tc_sessions (tr_client t)))"
        using follows_zero [OF supervise_sessions [OF t]] by (simp add: agentHeld_def)
      then show ?thesis by (simp add: AgTunnel agentStep_def tunnelStep_def PcSupervise t agentHeld_def split: start_next.splits)
    qed (simp add: AgTunnel agentStep_def tunnelStep_def follows_subset)
  next
    case (AgHeartbeat ev)
    have "tc_sessions (fst (runHeartbeat c ev)) = tc_sessions c" for c
      by (simp add: runHeartbeat_def split: heartbeat_event.splits option.splits)
    then show ?thesis by (intro same) (simp add: AgHeartbeat agentStep_def onClient_def)
  next
    case (AgSession n act)
    have "opensIn [act] \<le> 1" by (simp split: mux_action.splits)
    from up [OF this, of n] show ?thesis by (simp add: AgSession agentStep_def onClient_def agentHeld_def)
  next
    case (AgForwardDone fw)
    then show ?thesis by (intro same) (simp add: agentStep_def forwardReturns_def)
  next
    case (AgTick content pair)
    then show ?thesis by (intro same) (auto simp: agentStep_def agentWatch_def split: option.splits prod.splits)
  qed
qed

section \<open>Streams of the running programs\<close>

lemma relayHeld_launch:
  "relayHeld (relayLaunch (relayBuild path readable d metrics version now cfg idx) cfg now' bind order spawned cf sha certFile) = {}"
proof -
  obtain idx' store where l: "loadSidecar (sc_StorePath (Server cfg)) readable d idx = (idx', store)" by fastforce
  show ?thesis
    by (simp add: relayHeld_def regHeld_def relayLaunch_def relayBuild_def l Let_def emitAll_def putRelay_def relayView_def
        Relay_Start_def NewRelay_def NewAdminServer_def Registry_SetMetrics_def NewMemoryRegistry_def)
qed


text \<open>In every run of the agent, again of fewer than \<open>2\<^sup>3\<^sup>1 - 2\<close> events, the stream count its status reports is
  the number of streams alive on its current session, as long as that is open.\<close>
theorem agent_status_counts:
  assumes "agentLaunch cfg dialed now cf sha certFile = Inr p0" "p = foldl (agentStep sha) p0 es" "length es < 2147483646"
    "tc_mux (tr_client (ap_tunnel p)) = Some j" "m = tc_sessions (tr_client (ap_tunnel p)) ! j" "\<not> closeCh m"
  shows "cs_StreamCount (Client_Status (tr_client (ap_tunnel p))) = int (card {r. \<exists>st. map_of (heap m) r = Some st \<and> live st}) \<and>
    (\<forall>r q s t. map_of (heap m) r = Some s \<and> map_of (heap m) q = Some t \<and> live s \<and> live t \<and> ss_id s = ss_id t \<longrightarrow> r = q)"
proof -
  have inv: "agent_inv (sm_LocalAddr ` set (ac_Services cfg)) p"
    unfolding assms(2) by (rule agent_inv_run [OF agent_inv_launch(1) [OF assms(1)]])
  then have "j < length (tc_sessions (tr_client (ap_tunnel p)))" using assms(4) by (auto simp: agent_inv_def Let_def client_inv_def)
  then have h: "m \<in> agentHeld (foldl (agentStep sha) p0 es)" by (simp add: agentHeld_def assms(2,5))
  have "set (tc_sessions (tr_client (ap_tunnel p0))) \<subseteq> {m. startedBy RoleAgent 0 m}"
    using assms(1) by (auto simp: agentLaunch_def agentBuild_def Client_Connect_def Connect_begin_def Connect_finish_def NewClient_def
        NewTunnel_def Tunnel_Start_begin_def agentSession_started split: sum.splits option.splits prod.splits)
  then have new: "\<forall>m \<in> agentHeld p0. startedBy RoleAgent 0 m" by (auto simp: agentHeld_def)
  obtain w k acts where "m = mux_run (NewMuxSession w RoleAgent k) acts" "short_run acts"
    using agent_host.held_run [OF new h assms(3)] by blast
  then have mi: "mux_inv m" using run_room(1) by blast
  have "r = q" if "map_of (heap m) r = Some s" "map_of (heap m) q = Some t" "live s" "live t" "ss_id s = ss_id t" for r q s t
    using mux_inv_live [OF mi that(1,3)] mux_inv_live [OF mi that(2,4)] that(5) by simp
  moreover have "cs_StreamCount (Client_Status (tr_client (ap_tunnel p))) = NumStreams m"
    by (simp add: Client_Status_def assms(4,5))
  ultimately show ?thesis using agent_host.held_count [OF new h assms(3,6)] by auto
qed


end
