(* ===== verification/Test_Certs.thy ===== *)
theory Test_Certs
  imports Host "HOL-Library.Multiset"
begin

text \<open>
  The development certificate hierarchy of \<^verbatim>\<open>src/internal/testcerts/testcerts.go\<close>: a root, two
  intermediate authorities, a relay and an agent certificate, and the bundles built from them.
  Key generation, certificate creation and parsing, key marshalling and PEM encoding are
  arguments; the \<open>n\<close>-th call of \<^verbatim>\<open>sign\<close> draws the \<open>n\<close>-th key and serial.  Times are nanoseconds.
  The theorems show that what is generated passes the checks the two programs make at start-up
  and gives the two ends the identities the relay expects.
\<close>

section \<open>Certificates\<close>

datatype key_usage = DigitalSignature | KeyEncipherment | CertSign | CRLSign
datatype ext_key_usage = ServerAuth | ClientAuthUsage

record pkix_name =
  Country :: "string list"
  Organization :: "string list"
  CommonName_of :: string

record certificate =
  crt_Subject :: pkix_name
  crt_SerialNumber :: int
  crt_NotBefore :: int
  crt_NotAfter :: int
  crt_IsCA :: bool
  crt_BasicConstraintsValid :: bool
  crt_MaxPathLen :: int
  crt_MaxPathLenZero :: bool
  crt_KeyUsage :: "key_usage list"
  crt_ExtKeyUsage :: "ext_key_usage list"
  crt_DNSNames :: "string list"
  crt_IPAddresses :: "string list"

record 'k keyPair =
  kp_cert :: certificate
  kp_der :: bytes
  kp_key :: 'k

record 'k crypto =
  GenerateKey :: "nat \<Rightarrow> 'k option"
  randSerial :: "nat \<Rightarrow> int option"
  CreateCertificate :: "certificate \<Rightarrow> certificate \<Rightarrow> 'k \<Rightarrow> 'k \<Rightarrow> bytes option"
  ParseCertificate :: "bytes \<Rightarrow> certificate option"
  MarshalECPrivateKey :: "'k \<Rightarrow> bytes option"
  EncodeToMemory :: "string \<Rightarrow> bytes \<Rightarrow> bytes"

datatype testcert_error =
    ErrMkdir | ErrKey | ErrSerial | ErrCreate string | ErrParse | ErrWriteCert string | PanicMarshal

definition hourNanos :: int where
  "hourNanos = 3600000000000"

definition Validity :: int where
  "Validity = 365 * 24 * hourNanos"

definition caValidity :: int where
  "caValidity = 10 * 365 * 24 * hourNanos"

definition EnvDir :: string where
  "EnvDir = ''ATLAX_TEST_CERTS_DIR''"

definition subject :: "string \<Rightarrow> pkix_name" where
  "subject cn = \<lparr>Country = [''US''], Organization = [''AtlasShare''], CommonName_of = cn\<rparr>"

text \<open>The zero certificate of which the templates set some fields.\<close>
definition emptyCert :: certificate where
  "emptyCert = \<lparr>crt_Subject = \<lparr>Country = [], Organization = [], CommonName_of = []\<rparr>, crt_SerialNumber = 0,
     crt_NotBefore = 0, crt_NotAfter = 0, crt_IsCA = False, crt_BasicConstraintsValid = False, crt_MaxPathLen = 0,
     crt_MaxPathLenZero = False, crt_KeyUsage = [], crt_ExtKeyUsage = [], crt_DNSNames = [], crt_IPAddresses = []\<rparr>"

definition sign :: "'k crypto \<Rightarrow> nat \<Rightarrow> certificate \<Rightarrow> 'k keyPair option \<Rightarrow> testcert_error + 'k keyPair" where
  "sign cr n tmpl0 parent =
     (case GenerateKey cr n of
        None \<Rightarrow> Inl ErrKey
      | Some key \<Rightarrow>
          (case randSerial cr n of
             None \<Rightarrow> Inl ErrSerial
           | Some serial \<Rightarrow>
               let tmpl = tmpl0\<lparr>crt_SerialNumber := serial\<rparr>;
                   (issuer, issuerKey) = (case parent of None \<Rightarrow> (tmpl, key) | Some p \<Rightarrow> (kp_cert p, kp_key p))
               in (case CreateCertificate cr tmpl issuer key issuerKey of
                     None \<Rightarrow> Inl (ErrCreate (CommonName_of (crt_Subject tmpl)))
                   | Some der \<Rightarrow>
                       (case ParseCertificate cr der of
                          None \<Rightarrow> Inl ErrParse
                        | Some cert \<Rightarrow> Inr \<lparr>kp_cert = cert, kp_der = der, kp_key = key\<rparr>))))"

definition caTemplate :: "string \<Rightarrow> int \<Rightarrow> int \<Rightarrow> certificate" where
  "caTemplate cn now pathLen =
     (let tmpl = emptyCert\<lparr>crt_Subject := subject cn, crt_NotBefore := now - hourNanos, crt_NotAfter := now + caValidity,
            crt_IsCA := True, crt_BasicConstraintsValid := True, crt_KeyUsage := [CertSign, CRLSign]\<rparr>
      in if pathLen \<ge> 0 then tmpl\<lparr>crt_MaxPathLen := pathLen, crt_MaxPathLenZero := (pathLen = 0)\<rparr> else tmpl)"

definition newCA ::
  "'k crypto \<Rightarrow> nat \<Rightarrow> string \<Rightarrow> 'k keyPair option \<Rightarrow> int \<Rightarrow> int \<Rightarrow> testcert_error + 'k keyPair" where
  "newCA cr n cn parent now pathLen = sign cr n (caTemplate cn now pathLen) parent"

definition leafTemplate :: "int \<Rightarrow> certificate \<Rightarrow> certificate" where
  "leafTemplate now tmpl =
     tmpl\<lparr>crt_NotBefore := now - hourNanos, crt_NotAfter := now + Validity, crt_BasicConstraintsValid := True\<rparr>"

definition newLeaf :: "'k crypto \<Rightarrow> nat \<Rightarrow> 'k keyPair \<Rightarrow> int \<Rightarrow> certificate \<Rightarrow> testcert_error + 'k keyPair" where
  "newLeaf cr n parent now tmpl = sign cr n (leafTemplate now tmpl) (Some parent)"

definition relayTemplate :: certificate where
  "relayTemplate = emptyCert\<lparr>crt_Subject := subject ''relay.atlax.local'', crt_DNSNames := [''relay.atlax.local'', ''localhost''],
     crt_IPAddresses := [''127.0.0.1''], crt_KeyUsage := [DigitalSignature, KeyEncipherment], crt_ExtKeyUsage := [ServerAuth]\<rparr>"

definition agentTemplate :: certificate where
  "agentTemplate = emptyCert\<lparr>crt_Subject := subject ''customer-dev-001'',
     crt_KeyUsage := [DigitalSignature, KeyEncipherment], crt_ExtKeyUsage := [ClientAuthUsage]\<rparr>"

section \<open>Generation\<close>

record 'k hierarchy =
  hi_root :: "'k keyPair"
  hi_relayCA :: "'k keyPair"
  hi_customerCA :: "'k keyPair"
  hi_relay :: "'k keyPair"
  hi_agent :: "'k keyPair"

definition generatePairs :: "'k crypto \<Rightarrow> int \<Rightarrow> testcert_error + 'k hierarchy" where
  "generatePairs cr now =
     (case newCA cr 0 ''atlax-root-ca'' None now (- 1) of
        Inl e \<Rightarrow> Inl e
      | Inr rootCA \<Rightarrow>
     (case newCA cr 1 ''atlax-relay-ca'' (Some rootCA) now 0 of
        Inl e \<Rightarrow> Inl e
      | Inr relayCA \<Rightarrow>
     (case newCA cr 2 ''atlax-customer-ca'' (Some rootCA) now 0 of
        Inl e \<Rightarrow> Inl e
      | Inr customerCA \<Rightarrow>
     (case newLeaf cr 3 relayCA now relayTemplate of
        Inl e \<Rightarrow> Inl e
      | Inr relay \<Rightarrow>
     (case newLeaf cr 4 customerCA now agentTemplate of
        Inl e \<Rightarrow> Inl e
      | Inr agent \<Rightarrow> Inr \<lparr>hi_root = rootCA, hi_relayCA = relayCA, hi_customerCA = customerCA,
                          hi_relay = relay, hi_agent = agent\<rparr>)))))"

definition certPEM :: "'k crypto \<Rightarrow> bytes \<Rightarrow> bytes" where
  "certPEM cr der = EncodeToMemory cr ''CERTIFICATE'' der"

definition keyPEM :: "'k crypto \<Rightarrow> 'k \<Rightarrow> bytes option" where
  "keyPEM cr key = map_option (EncodeToMemory cr ''EC PRIVATE KEY'') (MarshalECPrivateKey cr key)"

definition certFiles :: "'k crypto \<Rightarrow> 'k hierarchy \<Rightarrow> (string, bytes option) gomap" where
  "certFiles cr h =
     (let cert = (\<lambda>p. Some (certPEM cr (kp_der p))); key = (\<lambda>p. keyPEM cr (kp_key p));
          both = (\<lambda>p q. Some (certPEM cr (kp_der p) @ certPEM cr (kp_der q)))
      in [(''root-ca.crt'', cert (hi_root h)), (''root-ca.key'', key (hi_root h)),
          (''relay-ca.crt'', cert (hi_relayCA h)), (''relay-ca.key'', key (hi_relayCA h)),
          (''customer-ca.crt'', cert (hi_customerCA h)), (''customer-ca.key'', key (hi_customerCA h)),
          (''relay.crt'', cert (hi_relay h)), (''relay.key'', key (hi_relay h)),
          (''agent.crt'', cert (hi_agent h)), (''agent.key'', key (hi_agent h)),
          (''relay-chain.crt'', both (hi_relay h) (hi_relayCA h)),
          (''agent-chain.crt'', both (hi_agent h) (hi_customerCA h)),
          (''intermediate-cas.crt'', both (hi_relayCA h) (hi_customerCA h))])"

text \<open>\<^verbatim>\<open>filepath.Ext\<close>: from the last dot of the last element on.\<close>
definition Ext :: "string \<Rightarrow> string" where
  "Ext name =
     (let r = rev name; t = takeWhile (\<lambda>c. c \<noteq> CHR ''.'' \<and> c \<noteq> CHR ''/'') r
      in if length t < length r \<and> r ! length t = CHR ''.'' then CHR ''.'' # rev t else [])"

definition fileMode :: "string \<Rightarrow> nat" where
  "fileMode name = (if Ext name = ''.key'' then 6 * 64 else 6 * 64 + 4 * 8 + 4)"

text \<open>\<^verbatim>\<open>filepath.Join\<close> of a clean directory and a plain file name.\<close>
definition pathIn :: "string \<Rightarrow> string \<Rightarrow> string" where
  "pathIn dir name = dir @ ''/'' @ name"

type_synonym written_files = "(string, bytes \<times> nat) gomap"

fun writeFiles ::
  "(string \<Rightarrow> bool) \<Rightarrow> string \<Rightarrow> (string \<times> bytes) list \<Rightarrow> written_files \<Rightarrow> (testcert_error + string) \<times> written_files" where
  "writeFiles writable out [] ws = (Inr out, ws)"
| "writeFiles writable out ((name, data) # fs) ws =
     (if writable name
      then writeFiles writable out fs (AList.update (pathIn out name) (data, fileMode name) ws)
      else (Inl (ErrWriteCert name), ws))"

text \<open>\<open>mkdir\<close> is the answer of \<^verbatim>\<open>os.MkdirTemp\<close>, \<open>writable\<close> says which writes succeed, and \<open>order\<close>
  orders the entries the way the map of files is visited.\<close>
definition generate ::
  "'k crypto \<Rightarrow> string option \<Rightarrow> (string \<Rightarrow> bool) \<Rightarrow> ((string \<times> bytes) list \<Rightarrow> (string \<times> bytes) list) \<Rightarrow> int \<Rightarrow>
   (testcert_error + string) \<times> written_files" where
  "generate cr mkdir writable order now =
     (case mkdir of
        None \<Rightarrow> (Inl ErrMkdir, [])
      | Some out \<Rightarrow>
          (case generatePairs cr now of
             Inl e \<Rightarrow> (Inl e, [])
           | Inr h \<Rightarrow>
               let files = certFiles cr h in
               if \<exists>f \<in> set files. snd f = None then (Inl PanicMarshal, [])
               else writeFiles writable out (order (map (\<lambda>(n, d). (n, the d)) files)) []))"

section \<open>One directory per process\<close>

record testcerts_state =
  ts_once :: bool
  ts_dir :: string
  ts_err :: "testcert_error option"

definition Dir :: "(string \<Rightarrow> string) \<Rightarrow> (testcert_error + string) \<Rightarrow> testcerts_state \<Rightarrow>
    (string \<times> testcert_error option) \<times> testcerts_state" where
  "Dir getenv generated st =
     (let st' =
        (if ts_once st then st
         else if getenv EnvDir \<noteq> [] then st\<lparr>ts_once := True, ts_dir := getenv EnvDir\<rparr>
         else (case generated of
                 Inl e \<Rightarrow> st\<lparr>ts_once := True, ts_dir := [], ts_err := Some e\<rparr>
               | Inr d \<Rightarrow> st\<lparr>ts_once := True, ts_dir := d, ts_err := None\<rparr>))
      in ((ts_dir st', ts_err st'), st'))"

text \<open>\<^verbatim>\<open>MustDir\<close>: no result is the panic.\<close>
definition MustDir :: "(string \<Rightarrow> string) \<Rightarrow> (testcert_error + string) \<Rightarrow> testcerts_state \<Rightarrow> string option \<times> testcerts_state" where
  "MustDir getenv generated st =
     (case Dir getenv generated st of ((d, None), st') \<Rightarrow> (Some d, st') | ((d, Some e), st') \<Rightarrow> (None, st'))"

text \<open>The directory \<^verbatim>\<open>Cleanup\<close> removes, if any.\<close>
definition Cleanup :: "(string \<Rightarrow> string) \<Rightarrow> testcerts_state \<Rightarrow> string option" where
  "Cleanup getenv st = (if ts_dir st \<noteq> [] \<and> getenv EnvDir = [] then Some (ts_dir st) else None)"

section \<open>What is generated is usable\<close>

text \<open>A PEM reader undoes the encoder and finds nothing in an empty file.\<close>
definition pemInverse :: "'k crypto \<Rightarrow> (bytes \<Rightarrow> (string \<times> bytes) option) \<Rightarrow> bool" where
  "pemInverse cr dec \<longleftrightarrow> dec [] = None \<and> (\<forall>t d rest. dec (EncodeToMemory cr t d @ rest) = Some (t, rest))"

definition wholeSeconds :: "int \<Rightarrow> int" where
  "wholeSeconds t = t div 1000000000 * 1000000000"

text \<open>A certificate that was created parses to one with the subject of its template and with its
  validity in whole seconds, which is how certificates store times.\<close>
definition x509Faithful :: "'k crypto \<Rightarrow> bool" where
  "x509Faithful cr \<longleftrightarrow> (\<forall>tmpl issuer k k' der c.
     CreateCertificate cr tmpl issuer k k' = Some der \<longrightarrow> ParseCertificate cr der = Some c \<longrightarrow>
     crt_Subject c = crt_Subject tmpl \<and> crt_NotBefore c = wholeSeconds (crt_NotBefore tmpl) \<and>
     crt_NotAfter c = wholeSeconds (crt_NotAfter tmpl))"

definition peerCert :: "'k keyPair \<Rightarrow> peer_cert" where
  "peerCert p = \<lparr>CommonName = CommonName_of (crt_Subject (kp_cert p)), Raw = kp_der p,
     pcert_NotBefore = crt_NotBefore (kp_cert p), pcert_NotAfter = crt_NotAfter (kp_cert p)\<rparr>"

lemma sign_fields:
  assumes "x509Faithful cr" "sign cr n tmpl parent = Inr p"
  shows "crt_Subject (kp_cert p) = crt_Subject tmpl" "crt_NotBefore (kp_cert p) = wholeSeconds (crt_NotBefore tmpl)"
    "crt_NotAfter (kp_cert p) = wholeSeconds (crt_NotAfter tmpl)"
proof -
  obtain key serial where k: "GenerateKey cr n = Some key" "randSerial cr n = Some serial"
    using assms(2) by (cases "GenerateKey cr n"; cases "randSerial cr n") (simp_all add: sign_def)
  let ?tmpl = "tmpl\<lparr>crt_SerialNumber := serial\<rparr>"
  obtain issuer k' where i: "(case parent of None \<Rightarrow> (?tmpl, key) | Some p \<Rightarrow> (kp_cert p, kp_key p)) = (issuer, k')"
    by fastforce
  have c: "CreateCertificate cr ?tmpl issuer key k' = Some (kp_der p)" "ParseCertificate cr (kp_der p) = Some (kp_cert p)"
    using assms(2) unfolding sign_def k Let_def option.case i prod.case
    by (simp_all split: option.splits) auto
  from assms(1) [unfolded x509Faithful_def, rule_format, OF c]
  show "crt_Subject (kp_cert p) = crt_Subject tmpl" "crt_NotBefore (kp_cert p) = wholeSeconds (crt_NotBefore tmpl)"
    "crt_NotAfter (kp_cert p) = wholeSeconds (crt_NotAfter tmpl)" by simp_all
qed

lemma generatePairs_signed:
  assumes "generatePairs cr now = Inr h"
  obtains "sign cr 0 (caTemplate ''atlax-root-ca'' now (- 1)) None = Inr (hi_root h)"
    "sign cr 1 (caTemplate ''atlax-relay-ca'' now 0) (Some (hi_root h)) = Inr (hi_relayCA h)"
    "sign cr 2 (caTemplate ''atlax-customer-ca'' now 0) (Some (hi_root h)) = Inr (hi_customerCA h)"
    "sign cr 3 (leafTemplate now relayTemplate) (Some (hi_relayCA h)) = Inr (hi_relay h)"
    "sign cr 4 (leafTemplate now agentTemplate) (Some (hi_customerCA h)) = Inr (hi_agent h)"
  using assms by (auto simp: generatePairs_def newCA_def newLeaf_def split: sum.splits)

lemma wholeSeconds_mono: "a \<le> b \<Longrightarrow> wholeSeconds a \<le> wholeSeconds b"
  by (simp add: wholeSeconds_def zdiv_mono1)

text \<open>The relay and the agent get the identities their names give them, from certificates that are
  never valid outside the validity of the authority that signed them.\<close>
theorem test_identities:
  assumes "x509Faithful cr" "generatePairs cr now = Inr h"
  shows "\<exists>i. ExtractIdentity sha [peerCert (hi_agent h)] = Inr i \<and> id_CustomerID i = ''customer-dev-001''"
    and "\<exists>i. ExtractIdentity sha [peerCert (hi_relay h)] = Inr i \<and> id_CustomerID i = [] \<and> id_RelayID i = ''relay.atlax.local''"
    and "crt_NotBefore (kp_cert (hi_customerCA h)) \<le> crt_NotBefore (kp_cert (hi_agent h)) \<and>
      crt_NotAfter (kp_cert (hi_agent h)) \<le> crt_NotAfter (kp_cert (hi_customerCA h))"
    and "crt_NotBefore (kp_cert (hi_relayCA h)) \<le> crt_NotBefore (kp_cert (hi_relay h)) \<and>
      crt_NotAfter (kp_cert (hi_relay h)) \<le> crt_NotAfter (kp_cert (hi_relayCA h))"
proof -
  from assms(2) obtain root: "sign cr 0 (caTemplate ''atlax-root-ca'' now (- 1)) None = Inr (hi_root h)"
    and s: "sign cr 1 (caTemplate ''atlax-relay-ca'' now 0) (Some (hi_root h)) = Inr (hi_relayCA h)"
      "sign cr 2 (caTemplate ''atlax-customer-ca'' now 0) (Some (hi_root h)) = Inr (hi_customerCA h)"
      "sign cr 3 (leafTemplate now relayTemplate) (Some (hi_relayCA h)) = Inr (hi_relay h)"
      "sign cr 4 (leafTemplate now agentTemplate) (Some (hi_customerCA h)) = Inr (hi_agent h)"
    by (rule generatePairs_signed)
  note fields = s [THEN sign_fields(1) [OF assms(1)]] s [THEN sign_fields(2) [OF assms(1)]] s [THEN sign_fields(3) [OF assms(1)]]
  show "\<exists>i. ExtractIdentity sha [peerCert (hi_agent h)] = Inr i \<and> id_CustomerID i = ''customer-dev-001''"
    by (simp add: fields ExtractIdentity_def peerCert_def hasPrefix_def leafTemplate_def agentTemplate_def subject_def Let_def)
  show "\<exists>i. ExtractIdentity sha [peerCert (hi_relay h)] = Inr i \<and> id_CustomerID i = [] \<and> id_RelayID i = ''relay.atlax.local''"
    by (simp add: fields ExtractIdentity_def peerCert_def hasPrefix_def leafTemplate_def relayTemplate_def subject_def Let_def)
  have "Validity \<le> caValidity" by (simp add: Validity_def caValidity_def hourNanos_def)
  then have le: "wholeSeconds (now + Validity) \<le> wholeSeconds (now + caValidity)" by (simp add: wholeSeconds_mono)
  show "crt_NotBefore (kp_cert (hi_customerCA h)) \<le> crt_NotBefore (kp_cert (hi_agent h)) \<and>
      crt_NotAfter (kp_cert (hi_agent h)) \<le> crt_NotAfter (kp_cert (hi_customerCA h))"
    using le by (simp add: fields leafTemplate_def caTemplate_def)
  show "crt_NotBefore (kp_cert (hi_relayCA h)) \<le> crt_NotBefore (kp_cert (hi_relay h)) \<and>
      crt_NotAfter (kp_cert (hi_relay h)) \<le> crt_NotAfter (kp_cert (hi_relayCA h))"
    using le by (simp add: fields leafTemplate_def caTemplate_def)
qed

lemma pathIn_inj [simp]: "pathIn d n = pathIn d n' \<longleftrightarrow> n = n'"
  by (simp add: pathIn_def)

lemma writeFiles_all:
  assumes "writeFiles writable out fs ws = (Inr out', ws')" "distinct (map fst fs)"
  shows "out' = out \<and> (\<forall>n d. (n, d) \<in> set fs \<longrightarrow> map_of ws' (pathIn out n) = Some (d, fileMode n)) \<and>
    (\<forall>n. n \<notin> fst ` set fs \<longrightarrow> map_of ws' (pathIn out n) = map_of ws (pathIn out n))"
  using assms
proof (induction writable out fs ws rule: writeFiles.induct)
  case (2 writable out name data fs ws)
  let ?ws = "AList.update (pathIn out name) (data, fileMode name) ws"
  have w: "writable name" using "2.prems"(1) by (simp split: if_splits)
  have ih: "out' = out \<and> (\<forall>n d. (n, d) \<in> set fs \<longrightarrow> map_of ws' (pathIn out n) = Some (d, fileMode n)) \<and>
    (\<forall>n. n \<notin> fst ` set fs \<longrightarrow> map_of ws' (pathIn out n) = map_of ?ws (pathIn out n))"
    by (rule "2.IH" [OF w]) (use "2.prems" w in simp_all)
  have "name \<notin> fst ` set fs" using "2.prems"(2) by simp
  then show ?case using ih by (auto simp: update_conv')
qed simp

lemma chain_of_certs:
  assumes "pemInverse cr dec" "readFile f = Some (concat (map (certPEM cr) ders))"
  shows "ValidateChainCertFile readFile dec f =
    Some (if length ders = 0 then Some ErrChainNone else if length ders = 1 then Some ErrChainBareLeaf else None)"
proof -
  have "countCerts dec (concat (map (certPEM cr) ders)) k = Some (k + length ders)" for k
  proof (induction ders arbitrary: k)
    case Nil
    then show ?case using assms(1) by (subst countCerts.simps) (simp add: pemInverse_def)
  next
    case (Cons d ders)
    have "dec (certPEM cr d @ concat (map (certPEM cr) ders)) = Some (''CERTIFICATE'', concat (map (certPEM cr) ders))"
      using assms(1) by (simp add: pemInverse_def certPEM_def)
    then show ?case using Cons.IH [of "k + 1"] by (subst countCerts.simps) simp
  qed
  from this [of 0] show ?thesis by (simp add: ValidateChainCertFile_def assms(2))
qed

lemma generate_files:
  assumes "generate cr mkdir writable order now = (Inr out, files)" "\<And>fs. mset (order fs) = mset fs"
  obtains h where "generatePairs cr now = Inr h"
    "\<And>n x. (n, x) \<in> set (certFiles cr h) \<Longrightarrow> map_of files (pathIn out n) = Some (the x, fileMode n)"
proof -
  obtain out0 h where h: "mkdir = Some out0" "generatePairs cr now = Inr h" "\<not> (\<exists>f \<in> set (certFiles cr h). snd f = None)"
    and w: "writeFiles writable out0 (order (map (\<lambda>(n, d). (n, the d)) (certFiles cr h))) [] = (Inr out, files)"
    using assms(1) by (simp add: generate_def Let_def split: option.splits sum.splits if_splits)
  let ?fs = "map (\<lambda>(n, d). (n, the d)) (certFiles cr h)"
  have "distinct (map fst ?fs)" by (simp add: certFiles_def Let_def)
  moreover have "mset (map fst (order ?fs)) = mset (map fst ?fs)" by (simp only: mset_map assms(2))
  ultimately have "distinct (map fst (order ?fs))" by (metis mset_eq_imp_distinct_iff)
  note all = writeFiles_all [OF w this]
  have "set (order ?fs) = set ?fs" by (metis assms(2) set_mset_mset)
  then have "map_of files (pathIn out n) = Some (the x, fileMode n)" if "(n, x) \<in> set (certFiles cr h)" for n x
    using all that by force
  then show ?thesis by (rule that [OF h(2)])
qed

text \<open>Whatever the order in which the files are written: once generation succeeds both chain files
  pass the check the programs make at start-up, the bare leaf files are refused by it, and private
  keys are readable by their owner only.\<close>
theorem test_certs_usable:
  assumes "pemInverse cr dec" "generate cr mkdir writable order now = (Inr out, files)" "\<And>fs. mset (order fs) = mset fs"
  defines "readFile \<equiv> \<lambda>p. map_option fst (map_of files p)"
  shows "ValidateChainCertFile readFile dec (pathIn out ''relay-chain.crt'') = Some None"
    and "ValidateChainCertFile readFile dec (pathIn out ''agent-chain.crt'') = Some None"
    and "ValidateChainCertFile readFile dec (pathIn out ''relay.crt'') = Some (Some ErrChainBareLeaf)"
    and "map_option snd (map_of files (pathIn out ''relay.key'')) = Some 384"
    and "map_option snd (map_of files (pathIn out ''agent.key'')) = Some 384"
    and "map_option snd (map_of files (pathIn out ''root-ca.key'')) = Some 384"
proof -
  obtain h where h: "\<And>n x. (n, x) \<in> set (certFiles cr h) \<Longrightarrow> map_of files (pathIn out n) = Some (the x, fileMode n)"
    by (rule generate_files [OF assms(2,3)]) blast
  have "readFile (pathIn out ''relay-chain.crt'') = Some (concat (map (certPEM cr) [kp_der (hi_relay h), kp_der (hi_relayCA h)]))"
    "readFile (pathIn out ''agent-chain.crt'') = Some (concat (map (certPEM cr) [kp_der (hi_agent h), kp_der (hi_customerCA h)]))"
    "readFile (pathIn out ''relay.crt'') = Some (concat (map (certPEM cr) [kp_der (hi_relay h)]))"
    unfolding readFile_def
    by (subst h [of _ "Some _"]; simp add: certFiles_def Let_def)+
  note chain = this [THEN chain_of_certs [OF assms(1), where readFile = readFile]]
  show "ValidateChainCertFile readFile dec (pathIn out ''relay-chain.crt'') = Some None"
    "ValidateChainCertFile readFile dec (pathIn out ''agent-chain.crt'') = Some None"
    "ValidateChainCertFile readFile dec (pathIn out ''relay.crt'') = Some (Some ErrChainBareLeaf)"
    using chain by simp_all
  have mode: "fileMode ''relay.key'' = 384" "fileMode ''agent.key'' = 384" "fileMode ''root-ca.key'' = 384"
    by (simp_all add: fileMode_def Ext_def)
  have "(''relay.key'', keyPEM cr (kp_key (hi_relay h))) \<in> set (certFiles cr h)"
    "(''agent.key'', keyPEM cr (kp_key (hi_agent h))) \<in> set (certFiles cr h)"
    "(''root-ca.key'', keyPEM cr (kp_key (hi_root h))) \<in> set (certFiles cr h)"
    by (simp_all add: certFiles_def Let_def)
  from this [THEN h] mode
  show "map_option snd (map_of files (pathIn out ''relay.key'')) = Some 384"
    "map_option snd (map_of files (pathIn out ''agent.key'')) = Some 384"
    "map_option snd (map_of files (pathIn out ''root-ca.key'')) = Some 384"
    by simp_all
qed

text \<open>Within one process the directory is settled by the first call: later calls answer the same
  whatever the environment says by then, and a directory given by the environment is never removed.\<close>
lemma dir_settled:
  assumes "Dir getenv generated st = (res, st')"
  shows "Dir getenv' generated' st' = (res, st')"
    and "\<not> ts_once st \<Longrightarrow> getenv EnvDir \<noteq> [] \<Longrightarrow> ts_dir st' = getenv EnvDir \<and> Cleanup getenv st' = None"
  using assms by (auto simp: Dir_def Cleanup_def Let_def split: if_splits sum.splits)

end
