(* ===== verification/Load_Test.thy ===== *)
theory Load_Test
  imports Mux_Session Complex_Main "HOL-Library.Multiset"
begin

text \<open>
  The measuring tool of \<^verbatim>\<open>src/scripts/loadtest/main.go\<close>: which benchmarks a run selects, the pair of
  sessions it measures, the echo round trip, and the statistics it reports.  Goroutines of a
  benchmark finish in any order; a list of outcomes in the order of completion stands for them.
  \<^verbatim>\<open>float64\<close> is modelled by rationals.  Sockets, timers and the printed text are left out.
\<close>

section \<open>Selecting benchmarks\<close>

datatype benchmark = Load | Stress | Throughput | Latency | Churn | Ramp

text \<open>The switch of \<^verbatim>\<open>main\<close>: no plan is the exit with an unknown benchmark.\<close>
definition benchPlan :: "string \<Rightarrow> string \<Rightarrow> benchmark list option" where
  "benchPlan bench remoteAddr =
     (if bench = ''all'' then
        Some ([Load] @ (if remoteAddr = [] then [Stress, Throughput] else []) @ [Latency] @
              (if remoteAddr = [] then [Churn] else []) @ [Ramp])
      else if bench = ''load'' then Some [Load]
      else if bench = ''stress'' then Some [Stress]
      else if bench = ''throughput'' then Some [Throughput]
      else if bench = ''latency'' then Some [Latency]
      else if bench = ''churn'' then Some [Churn]
      else if bench = ''ramp'' then Some [Ramp]
      else None)"

text \<open>The early returns of \<^verbatim>\<open>runStress\<close>, \<^verbatim>\<open>runThroughput\<close> and \<^verbatim>\<open>runChurn\<close>.\<close>
definition benchSkipped :: "string \<Rightarrow> benchmark \<Rightarrow> bool" where
  "benchSkipped remoteAddr b \<longleftrightarrow> remoteAddr \<noteq> [] \<and> b \<in> {Stress, Throughput, Churn}"

text \<open>The concurrency levels of \<^verbatim>\<open>runLatency\<close> and \<^verbatim>\<open>runRamp\<close>.\<close>
definition benchLevels :: "string \<Rightarrow> benchmark \<Rightarrow> nat list" where
  "benchLevels remoteAddr b =
     (case b of
        Latency \<Rightarrow> [1, 10, 50, 100, 500]
      | Ramp \<Rightarrow> if remoteAddr \<noteq> [] then [10, 25, 50, 100, 200, 500]
                else [10, 25, 50, 100, 250, 500, 1000, 1500, 2000]
      | _ \<Rightarrow> [])"

text \<open>What \<^verbatim>\<open>all\<close> selects is never skipped, and the levels of a remote run stop at 500.\<close>
lemma plan_not_skipped:
  "benchPlan ''all'' r = Some bs \<Longrightarrow> b \<in> set bs \<Longrightarrow> \<not> benchSkipped r b"
  "r \<noteq> [] \<Longrightarrow> n \<in> set (benchLevels r b) \<Longrightarrow> n \<le> 500"
  by (auto simp: benchPlan_def benchSkipped_def benchLevels_def split: if_splits benchmark.splits)

definition newMuxPair :: "Writer \<Rightarrow> Writer \<Rightarrow> int \<Rightarrow> MuxSession \<times> MuxSession" where
  "newMuxPair relayConn agentConn maxStreams =
     (let cfg = \<lparr>MaxConcurrentStreams = maxStreams + 100, InitialStreamWindow = 262144, ConnectionWindow = 1048576 * 4,
                 PingInterval = 30 * 1000000000, PingTimeout = 5 * 1000000000, IdleTimeout = 60 * 1000000000\<rparr>
      in (NewMuxSession relayConn RoleRelay cfg, NewMuxSession agentConn RoleAgent cfg))"

definition makePayload :: "nat \<Rightarrow> bytes" where
  "makePayload n = map (\<lambda>i. word_of_nat (i mod 256)) [0..<n]"

section \<open>The echo round trip\<close>

text \<open>What the session's read loop does to the stream while the caller waits in \<^verbatim>\<open>Read\<close>.\<close>
datatype arrival = ArriveData bytes | ArriveFIN

fun arrive :: "arrival \<Rightarrow> StreamSession \<Rightarrow> StreamSession" where
  "arrive (ArriveData p) s = (if p = [] then s else Deliver s p)"
| "arrive ArriveFIN s = RemoteClose s"

lemma Stream_Read_progress:
  assumes "Stream_Read s (want - k) = (Returned (Inr p), s')" "k < want"
  shows "want - (k + length p) < want - k"
proof -
  have "p \<noteq> []" using assms by (auto simp: Stream_Read_def split: if_splits)
  then have "0 < length p" by simp
  then show ?thesis using assms(2) by linarith
qed

text \<open>The loop that fills the buffer: \<^const>\<open>Blocked\<close> when the arrivals run out first.\<close>
function echoRead :: "nat \<Rightarrow> bytes \<Rightarrow> StreamSession \<Rightarrow> arrival list \<Rightarrow> (stream_error + bytes) attempt \<times> StreamSession" where
  "echoRead want buf s as =
     (if length buf < want then
        (case Stream_Read s (want - length buf) of
           (Returned (Inl e), s') \<Rightarrow> (Returned (Inl e), s')
         | (Returned (Inr p), s') \<Rightarrow> echoRead want (buf @ p) s' as
         | (Blocked, s') \<Rightarrow> (case as of [] \<Rightarrow> (Blocked, s') | a # as' \<Rightarrow> echoRead want buf (arrive a s') as'))
      else (Returned (Inr buf), s))"
  by pat_completeness auto
termination
  by (relation "measures [\<lambda>(want, buf, s, as). want - length buf, \<lambda>(want, buf, s, as). length as]")
     (auto intro: Stream_Read_progress [OF sym])

declare echoRead.simps [simp del]

datatype 'e round_trip = RoundOK | RoundOpen 'e | RoundStream stream_error | RoundPending

text \<open>\<^verbatim>\<open>echoRoundTrip\<close> on the stream that \<^verbatim>\<open>OpenStream\<close> gives; the deferred Close runs on every return.\<close>
definition echoRoundTrip ::
  "'e + StreamSession \<Rightarrow> bytes \<Rightarrow> bool \<Rightarrow> arrival list \<Rightarrow> 'e round_trip \<times> StreamSession option" where
  "echoRoundTrip opened msg pick as =
     (case opened of
        Inl e \<Rightarrow> (RoundOpen e, None)
      | Inr s \<Rightarrow>
          (case Stream_Write s msg pick of
             (Blocked, s1) \<Rightarrow> (RoundPending, Some s1)
           | (Returned (Inl e), s1) \<Rightarrow> (RoundStream e, Some (fst (Stream_Close s1)))
           | (Returned (Inr _), s1) \<Rightarrow>
               (case echoRead (length msg) [] s1 as of
                  (Blocked, s2) \<Rightarrow> (RoundPending, Some s2)
                | (Returned (Inl e), s2) \<Rightarrow> (RoundStream e, Some (fst (Stream_Close s2)))
                | (Returned (Inr _), s2) \<Rightarrow> (RoundOK, Some (fst (Stream_Close s2))))))"

section \<open>Statistics\<close>

definition percentile :: "rat list \<Rightarrow> rat \<Rightarrow> rat" where
  "percentile samples p =
     (if length samples = 0 then 0
      else
        let idx0 = \<lceil>p / 100 * of_nat (length samples)\<rceil> - 1;
            idx1 = (if idx0 < 0 then 0 else idx0);
            idx2 = (if idx1 \<ge> int (length samples) then int (length samples) - 1 else idx1)
        in samples ! nat idx2)"

text \<open>Outcomes in the order of completion: the latency of a round trip, or None when it failed.\<close>
definition collectLatencies :: "rat option list \<Rightarrow> rat list" where
  "collectLatencies results = sort (List.map_filter (\<lambda>x. x) results)"

definition printLatencyRow :: "rat list \<Rightarrow> rat list" where
  "printLatencyRow latencies =
     [percentile latencies 50, percentile latencies 95, percentile latencies 99, percentile latencies 100]"

text \<open>One goroutine's report: failures, successes and the microseconds summed.\<close>
definition report :: "int \<times> int \<times> int \<Rightarrow> int option \<Rightarrow> int \<times> int \<times> int" where
  "report acc r =
     (case acc of (ok, fail, totalLat) \<Rightarrow>
        (case r of None \<Rightarrow> (ok, fail + 1, totalLat) | Some us \<Rightarrow> (ok + 1, fail, totalLat + us)))"

text \<open>\<^verbatim>\<open>runConcurrent\<close>: the counts and the average latency in nanoseconds.\<close>
definition runConcurrent :: "int option list \<Rightarrow> int \<times> int \<times> int" where
  "runConcurrent results =
     (case foldl report (0, 0, 0) results of
        (ok, fail, totalLat) \<Rightarrow> (ok, fail, if ok > 0 then totalLat div ok * 1000 else 0))"

definition errRate :: "int \<Rightarrow> int \<Rightarrow> rat" where
  "errRate ok fail = of_int fail / of_int (ok + fail) * 100"

text \<open>The verdict of \<^verbatim>\<open>printResult\<close>.\<close>
definition resultPasses :: "int \<Rightarrow> int \<Rightarrow> bool" where
  "resultPasses ok fail \<longleftrightarrow> \<not> errRate ok fail > 1"

text \<open>The loop of \<^verbatim>\<open>runStress\<close> from batch size \<open>n\<close>; \<open>batch\<close> gives the successes and failures of a batch.\<close>
function runStress :: "(int \<Rightarrow> int \<times> int) \<Rightarrow> int \<Rightarrow> int option" where
  "runStress batch n =
     (if n \<le> 5000 then
        (case batch n of (ok, fail) \<Rightarrow>
           if errRate ok fail > 5 then Some (n - 500) else runStress batch (n + 500))
      else None)"
  by pat_completeness auto
termination
  by (relation "measure (\<lambda>(batch, n). nat (5001 - n))") auto

declare runStress.simps [simp del]

section \<open>What the tool reports\<close>

lemma arrive_data: "\<not> isReadClosed s \<Longrightarrow> readBuf (arrive (ArriveData p) s) = readBuf s @ p \<and> \<not> isReadClosed (arrive (ArriveData p) s)"
  by (simp add: Deliver_def isReadClosed_def)

lemma echoRead_step:
  assumes "length buf < want" "readBuf s \<noteq> []"
  shows "echoRead want buf s as =
    echoRead want (buf @ take (want - length buf) (readBuf s)) (s\<lparr>readBuf := drop (want - length buf) (readBuf s)\<rparr>) as"
  using assms by (subst echoRead.simps) (simp add: Stream_Read_def)

lemma echoRead_done: "want \<le> length buf \<Longrightarrow> echoRead want buf s as = (Returned (Inr buf), s)"
  by (subst echoRead.simps) simp

text \<open>However the echo is cut into frames, the loop ends exactly when enough bytes have arrived, and
  then holds their first \<open>want\<close>; bytes beyond them stay in the stream.\<close>
lemma echoRead_data:
  assumes "\<not> isReadClosed s" "length buf \<le> want"
  shows "fst (echoRead want buf s (map ArriveData ps)) =
    (if want \<le> length (buf @ readBuf s @ concat ps) then Returned (Inr (take want (buf @ readBuf s @ concat ps))) else Blocked)"
  using assms
proof (induction ps arbitrary: buf s)
  case Nil
  then show ?case
  proof (cases "readBuf s = [] \<or> length buf = want")
    case True
    then show ?thesis using Nil by (subst echoRead.simps) (auto simp: Stream_Read_def)
  next
    case False
    then show ?thesis using Nil
      by (subst echoRead_step; (subst echoRead.simps)?) (auto simp: Stream_Read_def isReadClosed_def)
  qed
next
  case (Cons p ps)
  have wait: "fst (echoRead want b t (map ArriveData (p # ps))) =
      (if want \<le> length (b @ p @ concat ps) then Returned (Inr (take want (b @ p @ concat ps))) else Blocked)"
    if "readBuf t = []" "\<not> isReadClosed t" "length b < want" for b t
    using Cons.IH [of "arrive (ArriveData p) t" b] arrive_data [OF that(2), of p] that
    by (subst echoRead.simps) (simp add: Stream_Read_def)
  show ?case
  proof (cases "length buf = want")
    case True
    then show ?thesis by (simp add: echoRead_done)
  next
    case False
    then have lt: "length buf < want" using Cons.prems by simp
    let ?b = "buf @ take (want - length buf) (readBuf s)"
    let ?t = "s\<lparr>readBuf := drop (want - length buf) (readBuf s)\<rparr>"
    have step: "echoRead want buf s as = echoRead want ?b ?t as" for as
    proof (cases "readBuf s = []")
      case True
      then have same: "s\<lparr>readBuf := []\<rparr> = s" by (metis StreamSession.surjective StreamSession.update_convs(4))
      show ?thesis by (simp only: True take_Nil drop_Nil append_Nil2 same)
    qed (rule echoRead_step [OF lt])
    show ?thesis
    proof (cases "want \<le> length buf + length (readBuf s)")
      case True
      then show ?thesis unfolding step using lt by (simp add: echoRead_done)
    next
      case False
      have "\<not> isReadClosed ?t" using Cons.prems(1) by (simp add: isReadClosed_def)
      then show ?thesis unfolding step using wait [of ?t ?b] False by simp
    qed
  qed
qed

text \<open>A round trip on an open stream with room for the message succeeds as soon as as many bytes as
  were sent have come back, cut in any way. Which bytes they are is not looked at.\<close>
theorem round_trip_counts_bytes:
  assumes "state s = StateOpen" "readBuf s = []" "length (writeOut s) < writeOutCap" "\<not> closedCh s"
    "length msg \<le> length (concat ps)"
  shows "fst (echoRoundTrip (Inr s) msg pick (map ArriveData ps)) = RoundOK"
proof -
  let ?s = "s\<lparr>writeOut := writeOut s @ [msg]\<rparr>"
  have "fst (echoRead (length msg) [] ?s (map ArriveData ps)) = Returned (Inr (take (length msg) (concat ps)))"
    using echoRead_data [of ?s "[]" "length msg" ps] assms by (simp add: isReadClosed_def)
  moreover obtain r t where "echoRead (length msg) [] ?s (map ArriveData ps) = (r, t)" by fastforce
  ultimately show ?thesis using assms
    by (simp add: echoRoundTrip_def Stream_Write_def isWriteClosed_def Write_select_def Let_def)
qed

lemma sorted_rank:
  assumes "sorted xs" "k < length xs"
  shows "Suc k \<le> length (filter (\<lambda>x. x \<le> xs ! k) xs)" "length (filter (\<lambda>x. x < xs ! k) xs) \<le> k"
proof -
  have split: "length (filter P xs) = length (filter P (take n xs)) + length (filter P (drop n xs))" for P n
    by (metis append_take_drop_id filter_append length_append)
  have "filter (\<lambda>x. x \<le> xs ! k) (take (Suc k) xs) = take (Suc k) xs"
    using assms by (auto simp: filter_id_conv in_set_conv_nth less_Suc_eq_le intro!: sorted_nth_mono)
  then have "Suc k \<le> length (filter (\<lambda>x. x \<le> xs ! k) (take (Suc k) xs))" using assms(2) by simp
  then show "Suc k \<le> length (filter (\<lambda>x. x \<le> xs ! k) xs)"
    unfolding split [of _ "Suc k"] by (rule trans_le_add1)
  have "filter (\<lambda>x. x < xs ! k) (drop k xs) = []"
    using assms by (auto simp: filter_empty_conv in_set_conv_nth not_less intro!: sorted_nth_mono)
  moreover have "length (filter (\<lambda>x. x < xs ! k) (take k xs)) \<le> k"
    using length_filter_le [of "\<lambda>x. x < xs ! k" "take k xs"] by simp
  ultimately show "length (filter (\<lambda>x. x < xs ! k) xs) \<le> k" unfolding split [of _ k] by simp
qed

text \<open>The reported percentile is the nearest rank: a sample such that at least \<open>p\<close> percent of the
  samples are no larger and less than \<open>p\<close> percent are smaller.\<close>
theorem percentile_nearest_rank:
  assumes "sorted xs" "xs \<noteq> []" "0 < p" "p \<le> 100"
  shows "percentile xs p \<in> set xs" "p / 100 * of_nat (length xs) \<le> of_nat (length (filter (\<lambda>x. x \<le> percentile xs p) xs))"
    "of_nat (length (filter (\<lambda>x. x < percentile xs p) xs)) < p / 100 * of_nat (length xs)"
proof -
  let ?q = "p / 100 * of_nat (length xs)" and ?n = "length xs"
  have q: "0 < ?q" "?q \<le> of_nat ?n" using assms(2-4) by (simp_all add: divide_le_eq mult_left_le_one_le)
  then have c: "1 \<le> \<lceil>?q\<rceil>" "\<lceil>?q\<rceil> \<le> int ?n" by (simp_all add: ceiling_le_iff)
  define k where "k = nat (\<lceil>?q\<rceil> - 1)"
  have k: "k < ?n" "int k = \<lceil>?q\<rceil> - 1" using c by (simp_all add: k_def nat_less_iff)
  have v: "percentile xs p = xs ! k" using c assms(2) by (simp add: percentile_def Let_def k_def)
  show "percentile xs p \<in> set xs" using k(1) by (simp add: v)
  have ok: "of_nat (Suc k) = (of_int \<lceil>?q\<rceil> :: rat)" 
  proof -
    have "of_nat (Suc k) = (of_int (int k + 1) :: rat)" by simp
    then show ?thesis unfolding k(2) by simp
  qed
  have "?q \<le> of_nat (Suc k)" unfolding ok by (rule le_of_int_ceiling)
  also have "\<dots> \<le> of_nat (length (filter (\<lambda>x. x \<le> xs ! k) xs))"
    using sorted_rank(1) [OF assms(1) k(1)] by (simp only: of_nat_le_iff)
  finally show "?q \<le> of_nat (length (filter (\<lambda>x. x \<le> percentile xs p) xs))" unfolding v .
  have "of_nat (length (filter (\<lambda>x. x < xs ! k) xs)) \<le> (of_nat k :: rat)"
    using sorted_rank(2) [OF assms(1) k(1)] by (simp only: of_nat_le_iff)
  also have "\<dots> = of_int \<lceil>?q\<rceil> - 1" using ok by simp
  also have "\<dots> < ?q" using ceiling_correct [of ?q] by simp
  finally show "of_nat (length (filter (\<lambda>x. x < percentile xs p) xs)) < ?q" unfolding v .
qed

lemma collectLatencies_sorted: "sorted (collectLatencies results)"
  by (simp add: collectLatencies_def)

definition batchRate :: "(int \<Rightarrow> int \<times> int) \<Rightarrow> int \<Rightarrow> rat" where
  "batchRate batch n = errRate (fst (batch n)) (snd (batch n))"

lemma runStress_step:
  "runStress batch n =
     (if 5000 < n then None else if 5 < batchRate batch n then Some (n - 500) else runStress batch (n + 500))"
  by (subst runStress.simps) (auto simp: batchRate_def split: prod.splits)

text \<open>The breaking point is the batch before the first whose error rate exceeds five percent, and
  none is reported exactly when every batch stays below that.\<close>
theorem stress_breaking_point:
  "case runStress batch n of
     None \<Rightarrow> \<forall>i. n + 500 * int i \<le> 5000 \<longrightarrow> batchRate batch (n + 500 * int i) \<le> 5
   | Some b \<Rightarrow> \<exists>i. b + 500 = n + 500 * int i \<and> b + 500 \<le> 5000 \<and> 5 < batchRate batch (b + 500) \<and>
       (\<forall>j < i. batchRate batch (n + 500 * int j) \<le> 5)"
proof (induction batch n rule: runStress.induct)
  case (1 batch n)
  consider "5000 < n" | "n \<le> 5000" "5 < batchRate batch n" | "n \<le> 5000" "batchRate batch n \<le> 5" by linarith
  then show ?case
  proof cases
    case 3
    have step: "runStress batch n = runStress batch (n + 500)" using 3 by (subst runStress_step) simp
    have ih: "case runStress batch (n + 500) of
        None \<Rightarrow> \<forall>i. n + 500 + 500 * int i \<le> 5000 \<longrightarrow> batchRate batch (n + 500 + 500 * int i) \<le> 5
      | Some b \<Rightarrow> \<exists>i. b + 500 = n + 500 + 500 * int i \<and> b + 500 \<le> 5000 \<and> 5 < batchRate batch (b + 500) \<and>
          (\<forall>j < i. batchRate batch (n + 500 + 500 * int j) \<le> 5)"
      using "1" [of "fst (batch n)" "snd (batch n)"] 3 by (auto simp: batchRate_def)
    have low: "batchRate batch (n + 500 * int j) \<le> 5" if "\<And>i. j = Suc i \<Longrightarrow> batchRate batch (n + 500 + 500 * int i) \<le> 5" for j
      using that 3(2) by (cases j) (simp_all add: algebra_simps)
    show ?thesis
    proof (cases "runStress batch (n + 500)")
      case None
      then show ?thesis using ih unfolding step by (auto intro!: low)
    next
      case (Some b)
      then obtain i where i: "b + 500 = n + 500 + 500 * int i" "b + 500 \<le> 5000" "5 < batchRate batch (b + 500)"
        "\<And>j. j < i \<Longrightarrow> batchRate batch (n + 500 + 500 * int j) \<le> 5" using ih by auto
      then show ?thesis unfolding step Some option.case by (intro exI [of _ "Suc i"]) (auto intro!: low)
    qed
  qed (subst runStress_step, auto intro: exI [of _ "0 :: nat"])+
qed

lemma report_foldl:
  "foldl report (ok, fail, totalLat) results =
     (ok + int (length (filter (\<lambda>r. r \<noteq> None) results)), fail + int (length (filter (\<lambda>r. r = None) results)),
      totalLat + sum_list (List.map_filter (\<lambda>r. r) results))"
  by (induction results arbitrary: ok fail totalLat) (auto simp: report_def List.map_filter_simps split: option.splits)

lemma successes_length: "length (List.map_filter (\<lambda>r. r) results) = length (filter (\<lambda>r. r \<noteq> None) results)"
  by (induction results) (auto simp: List.map_filter_simps split: option.splits)

lemma sum_list_bounds:
  fixes xs :: "int list"
  shows "(\<And>x. x \<in> set xs \<Longrightarrow> lo \<le> x \<and> x \<le> hi) \<Longrightarrow> int (length xs) * lo \<le> sum_list xs \<and> sum_list xs \<le> int (length xs) * hi"
proof (induction xs)
  case (Cons x xs)
  then have "int (length xs) * lo \<le> sum_list xs \<and> sum_list xs \<le> int (length xs) * hi" "lo \<le> x" "x \<le> hi" by simp_all
  then show ?case by (simp add: algebra_simps)
qed simp

text \<open>Every round trip is counted once, whatever the order of completion, and the average lies
  between the fastest and the slowest successful one.\<close>
theorem concurrent_counts:
  assumes "runConcurrent results = (ok, fail, avg)" "mset results' = mset results"
  shows "ok + fail = int (length results)" "fail = int (count_list results None)" "runConcurrent results' = (ok, fail, avg)"
    and "0 < ok \<Longrightarrow> (\<And>us. Some us \<in> set results \<Longrightarrow> lo \<le> us \<and> us \<le> hi) \<Longrightarrow> lo * 1000 \<le> avg \<and> avg \<le> hi * 1000"
proof -
  have run: "runConcurrent rs = (let n = int (length (filter (\<lambda>r. r \<noteq> None) rs)) in
      (n, int (length (filter (\<lambda>r. r = None) rs)),
       if 0 < n then sum_list (List.map_filter (\<lambda>r. r) rs) div n * 1000 else 0))" for rs
    by (simp add: runConcurrent_def report_foldl Let_def)
  let ?ok = "filter (\<lambda>r. r \<noteq> None) results" and ?us = "List.map_filter (\<lambda>r. r) results"
  have ok: "ok = int (length ?ok)" "fail = int (length (filter (\<lambda>r. r = None) results))"
    and avg: "0 < ok \<Longrightarrow> avg = sum_list ?us div ok * 1000"
    using assms(1) unfolding run Let_def by (auto split: if_splits)
  show "ok + fail = int (length results)"
    using sum_length_filter_compl [of "\<lambda>r. r \<noteq> None" results] by (simp add: ok)
  have "(=) None = (\<lambda>r :: int option. r = None)" by auto
  then show "fail = int (count_list results None)" by (simp only: ok(2) count_list_eq_length_filter)
  have m: "length (filter P results') = length (filter P results)" for P
    by (metis assms(2) mset_filter size_mset)
  have "mset (List.map_filter (\<lambda>r. r) rs) = image_mset the (filter_mset (\<lambda>r. r \<noteq> None) (mset rs))" for rs :: "int option list"
    by (simp add: List.map_filter_def o_def)
  then have eq: "sum_list (List.map_filter (\<lambda>r. r) results') = sum_list ?us"
    by (metis assms(2) sum_mset_sum_list)
  show "runConcurrent results' = (ok, fail, avg)" using assms(1) by (simp only: run m eq)
  assume pos: "0 < ok" and b: "\<And>us. Some us \<in> set results \<Longrightarrow> lo \<le> us \<and> us \<le> hi"
  have "set ?us \<subseteq> {us. Some us \<in> set results}" by (auto simp: List.map_filter_def)
  then have "int (length ?us) * lo \<le> sum_list ?us \<and> sum_list ?us \<le> int (length ?us) * hi"
    using b by (intro sum_list_bounds) blast
  then have "ok * lo \<le> sum_list ?us \<and> sum_list ?us \<le> ok * hi" by (simp add: successes_length ok(1))
  then have "ok * lo div ok \<le> sum_list ?us div ok \<and> sum_list ?us div ok \<le> ok * hi div ok"
    using zdiv_mono1 [OF _ pos] by blast
  then show "lo * 1000 \<le> avg \<and> avg \<le> hi * 1000" using pos by (simp add: avg)
qed

end
