(* ===== verification/Echo_Server.thy ===== *)
theory Echo_Server
  imports Agent_Forward "HOL-Library.Word"
begin

text \<open>
  The echo servers that stand in for a local service: \<^verbatim>\<open>src/scripts/echoserver/main.go\<close> and
  \<^verbatim>\<open>startEchoServer\<close> of \<^verbatim>\<open>src/scripts/loadtest/main.go\<close>.  Each connection is copied back to itself in
  a goroutine of its own; the accept loop of the first goes on after an error and keeps two
  counters, that of the second ends.  What a read returns, and how many bytes a write takes before it
  fails, is chosen by the environment.
\<close>

section \<open>One connection\<close>

text \<open>Where the goroutine of a connection is: copying, after the copy, after the first of its deferred
  calls, or returned with the connection closed.\<close>
datatype echo_pc = EchoCopies | EchoEnded | EchoCounted | EchoClosed

record echo_conn =
  ec_pc :: echo_pc
  ec_read :: "8 word list"
  ec_written :: "8 word list"

definition echoAccepted :: echo_conn where
  "echoAccepted = \<lparr>ec_pc = EchoCopies, ec_read = [], ec_written = []\<rparr>"

text \<open>One round of \<^verbatim>\<open>io.Copy(conn, conn)\<close>: a read and, if it got data, a write that takes \<open>room\<close> bytes.\<close>
definition echoCopy :: "echo_conn \<Rightarrow> 'e read_outcome \<Rightarrow> nat \<Rightarrow> echo_conn" where
  "echoCopy c r room =
     (if ec_pc c \<noteq> EchoCopies then c
      else
        (case r of
           GotData p \<Rightarrow>
             c\<lparr>ec_read := ec_read c @ p, ec_written := ec_written c @ take room p,
               ec_pc := (if length p \<le> room then EchoCopies else EchoEnded)\<rparr>
         | _ \<Rightarrow> c\<lparr>ec_pc := EchoEnded\<rparr>))"

definition updateConn :: "echo_conn list \<Rightarrow> nat \<Rightarrow> (echo_conn \<Rightarrow> echo_conn) \<Rightarrow> echo_conn list" where
  "updateConn cs i f = (if i < length cs then cs[i := f (cs ! i)] else cs)"

section \<open>The stand-alone server\<close>

record echo_server =
  es_active :: "64 word"
  es_total :: "64 word"
  es_conns :: "echo_conn list"

datatype 'e echo_event = EsAccept bool | EsCopy nat "'e read_outcome" nat | EsDeferred nat

definition echoStart :: echo_server where
  "echoStart = \<lparr>es_active = 0, es_total = 0, es_conns = []\<rparr>"

text \<open>The deferred calls run last first: the counter, then the Close.\<close>
definition echoMain :: "echo_server \<Rightarrow> 'e echo_event \<Rightarrow> echo_server" where
  "echoMain s e =
     (case e of
        EsAccept ok \<Rightarrow>
          if \<not> ok then s
          else s\<lparr>es_active := es_active s + 1, es_total := es_total s + 1, es_conns := es_conns s @ [echoAccepted]\<rparr>
      | EsCopy i r room \<Rightarrow> s\<lparr>es_conns := updateConn (es_conns s) i (\<lambda>c. echoCopy c r room)\<rparr>
      | EsDeferred i \<Rightarrow>
          if i < length (es_conns s) \<and> ec_pc (es_conns s ! i) = EchoEnded then
            s\<lparr>es_active := es_active s - 1, es_conns := updateConn (es_conns s) i (\<lambda>c. c\<lparr>ec_pc := EchoCounted\<rparr>)\<rparr>
          else if i < length (es_conns s) \<and> ec_pc (es_conns s ! i) = EchoCounted then
            s\<lparr>es_conns := updateConn (es_conns s) i (\<lambda>c. c\<lparr>ec_pc := EchoClosed\<rparr>)\<rparr>
          else s)"

section \<open>The server of the load test\<close>

record test_echo =
  te_open :: bool
  te_accepting :: bool
  te_conns :: "echo_conn list"

datatype 'e test_echo_event = TeAccept bool | TeCopy nat "'e read_outcome" nat | TeDeferred nat | TeCleanup

definition startEchoServer :: test_echo where
  "startEchoServer = \<lparr>te_open = True, te_accepting = True, te_conns = []\<rparr>"

text \<open>An accept fails once the listener is closed, and the first failure ends the loop.\<close>
definition testEcho :: "test_echo \<Rightarrow> 'e test_echo_event \<Rightarrow> test_echo" where
  "testEcho s e =
     (case e of
        TeAccept ok \<Rightarrow>
          if \<not> te_accepting s then s
          else if ok \<and> te_open s then s\<lparr>te_conns := te_conns s @ [echoAccepted]\<rparr>
          else s\<lparr>te_accepting := False\<rparr>
      | TeCopy i r room \<Rightarrow> s\<lparr>te_conns := updateConn (te_conns s) i (\<lambda>c. echoCopy c r room)\<rparr>
      | TeDeferred i \<Rightarrow>
          s\<lparr>te_conns := updateConn (te_conns s) i (\<lambda>c. if ec_pc c = EchoEnded then c\<lparr>ec_pc := EchoClosed\<rparr> else c)\<rparr>
      | TeCleanup \<Rightarrow> s\<lparr>te_open := False\<rparr>)"

section \<open>What is echoed\<close>

text \<open>What was sent back is what was read, from the start and in order; nothing is missing while the copy
  runs.\<close>
definition echoes :: "echo_conn \<Rightarrow> bool" where
  "echoes c \<longleftrightarrow> prefix (ec_written c) (ec_read c) \<and> (ec_pc c = EchoCopies \<longrightarrow> ec_written c = ec_read c)"

text \<open>The goroutines that \<^verbatim>\<open>active\<close> counts.\<close>
definition counting :: "echo_conn \<Rightarrow> bool" where
  "counting c \<longleftrightarrow> ec_pc c \<in> {EchoCopies, EchoEnded}"

lemma echoes_copy: "echoes c \<Longrightarrow> echoes (echoCopy c r room)"
  by (auto simp: echoes_def echoCopy_def take_is_prefix split: read_outcome.splits)

lemma echoes_pc: "echoes c \<Longrightarrow> pc \<noteq> EchoCopies \<Longrightarrow> echoes (c\<lparr>ec_pc := pc\<rparr>)"
  by (simp add: echoes_def)

lemma echoes_update:
  "list_all echoes cs \<Longrightarrow> (\<And>c. echoes c \<Longrightarrow> echoes (f c)) \<Longrightarrow> list_all echoes (updateConn cs i f)"
  by (auto simp: updateConn_def list_all_length nth_list_update)

lemma counting_update:
  assumes "i < length cs"
  shows "int (length (filter counting (updateConn cs i f))) =
    int (length (filter counting cs)) - (if counting (cs ! i) then 1 else 0) + (if counting (f (cs ! i)) then 1 else 0)"
proof -
  have "cs = take i cs @ cs ! i # drop (Suc i) cs" using assms by (rule id_take_nth_drop)
  then have "length (filter counting cs) =
      length (filter counting (take i cs)) + length (filter counting [cs ! i]) + length (filter counting (drop (Suc i) cs))"
    by (metis append_Cons append_Nil filter_append length_append add.assoc)
  moreover have "updateConn cs i f = take i cs @ f (cs ! i) # drop (Suc i) cs"
    using assms by (simp add: updateConn_def upd_conv_take_nth_drop)
  ultimately show ?thesis by simp
qed

definition echo_inv :: "echo_server \<Rightarrow> bool" where
  "echo_inv s \<longleftrightarrow> list_all echoes (es_conns s) \<and> es_active s = word_of_int (int (length (filter counting (es_conns s)))) \<and>
     es_total s = word_of_int (int (length (es_conns s)))"

lemma echo_inv_step:
  assumes "echo_inv s" shows "echo_inv (echoMain s e)"
proof (cases e)
  case (EsAccept ok)
  have "echoes echoAccepted" "counting echoAccepted" by (simp_all add: echoes_def counting_def echoAccepted_def)
  then show ?thesis using assms by (simp add: EsAccept echoMain_def echo_inv_def add.commute)
next
  case (EsCopy i r room)
  have "counting (echoCopy c r room) = counting c" for c
    by (simp add: counting_def echoCopy_def split: read_outcome.splits)
  then have "length (filter counting (updateConn (es_conns s) i (\<lambda>c. echoCopy c r room))) = length (filter counting (es_conns s))"
    using counting_update [of i "es_conns s" "\<lambda>c. echoCopy c r room"] by (cases "i < length (es_conns s)") (simp_all add: updateConn_def)
  moreover have "length (updateConn (es_conns s) i f) = length (es_conns s)" for f by (simp add: updateConn_def)
  moreover have "list_all echoes (updateConn (es_conns s) i (\<lambda>c. echoCopy c r room))"
    using assms by (intro echoes_update echoes_copy) (simp add: echo_inv_def)
  ultimately show ?thesis using assms by (simp add: EsCopy echoMain_def echo_inv_def)
next
  case (EsDeferred i)
  have len: "length (updateConn (es_conns s) i f) = length (es_conns s)" for f by (simp add: updateConn_def)
  have ech: "list_all echoes (updateConn (es_conns s) i (\<lambda>c. c\<lparr>ec_pc := pc\<rparr>))" if "pc \<noteq> EchoCopies" for pc
    using assms that by (intro echoes_update echoes_pc) (simp_all add: echo_inv_def)
  let ?n = "\<lambda>pc. length (filter counting (updateConn (es_conns s) i (\<lambda>c. c\<lparr>ec_pc := pc\<rparr>)))"
  have ended: "length (filter counting (es_conns s)) = Suc (?n EchoCounted)"
    if "i < length (es_conns s)" "ec_pc (es_conns s ! i) = EchoEnded"
    using that counting_update [OF that(1), of "\<lambda>c. c\<lparr>ec_pc := EchoCounted\<rparr>"] by (auto simp: counting_def)
  have counted: "?n EchoClosed = length (filter counting (es_conns s))"
    if "i < length (es_conns s)" "ec_pc (es_conns s ! i) = EchoCounted"
    using that counting_update [OF that(1), of "\<lambda>c. c\<lparr>ec_pc := EchoClosed\<rparr>"] by (auto simp: counting_def)
  show ?thesis using assms ech [of EchoCounted] ech [of EchoClosed] ended counted
    by (simp add: EsDeferred echoMain_def echo_inv_def len)
qed

text \<open>Whatever is accepted and in whichever order the copies go on: every connection gets back what it sent,
  in order, all of it while its copy runs; the total counts the accepted connections, and the active
  counter those whose copy or first deferred call is still to come.\<close>
theorem echo_server_exact:
  fixes evs :: "'e echo_event list"
  defines "s \<equiv> foldl echoMain echoStart evs"
  shows "\<forall>c \<in> set (es_conns s). prefix (ec_written c) (ec_read c) \<and> (ec_pc c = EchoCopies \<longrightarrow> ec_written c = ec_read c)"
    "es_total s = of_nat (length (filter (\<lambda>e. e = EsAccept True) evs))"
    "es_active s = of_nat (length (filter counting (es_conns s)))"
proof -
  have "echo_inv (foldl echoMain echoStart evs)"
  proof (induction evs rule: rev_induct)
    case Nil
    show ?case by (simp add: echo_inv_def echoStart_def)
  qed (simp add: echo_inv_step)
  then have inv: "echo_inv s" by (simp add: s_def)
  then show "\<forall>c \<in> set (es_conns s). prefix (ec_written c) (ec_read c) \<and> (ec_pc c = EchoCopies \<longrightarrow> ec_written c = ec_read c)"
    by (simp add: echo_inv_def list_all_iff echoes_def)
  have "length (es_conns (foldl echoMain echoStart evs)) = length (filter (\<lambda>e. e = EsAccept True) evs)"
  proof (induction evs rule: rev_induct)
    case (snoc e evs)
    have "length (es_conns (echoMain t e)) = length (es_conns t) + (if e = EsAccept True then 1 else 0)" for t
      by (cases e) (simp_all add: echoMain_def updateConn_def)
    with snoc show ?case by simp
  qed (simp add: echoStart_def)
  with inv show "es_total s = of_nat (length (filter (\<lambda>e. e = EsAccept True) evs))"
    by (simp add: echo_inv_def s_def)
  show "es_active s = of_nat (length (filter counting (es_conns s)))" using inv by (simp add: echo_inv_def)
qed

text \<open>The server of the load test echoes the same way, and accepts nothing after its first failed accept,
  which closing the listener makes the next one be.\<close>
theorem test_echo_stops:
  fixes evs :: "'e test_echo_event list"
  defines "s \<equiv> foldl testEcho startEchoServer evs"
  shows "\<forall>c \<in> set (te_conns s). prefix (ec_written c) (ec_read c)"
    "\<not> te_accepting s \<or> \<not> te_open s \<Longrightarrow> length (te_conns (foldl testEcho s evs')) = length (te_conns s)"
proof -
  have "list_all echoes (te_conns (foldl testEcho startEchoServer evs))"
  proof (induction evs rule: rev_induct)
    case (snoc e evs)
    define t where "t = foldl testEcho startEchoServer evs"
    have t: "list_all echoes (te_conns t)" using snoc by (simp add: t_def)
    have cp: "list_all echoes (updateConn (te_conns t) i (\<lambda>c. echoCopy c r room))" for i and r :: "'e read_outcome" and room
      using t by (intro echoes_update echoes_copy)
    have df: "list_all echoes (updateConn (te_conns t) i (\<lambda>c. if ec_pc c = EchoEnded then c\<lparr>ec_pc := EchoClosed\<rparr> else c))" for i
      using t by (intro echoes_update) (simp_all add: echoes_pc)
    have "echoes echoAccepted" by (simp add: echoes_def echoAccepted_def)
    then have "list_all echoes (te_conns (testEcho t e))" using t by (cases e) (simp_all add: testEcho_def cp df)
    then show ?case by (simp add: t_def)
  qed (simp add: startEchoServer_def)
  then show "\<forall>c \<in> set (te_conns s). prefix (ec_written c) (ec_read c)"
    by (simp add: s_def list_all_iff echoes_def)
  have "length (te_conns (foldl testEcho t evs')) = length (te_conns t)" if "\<not> te_accepting t \<or> \<not> te_open t" for t
    using that
  proof (induction evs' arbitrary: t)
    case (Cons e es)
    have "length (te_conns (testEcho t e)) = length (te_conns t)" "\<not> te_accepting (testEcho t e) \<or> \<not> te_open (testEcho t e)"
      using Cons.prems by (auto simp: testEcho_def updateConn_def split: test_echo_event.splits)
    with Cons.IH [of "testEcho t e"] show ?case by simp
  qed simp
  then show "\<not> te_accepting s \<or> \<not> te_open s \<Longrightarrow> length (te_conns (foldl testEcho s evs')) = length (te_conns s)" .
qed

end
