(* ===== verification/Bench_Runs.thy ===== *)
theory Bench_Runs
  imports Load_Test Echo_Server Mux_Runs
begin

text \<open>
  The benchmarks of \<^verbatim>\<open>src/scripts/loadtest/main.go\<close> as a whole: the forwarder on the agent's side, the
  round trip over TCP, and what each \<^verbatim>\<open>run\<close> function measures and concludes from the outcomes of its
  goroutines.  The outcomes come in the order of completion; the clock is a parameter.
\<close>

section \<open>The forwarder\<close>

text \<open>One round of the accept loop of \<^verbatim>\<open>startAgentForwarder\<close>: it ends with the first error, and starts a goroutine
  for a stream.\<close>
definition forwarderAccept :: "MuxSession \<Rightarrow> accept_wait \<Rightarrow> (ref option) attempt \<times> MuxSession" where
  "forwarderAccept m w =
     (case AcceptStream m w of
        (Blocked, m1) \<Rightarrow> (Blocked, m1)
      | (Returned (Inl _), m1) \<Rightarrow> (Returned None, m1)
      | (Returned (Inr r), m1) \<Rightarrow> (Returned (Some r), m1))"

text \<open>The goroutine of a stream: it waits for the first copy to end or for the context, and then closes the
  stream and the local connection; a failed dial leaves it before that.\<close>
datatype forwarder_pc = FwCopies nat | FwReturned bool

definition forwarderDial :: "bool \<Rightarrow> forwarder_pc" where
  "forwarderDial dialed = (if dialed then FwCopies 0 else FwReturned False)"

definition forwarderStep :: "MuxSession \<Rightarrow> ref \<Rightarrow> forwarder_pc \<Rightarrow> bool \<Rightarrow> bool \<Rightarrow> forwarder_pc \<times> MuxSession" where
  "forwarderStep m r pc copyEnds ctxDone =
     (case pc of
        FwReturned b \<Rightarrow> (pc, m)
      | FwCopies n \<Rightarrow>
          if n > 0 \<or> ctxDone then (FwReturned True, streamClose m r)
          else (FwCopies (if copyEnds then n + 1 else n), m))"

section \<open>The round trip over TCP\<close>

datatype tcp_read_error = TcpEOF | TcpError

datatype remote_error = RemoteDial | RemoteWrite | RemoteRead | RemoteEmpty

text \<open>The one \<^verbatim>\<open>Read\<close> takes what is there, \<open>n\<close> bytes with an error or none.\<close>
definition remoteTCPRoundTrip :: "bool \<Rightarrow> bool \<Rightarrow> nat \<times> tcp_read_error option \<Rightarrow> remote_error option" where
  "remoteTCPRoundTrip dialed wrote rd =
     (if \<not> dialed then Some RemoteDial
      else if \<not> wrote then Some RemoteWrite
      else
        (case rd of (n, err) \<Rightarrow>
           if err \<noteq> None \<and> err \<noteq> Some TcpEOF then Some RemoteRead
           else if n = 0 then Some RemoteEmpty
           else None))"

section \<open>Counting benchmarks\<close>

text \<open>One goroutine of \<^verbatim>\<open>runLoad\<close>, \<^verbatim>\<open>runRemoteLoad\<close>, \<^verbatim>\<open>runStress\<close> or one cycle of \<^verbatim>\<open>runChurn\<close>.\<close>
definition tallyOne :: "int \<times> int \<Rightarrow> 'e option \<Rightarrow> int \<times> int" where
  "tallyOne acc err = (case acc of (ok, fail) \<Rightarrow> if err \<noteq> None then (ok, fail + 1) else (ok + 1, fail))"

definition tally :: "'e option list \<Rightarrow> int \<times> int" where
  "tally errs = foldl tallyOne (0, 0) errs"

text \<open>The name, the counts and the verdict that \<^verbatim>\<open>printResult\<close> prints.\<close>
definition printResult :: "string \<Rightarrow> int \<times> int \<Rightarrow> string \<times> int \<times> int \<times> bool" where
  "printResult name counts = (name, fst counts, snd counts, resultPasses (fst counts) (snd counts))"

definition loadStreams :: nat where
  "loadStreams = 1000"

definition runRemoteLoad :: "'e option list \<Rightarrow> string \<times> int \<times> int \<times> bool" where
  "runRemoteLoad remoteErrs = printResult ''load/remote'' (tally remoteErrs)"

definition runLoad :: "string \<Rightarrow> 'e option list \<Rightarrow> 'e option list \<Rightarrow> string \<times> int \<times> int \<times> bool" where
  "runLoad remoteAddr errs remoteErrs =
     (if remoteAddr \<noteq> [] then runRemoteLoad remoteErrs else printResult ''load'' (tally errs))"

text \<open>A batch of \<^verbatim>\<open>runStress\<close>, and the whole of it from 500 streams on.\<close>
definition stressBatch :: "(int \<Rightarrow> 'e option list) \<Rightarrow> int \<Rightarrow> int \<times> int" where
  "stressBatch outcomes n = tally (outcomes n)"

definition stressRun :: "string \<Rightarrow> (int \<Rightarrow> 'e option list) \<Rightarrow> int option" where
  "stressRun remoteAddr outcomes = (if remoteAddr \<noteq> [] then None else runStress (stressBatch outcomes) 500)"

text \<open>The counts of \<^verbatim>\<open>runChurn\<close> and its cycles per second.\<close>
definition runChurn :: "string \<Rightarrow> 'e option list \<Rightarrow> rat \<Rightarrow> (int \<times> int \<times> rat) option" where
  "runChurn remoteAddr errs elapsed =
     (if remoteAddr \<noteq> [] then None
      else Some (fst (tally errs), snd (tally errs), of_int (fst (tally errs)) / elapsed))"

section \<open>Throughput\<close>

definition totalBytes :: nat where
  "totalBytes = 100 * 1024 * 1024"

definition chunkSize :: nat where
  "chunkSize = 32 * 1024"

text \<open>The writing loop over the results of \<^verbatim>\<open>Write\<close>; None is an error.  It waits when they run out.\<close>
fun sendLoop :: "nat \<Rightarrow> nat option list \<Rightarrow> nat attempt" where
  "sendLoop sent ws =
     (if sent < totalBytes then
        (case ws of [] \<Rightarrow> Blocked | None # _ \<Rightarrow> Returned sent | Some n # ws' \<Rightarrow> sendLoop (sent + n) ws')
      else Returned sent)"

text \<open>The reading goroutine over the results of \<^verbatim>\<open>Read\<close>.\<close>
fun receiveLoop :: "nat \<Rightarrow> nat option list \<Rightarrow> nat attempt" where
  "receiveLoop got rs =
     (if got < totalBytes then
        (case rs of [] \<Rightarrow> Blocked | None # _ \<Rightarrow> Returned got | Some n # rs' \<Rightarrow> receiveLoop (got + n) rs')
      else Returned got)"

declare sendLoop.simps [simp del] receiveLoop.simps [simp del]

datatype throughput = ThroughputSkipped | ThroughputOpenFailed | ThroughputWaits | ThroughputRate nat nat rat

definition runThroughput :: "string \<Rightarrow> bool \<Rightarrow> nat option list \<Rightarrow> nat option list \<Rightarrow> rat \<Rightarrow> throughput" where
  "runThroughput remoteAddr opened writes reads elapsed =
     (if remoteAddr \<noteq> [] then ThroughputSkipped
      else if \<not> opened then ThroughputOpenFailed
      else
        (case (sendLoop 0 writes, receiveLoop 0 reads) of
           (Returned sent, Returned received) \<Rightarrow>
             ThroughputRate (sent div 1024 div 1024) (received div 1024 div 1024) (of_nat received / elapsed / 1024 / 1024)
         | _ \<Rightarrow> ThroughputWaits))"

section \<open>Benchmarks over levels\<close>

definition runRemoteLatency :: "nat list \<Rightarrow> (nat \<Rightarrow> rat option list) \<Rightarrow> (nat \<times> rat list) list" where
  "runRemoteLatency levels remote = map (\<lambda>n. (n, printLatencyRow (collectLatencies (remote n)))) levels"

definition runLatency :: "string \<Rightarrow> (nat \<Rightarrow> rat option list) \<Rightarrow> (nat \<Rightarrow> rat option list) \<Rightarrow> (nat \<times> rat list) list" where
  "runLatency remoteAddr results remote =
     (let levels = benchLevels remoteAddr Latency in
      if remoteAddr \<noteq> [] then runRemoteLatency levels remote
      else map (\<lambda>n. (n, printLatencyRow (collectLatencies (results n)))) levels)"

definition printRampRow :: "nat \<Rightarrow> int \<times> int \<times> int \<Rightarrow> nat \<times> int \<times> int \<times> int" where
  "printRampRow n row = (case row of (ok, fail, avgLat) \<Rightarrow> (n, ok, fail, avgLat))"

definition runRemoteRamp :: "nat list \<Rightarrow> (nat \<Rightarrow> int option list) \<Rightarrow> (nat \<times> int \<times> int \<times> int) list" where
  "runRemoteRamp levels remote = map (\<lambda>n. printRampRow n (runConcurrent (remote n))) levels"

definition runRamp :: "string \<Rightarrow> (nat \<Rightarrow> int option list) \<Rightarrow> (nat \<Rightarrow> int option list) \<Rightarrow> (nat \<times> int \<times> int \<times> int) list" where
  "runRamp remoteAddr results remote =
     (let levels = benchLevels remoteAddr Ramp in
      if remoteAddr \<noteq> [] then runRemoteRamp levels remote
      else map (\<lambda>n. printRampRow n (runConcurrent (results n))) levels)"

section \<open>What the benchmarks conclude\<close>

lemma tally_counts:
  "tally errs = (int (length (filter (\<lambda>e. e = None) errs)), int (length (filter (\<lambda>e. e \<noteq> None) errs)))"
proof -
  have "foldl tallyOne (a, b) errs =
      (a + int (length (filter (\<lambda>e. e = None) errs)), b + int (length (filter (\<lambda>e. e \<noteq> None) errs)))" for a b
    by (induction errs arbitrary: a b) (simp_all add: tallyOne_def)
  then show ?thesis by (simp add: tally_def)
qed

lemma tally_total: "fst (tally errs) + snd (tally errs) = int (length errs)"
  using sum_length_filter_compl [of "\<lambda>e. e = None" errs] by (simp add: tally_counts)

lemma errRate_bound:
  assumes "ok + fail = n" "0 < n" shows "errRate ok fail > c \<longleftrightarrow> c * of_int n < 100 * of_int fail"
  using assms by (simp add: errRate_def less_divide_eq mult.commute)

text \<open>The load test passes exactly when at most ten of its thousand round trips fail, whichever mode it
  runs in; in remote mode a round trip that got a single byte back has not failed.\<close>
theorem load_passes:
  assumes "length errs = loadStreams" "length remoteErrs = loadStreams"
    "runLoad remoteAddr errs remoteErrs = (name, ok, fail, pass)"
  shows "ok + fail = 1000" "pass \<longleftrightarrow> fail \<le> 10"
    "fail = int (length (filter (\<lambda>e. e \<noteq> None) (if remoteAddr = [] then errs else remoteErrs)))"
    "remoteTCPRoundTrip True True (Suc 0, None) = None"
proof -
  define es where "es = (if remoteAddr = [] then errs else remoteErrs)"
  have r: "(ok, fail) = tally es" "pass = resultPasses ok fail"
    using assms(3) by (auto simp: runLoad_def runRemoteLoad_def printResult_def es_def split: if_splits)
  have t: "fst (tally es) + snd (tally es) = 1000"
    using tally_total [of es] assms(1,2) by (simp add: es_def loadStreams_def split: if_splits)
  show sum: "ok + fail = 1000" using t by (simp flip: r(1))
  show "pass \<longleftrightarrow> fail \<le> 10"
    unfolding r(2) resultPasses_def errRate_bound [OF sum, of 1, simplified] by auto
  show "fail = int (length (filter (\<lambda>e. e \<noteq> None) (if remoteAddr = [] then errs else remoteErrs)))"
    using r(1) by (simp add: tally_counts es_def)
qed (simp add: remoteTCPRoundTrip_def)

text \<open>A reported breaking point \<open>b\<close> means that in the batch of \<open>b + 500\<close> more than one stream in twenty failed,
  and in no smaller batch.\<close>
theorem stress_means_failures:
  assumes "stressRun remoteAddr outcomes = Some b" "\<forall>n. length (outcomes n) = nat n"
  shows "b + 500 < 20 * snd (stressBatch outcomes (b + 500))"
    "n = 500 + 500 * int j \<Longrightarrow> n \<le> b \<Longrightarrow> 20 * snd (stressBatch outcomes n) \<le> n"
proof -
  have run: "runStress (stressBatch outcomes) 500 = Some b" using assms(1) by (simp add: stressRun_def split: if_splits)
  obtain i where i: "b + 500 = 500 + 500 * int i" "5 < batchRate (stressBatch outcomes) (b + 500)"
    "\<And>j. j < i \<Longrightarrow> batchRate (stressBatch outcomes) (500 + 500 * int j) \<le> 5"
    using stress_breaking_point [where batch = "stressBatch outcomes" and n = 500] unfolding run by auto
  have rate: "5 < batchRate (stressBatch outcomes) n \<longleftrightarrow> n < 20 * snd (stressBatch outcomes n)" if "0 < n" for n
  proof -
    have "fst (stressBatch outcomes n) + snd (stressBatch outcomes n) = n"
      using tally_total [of "outcomes n"] assms(2) that by (simp add: stressBatch_def)
    from errRate_bound [OF this that, of 5] have "5 < batchRate (stressBatch outcomes) n \<longleftrightarrow>
        (of_int (5 * n) :: rat) < of_int (100 * snd (stressBatch outcomes n))" by (simp add: batchRate_def)
    also have "\<dots> \<longleftrightarrow> n < 20 * snd (stressBatch outcomes n)" unfolding of_int_less_iff by linarith
    finally show ?thesis .
  qed
  show "b + 500 < 20 * snd (stressBatch outcomes (b + 500))" using i(1,2) rate [of "b + 500"] by simp
  assume n: "n = 500 + 500 * int j" "n \<le> b"
  then have "j < i" using i(1) by linarith
  from i(3) [OF this] show "20 * snd (stressBatch outcomes n) \<le> n" using rate [of n] n(1) by (simp add: not_less)
qed

lemma chunks_divide: "totalBytes = 3200 * chunkSize" "0 < chunkSize" "0 < totalBytes"
  by (simp_all add: totalBytes_def chunkSize_def)

text \<open>A loop that no error ends leaves with at least the total, and less than one chunk over it.\<close>
lemma receiveLoop_bounds:
  assumes "receiveLoop got rs = Returned n" "\<forall>r \<in> set rs. \<exists>k. r = Some k \<and> k \<le> chunkSize" "got < totalBytes + chunkSize"
  shows "totalBytes \<le> n \<and> n < totalBytes + chunkSize"
  using assms
proof (induction got rs rule: receiveLoop.induct)
  case (1 got rs)
  show ?case
  proof (cases "got < totalBytes")
    case True
    then obtain k rs' where "rs = Some k # rs'"
      using "1.prems"(1,2) by (auto simp: receiveLoop.simps [of got] split: list.splits option.splits)
    then show ?thesis using True "1.prems" "1.IH" [of "Some k" rs' k] by (simp add: receiveLoop.simps [of got])
  next
    case False
    then show ?thesis using "1.prems" by (simp add: receiveLoop.simps [of got])
  qed
qed

lemma sendLoop_full:
  assumes "sent = k * chunkSize" "k \<le> 3200"
  shows "sendLoop sent (replicate (3200 - k) (Some chunkSize) @ ws) = Returned totalBytes"
  using assms
proof (induction "3200 - k" arbitrary: sent k)
  case 0
  then show ?case by (subst sendLoop.simps) (simp add: chunks_divide(1))
next
  case (Suc j)
  have k: "3200 - k = Suc (3200 - Suc k)" "sent < totalBytes" "Suc k \<le> 3200"
    using Suc.hyps(2) Suc.prems by (auto simp: chunks_divide)
  have "sendLoop (sent + chunkSize) (replicate (3200 - Suc k) (Some chunkSize) @ ws) = Returned totalBytes"
    using k Suc.hyps(2) Suc.prems by (intro Suc.hyps(1)) simp_all
  then show ?case unfolding k(1) using k(2) by (subst sendLoop.simps) simp
qed

text \<open>When every write takes its chunk, the throughput test sends exactly its hundred megabytes; and when no
  read fails, what it counts as received is at least that and less than one chunk more.\<close>
theorem throughput_bounds:
  assumes "writes = replicate 3200 (Some chunkSize) @ ws" "\<forall>r \<in> set reads. \<exists>k. r = Some k \<and> k \<le> chunkSize"
    "receiveLoop 0 reads = Returned n" "0 < elapsed"
  shows "\<exists>rate. runThroughput [] True writes reads elapsed = ThroughputRate 100 100 rate \<and>
    100 / elapsed \<le> rate \<and> rate < (100 + 1 / 32) / elapsed"
proof -
  have s: "sendLoop 0 writes = Returned totalBytes" using sendLoop_full [of 0 0 ws] assms(1) by simp
  have n: "totalBytes \<le> n" "n < totalBytes + chunkSize"
    using receiveLoop_bounds [OF assms(3,2)] chunks_divide(3) by auto
  then have mb: "n div 1024 div 1024 = 100" "totalBytes div 1024 div 1024 = 100"
    by (simp_all add: totalBytes_def chunkSize_def)
  have lo: "100 * 1024 * 1024 \<le> (of_nat n :: rat)" using n(1) of_nat_mono [of totalBytes n, where 'a = rat] by (simp add: totalBytes_def)
  have "of_nat n < (of_nat (totalBytes + chunkSize) :: rat)" using n(2) by (simp only: of_nat_less_iff)
  then have hi: "(of_nat n :: rat) < (100 + 1 / 32) * 1024 * 1024" by (simp add: totalBytes_def chunkSize_def)
  have "100 / elapsed \<le> of_nat n / elapsed / 1024 / 1024" "of_nat n / elapsed / 1024 / 1024 < (100 + 1 / 32) / elapsed"
    using lo hi assms(4) by (simp_all add: field_simps)
  then show ?thesis by (simp add: runThroughput_def s assms(3) mb)
qed

lemma percentile_index:
  assumes "xs \<noteq> []"
  shows "percentile xs p = xs ! nat (min (int (length xs) - 1) (max 0 (\<lceil>p / 100 * of_nat (length xs)\<rceil> - 1)))"
proof -
  define i where "i = \<lceil>p / 100 * of_nat (length xs)\<rceil> - 1"
  define j where "j = (if i < 0 then 0 else i)"
  obtain n where "int (length xs) = n" "0 < n" using assms by (cases xs) auto
  then have "(if int (length xs) \<le> j then int (length xs) - 1 else j) = min (int (length xs) - 1) (max 0 i)"
    unfolding j_def by (cases "i < 0"; cases "int (length xs) \<le> i") (simp_all add: min_def max_def)
  then show ?thesis using assms unfolding percentile_def Let_def i_def [symmetric] j_def [symmetric] by simp
qed

lemma percentile_mono:
  assumes "sorted xs" "p \<le> q" shows "percentile xs p \<le> percentile xs q"
proof (cases "xs = []")
  case False
  have "p / 100 * of_nat (length xs) \<le> q / 100 * of_nat (length xs)"
    using assms(2) by (intro mult_right_mono) (simp_all add: divide_right_mono)
  then have "\<lceil>p / 100 * of_nat (length xs)\<rceil> \<le> \<lceil>q / 100 * of_nat (length xs)\<rceil>" by (rule ceiling_mono)
  then have "nat (min (int (length xs) - 1) (max 0 (\<lceil>p / 100 * of_nat (length xs)\<rceil> - 1)))
      \<le> nat (min (int (length xs) - 1) (max 0 (\<lceil>q / 100 * of_nat (length xs)\<rceil> - 1)))"
    by (intro nat_mono min.mono max.mono) simp_all
  moreover have "0 < length xs" using False by simp
  ultimately show ?thesis unfolding percentile_index [OF False] by (intro sorted_nth_mono [OF assms(1)]) linarith+
qed (simp add: percentile_def)

text \<open>The columns of a latency row never decrease, and the last is the slowest successful round trip.\<close>
theorem latency_rows:
  assumes "(n, row) \<in> set (runLatency remoteAddr results remote)"
  defines "ls \<equiv> collectLatencies (if remoteAddr = [] then results n else remote n)"
  shows "\<exists>p50 p95 p99 top. row = [p50, p95, p99, top] \<and> p50 \<le> p95 \<and> p95 \<le> p99 \<and> p99 \<le> top \<and>
    (ls \<noteq> [] \<longrightarrow> top = Max (set ls)) \<and> n \<in> {1, 10, 50, 100, 500}"
proof -
  have row: "row = printLatencyRow ls" "n \<in> {1, 10, 50, 100, 500}"
    using assms(1) by (auto simp: runLatency_def runRemoteLatency_def benchLevels_def ls_def Let_def split: if_splits)
  have "sorted ls" by (simp add: ls_def collectLatencies_sorted)
  note mono = percentile_mono [OF this]
  have "percentile ls 100 = Max (set ls)" if "ls \<noteq> []"
  proof (rule sym, rule Max_eqI)
    have "nat (int (length ls) - 1) = length ls - 1" by linarith
    then have top: "percentile ls 100 = ls ! (length ls - 1)" using that by (simp add: percentile_def Let_def)
    then show "percentile ls 100 \<in> set ls" using that by simp
    show "y \<le> percentile ls 100" if "y \<in> set ls" for y
      using that \<open>sorted ls\<close> unfolding top by (auto simp: in_set_conv_nth intro!: sorted_nth_mono)
  qed simp
  with row mono [of 50 95] mono [of 95 99] mono [of 99 100] show ?thesis by (auto simp: printLatencyRow_def)
qed

end
