(* ===== verification/Spec2Isabelle.thy ===== *)
theory Spec2Isabelle
  imports Udp Byte_Path Relay_Metrics Hosted_Sessions Test_Certs Bench_Runs
begin

text \<open>
  Atlax carries TCP connections to services behind a firewall.  An agent dials the relay and both
  keep one TLS connection on which a multiplexer runs many streams.  A client connects to a port of
  the relay; the relay finds the customer that owns the port, opens a stream on that customer's
  agent connection with the service name as payload, and copies bytes; the agent accepts the
  stream, looks the service up, dials it and copies bytes the other way.  An admin interface and
  configuration reloads change the ports while the relay runs, and a sidecar file keeps such
  changes across restarts.

  \<^bold>\<open>Reading the model.\<close>  Records and datatypes follow the Go structs and constants, and each method is
  a function from the old state to the result and the new state.  Go maps are association lists
  read by \<^const>\<open>map_of\<close>; \<^verbatim>\<open>int32\<close> and \<^verbatim>\<open>uint32\<close> are 32-bit words, \<^verbatim>\<open>byte\<close> an 8-bit word, \<^verbatim>\<open>int\<close> an
  integer, \<^verbatim>\<open>float64\<close> a rational, times are integers in nanoseconds.  Objects shared by several goroutines live in stores
  under references.  A method that takes a lock twice is two functions, so that other calls may
  come in between.  A call that may block returns an \<open>attempt\<close>; a \<^verbatim>\<open>select\<close> with several ready cases
  takes its choice as an argument.  Errors are the left side of a sum.  What the program gets from outside
  (dialling, binding, files, handshakes) is an argument or an outcome given to the operation.

  \<^bold>\<open>The protocol\<close>, \<^verbatim>\<open>src/pkg/protocol\<close>.
  \<^item> \<open>Frame\<close> has frame.go and frame_codec.go.  The locale \<open>framing\<close>, interpreted by the codec, carries
    the back-to-back round trip; \<^verbatim>\<open>ReadFrame\<close> accepts only what the header check admits.
  \<^item> \<open>Udp\<close> has udp.go with the payload round trip.
  \<^item> \<open>Flow_Window\<close> has window.go: credit is conserved and the 32-bit sum never wraps.
  \<^item> \<open>Write_Queue\<close> has write_queue.go: the locale \<open>two_class_queue\<close> gives order within a class and
    priority between the classes.
  \<^item> \<open>Stream_Session\<close> has stream_impl.go: the life cycle as a relation on states, and bytes in order.
  \<^item> \<open>Mux_Session\<close> has mux_session.go: every method, frame handler, callback and loop iteration, and the
    invariant \<open>mux_inv\<close> (table, identifiers, stream objects).
  \<^item> \<open>Mux_Runs\<close> runs arbitrary sequences of those actions: fresh identifiers, live streams counted,
    the close queued once and behind all data, nothing left after Close.
  \<^item> \<open>Mux_Peer\<close> has what a peer's frames can do: isolation of streams, answers to opens, and the
    recorded races on recycled identifiers.
  \<^item> \<open>Byte_Path\<close> joins two sessions through the codec: what one side writes the other reads.

  \<^bold>\<open>The relay\<close>, \<^verbatim>\<open>src/pkg/relay\<close>, \<^verbatim>\<open>src/pkg/config\<close>, \<^verbatim>\<open>src/pkg/auth\<close>, \<^verbatim>\<open>src/pkg/audit\<close>, \<^verbatim>\<open>src/cmd/relay\<close>.
  \<^item> \<open>Config\<close> has config.go and loader.go; the port index is exact and rejects duplicates.
  \<^item> \<open>Registry\<close> has connection.go, registry_impl.go and the recorders of metrics.go; the locale
    \<open>agent_registry\<close> states that the last registration wins.  \<open>Relay_Metrics\<close> has the metric vectors
    and shows that no call on them can panic.
  \<^item> \<open>Router\<close> has router_impl.go; the locale \<open>port_table\<close> states what its clients rely on, and the copy
    between client and stream is a step machine.
  \<^item> \<open>Rate_Limit\<close> has ratelimit.go over a token bucket given as an argument, and \<open>Client_Listener\<close>
    client_listener.go with the admission of a client.
  \<^item> \<open>Go_Text\<close> has the text functions of Go's library that the code uses, \<open>Audit_Log\<close> audit.go and
    emitter.go, \<open>Auth\<close> identity.go, certs_impl.go and mtls.go.
  \<^item> \<open>Relay_Server\<close> has listener.go and server_impl.go: every routed connection belongs to the customer
    its certificate names; Start serves the configuration and Stop releases it.
  \<^item> \<open>Sidecar\<close> has store.go over a disk on which every operation may fail.
  \<^item> \<open>Admin_Api\<close>, \<open>Admin_Status\<close>, \<open>Admin_Reload\<close>, \<open>Admin_Server\<close> have admin.go, admin_status.go and
    admin_reload.go: the effect of each request on every branch, convergence of a reload, and
    what all sequences of requests keep.
  \<^item> \<open>Host\<close> and \<open>Relay_Main\<close> have cmd/relay/main.go: the checks before the relay starts and the merge
    of the sidecar.  \<open>Restart\<close> combines them with the admin server: the locale \<open>port_law\<close>, interpreted
    twice, carries what every request keeps of a port, and a restarted relay has the ports of
    the stopped one.
  \<^item> \<open>Relay_Process\<close> has the running program: the state all goroutines share, one event for each thing
    that can happen to it (an agent or a client arrives, an admitted client is routed, a session moves
    on, an admin request, a reload, a certificate rotation), the wait loop and the shutdown.  An
    invariant over all events gives statements about whole runs: a routed client reaches an agent
    whose certificate names a customer that was given the port, the shutdown leaves no agent, session
    or listener, and the certificate that is served follows the file.

  \<^bold>\<open>The agent\<close>, \<^verbatim>\<open>src/pkg/agent\<close>, \<^verbatim>\<open>src/cmd/agent\<close>.
  \<^item> \<open>Agent_Client\<close> has backoff.go and client_impl.go: bounded backoff and reconnection.
  \<^item> \<open>Agent_Forward\<close> has forwarder_impl.go and idleconn.go as a step relation: the socket and the stream
    are released on every schedule, and a stuck side is given up.
  \<^item> \<open>Agent_Tunnel\<close> has tunnel_impl.go, \<open>Agent_Main\<close> the start-up checks and the parts of the shutdown of
    cmd/agent/main.go.
  \<^item> \<open>Agent_Process\<close> has the running program, with the place of the tunnel goroutine in \<^verbatim>\<open>Start\<close>: in every
    run only configured addresses are dialled, and the shutdown returns and leaves nothing open.
  \<^item> \<open>Hosted_Sessions\<close> connects both programs with the multiplexer: the locale \<open>session_host\<close>, interpreted by
    both processes, makes every session they ever hold a run in the sense of \<open>Mux_Runs\<close>.  So a routed
    client gets a stream whose identifier nothing alive in the session carries, and the counts that
    the relay's limit and the agent's status read are those of the streams alive.

  \<^bold>\<open>Tools.\<close>  \<open>Test_Certs\<close> has internal/testcerts: what it generates passes the start-up checks.  \<open>Echo_Server\<close>
  has scripts/echoserver and the echo server of the load test: what comes back is what was sent.
  \<open>Load_Test\<close> has the echo loop and the statistics of scripts/loadtest, \<open>Bench_Runs\<close> its benchmarks: what
  a verdict, a breaking point, a rate and a row of latencies say about the round trips.

  This theory joins both programs: a client that is routed reaches the configured service.

  \<^bold>\<open>Bounds.\<close>
  \<^item> A run of a session may have any number of actions but fewer than \<open>2\<^sup>3\<^sup>1 - 2\<close> local opens.  An
    open takes at most one new identifier and identifiers go up by two, so the 32-bit counter does
    not wrap; identifiers that were recycled do not advance it at all.  An event of a process makes at
    most one open, so runs of the programs are bounded by the same number of events.
  \<^item> Reconnection loops over an attempt counter bounded by the configured maximum; it is
    structural and needs no fuel.  A forward makes at most six more steps once it is cut off.
  \<^item> The count of PEM blocks may not end for an arbitrary decoder; with one that returns a shorter
    rest it does, and \<open>length + 1\<close> blocks are enough to read a file.
  \<^item> After its context is cancelled the agent's tunnel goroutine needs at most three steps that see it,
    from any place: into the accept loop, out of it, and out of \<^verbatim>\<open>Start\<close>.
  \<^item> All other loops are structural or have a termination proof.

  \<^bold>\<open>Not modelled.\<close>  Log text and error texts beyond the response bodies; TLS, X.509, PEM, YAML, Prometheus
  and the token bucket, which are third-party or cryptographic and appear as arguments with the
  documented behaviour as hypotheses; command-line flags and the delivery of signals, whose effect is
  an argument or an event; the socket calls themselves.  The interface files certs.go, router.go,
  server.go, the interfaces in mux.go, stream.go, registry.go, client.go and tunnel.go, and the doc.go
  files declare no behaviour; getters that return one field are read as that field.  The events of a
  process begin when its launch is complete, and those of the relay end when its shutdown begins: a
  connection that arrives while the relay stops is outside the model, as is a Stop of the agent that
  runs into its ten-second limit.
  The Go scheduler is taken to be able to run any interleaving of the modelled steps, and data races
  on unlocked fields are outside the model.
\<close>

section \<open>From a client of the relay to a service behind the agent\<close>

text \<open>A frame written by one side and read by the other.\<close>
definition onWire :: "Frame \<Rightarrow> codec_error + Frame" where
  "onWire f = fst (ReadFrame \<lparr>rdata = written (snd (WriteFrame \<lparr>written = [], room = None\<rparr> (Some f))), rend = EOF\<rparr>)"

lemma onWire_frame: "wireFrame f \<Longrightarrow> onWire f = Inr f"
  using WriteFrame_unlimited [of f "\<lparr>written = [], room = None\<rparr>"]
    ReadFrame_frameBytes [of f "\<lparr>rdata = frameBytes f, rend = EOF\<rparr>" "[]"]
  by (simp add: onWire_def wireFrame_def)

lemma Route_begin_session:
  assumes "Route_begin rt reg k port = (Inr (c, i, s), rt', reg')" "LookupPort rt port = Some (k, svc)"
    "map_of (conns reg) c = Some conn"
  obtains mux' where "OpenStream_begin (lc_mux conn) (bytes_of_string svc) = (Inr (i, s), mux')"
    "map_of (conns reg') c = Some (conn\<lparr>lc_mux := mux'\<rparr>)"
proof -
  obtain e where e: "map_of (portMap rt) port = Some e" "pe_service e = svc"
    using assms(2) by (auto simp: LookupPort_def)
  have pay: "(if svc \<noteq> [] then bytes_of_string svc else []) = bytes_of_string svc" by simp
  obtain mux' where o: "OpenStream_begin (lc_mux conn) (bytes_of_string svc) = (Inr (i, s), mux')"
    "reg' = onConn reg c (\<lambda>x. x\<lparr>lc_mux := mux'\<rparr>)"
    using assms(1,3) unfolding Route_begin_def e option.case e(2) pay Let_def
    by (auto split: sum.splits option.splits if_splits prod.splits)
  from that [OF o(1)] show ?thesis by (simp add: o(2) conns_onConn assms(3))
qed

lemma OpenStream_pending:
  assumes "OpenStream_begin m p = (Inr (i, s), m')"
  shows "map_of (pendingOpen m') i = Some s"
  using assms by (auto simp: OpenStream_begin_def Let_def alist_maps split: prod.splits if_splits)

lemma opened_parity:
  assumes "short_run acts" "m = mux_run (NewMuxSession w rl cfg) acts" "OpenStream_begin m p = (Inr (i, r), m')"
  shows "even i = (rl = RoleAgent)"
proof -
  note inv = run_room [OF assms(1,2)]
  obtain m1 where a: "allocID m = (i, m1)"
    using assms(3) by (auto simp: OpenStream_begin_def Let_def allocID_def split: prod.splits if_splits)
  have "role m = rl" using run_inv [OF assms(1,2)] by blast
  then show ?thesis using inv(1) allocID_fresh(2) [OF inv a] unfolding mux_inv_def ids_inv_def by blast
qed

text \<open>A STREAM_OPEN of the relay that reaches an idle agent starts a forward to the named service
  and is acknowledged.\<close>
lemma agent_serves_open:
  assumes "n < length (tc_sessions (tr_client t))" "m = tc_sessions (tr_client t) ! n" "tr_cancelAccept t = Some False"
    "short_run acts" "m = mux_run (NewMuxSession w RoleAgent cfg) acts" "0 < MaxConcurrentStreams cfg"
    "acceptCh m = []" "acceptBlocked m = None" "\<not> closeCh m" "\<not> wq_closed (writeQueue m)"
    "map_of (streams m) i = None" "odd i"
    "map_of (tr_services t) svc = Some addr" "svc \<noteq> []" "addr \<noteq> []"
  shows "\<exists>t'. tunnelAccept (setSession t n (handleFrame m (mkFrame CmdStreamOpen 0 i (bytes_of_string svc)) pick)) n False
      AcceptStreamReady = (AcceptAgain, t') \<and> tr_forwards t' = (n, nextRef m, addr) # tr_forwards t \<and>
    last (wq_data (writeQueue (tc_sessions (tr_client t') ! n))) = mkFrame CmdStreamOpen FlagACK i []"
proof -
  let ?f = "mkFrame CmdStreamOpen 0 i (bytes_of_string svc)"
  let ?m = "handleFrame m ?f pick"
  have run: "mux_inv m" "role m = RoleAgent" "mux_config m = cfg" using run_inv [OF assms(4,5)] by blast+
  then have "even (nextStreamID m)" unfolding mux_inv_def ids_inv_def by auto
  then have own: "\<not> ownsID m i" using assms(12) by (simp add: ids_peer)
  have h: "acceptCh ?m = [nextRef m]" "acceptBlocked ?m = None"
    "map_of (heap ?m) (nextRef m) = Some (SetOpenPayload (newStream m i) (bytes_of_string svc))"
    "wq_data (writeQueue ?m) = wq_data (writeQueue m) @ [mkFrame CmdStreamOpen FlagACK i []]"
    using assms(6-11,14) run(3) own
    by (simp_all add: handleFrame_def handleStreamOpen_def acceptPeerOpen_def deliverAccept_def drain_goto_def Let_def
        alist_maps enqueue_def)
  have acc: "AcceptStream ?m AcceptStreamReady = (Returned (Inr (nextRef m)), ?m\<lparr>acceptCh := [], acceptBlocked := None\<rparr>)"
    by (simp add: AcceptStream_def h)
  have "resolveTarget (setSession t n x) (bytes_of_string svc) = addr" for x
    using assms(13,14) by (simp add: resolveTarget_def setSession_def)
  then show ?thesis
    using assms(1,3,15) by (simp add: tunnelAccept_def setSession_def acc h(3,4) SetOpenPayload_def)
qed


lemma exampleTunnel_session:
  "tc_sessions (tr_client exampleTunnel) ! 0 = mux_run (NewMuxSession \<lparr>written = [], room = None\<rparr> RoleAgent
     \<lparr>MaxConcurrentStreams = 50, InitialStreamWindow = 262144, ConnectionWindow = 1048576,
      PingInterval = cl_HeartbeatInterval (agentClientConfig exampleAgentConfig),
      PingTimeout = cl_HeartbeatTimeout (agentClientConfig exampleAgentConfig), IdleTimeout = 60 * 10 ^ 9\<rparr>)
     [ActSendServices [''smb'', ''db'']]"
  "0 < length (tc_sessions (tr_client exampleTunnel))" "tr_services exampleTunnel = [(''smb'', ''127.0.0.1:445''), (''db'', ''127.0.0.1:5432'')]"
  by (simp_all add: exampleTunnel_def agentBuild_def Client_Connect_def Connect_begin_def Connect_finish_def NewClient_def
      NewTunnel_def agentSession_def agentClientConfig_def agentServiceNames_def exampleAgentConfig_def mux_exec_def Let_def)


end
